(* ===== verification/Prelude.thy ===== *)
theory Prelude
  imports Main "HOL-Library.Word" "HOL-Library.AList"
begin

text \<open>
  What the component theories share: the machine integers of the Go code and
  its byte order helpers (encoding/binary), writes into byte slices, Go maps
  as association lists, and the contract of a state machine whose steps keep
  an invariant.

  Go slices of bytes are \<open>8 word list\<close>.  A write that the Go runtime
  would refuse with a panic is \<open>None\<close>.  A Go map is an association list;
  \<open>range\<close> over a Go map visits the entries in an unspecified order, so the
  order of the association list plays the part of that order and theorems hold
  for every order.
\<close>

unbundle bit_operations_syntax

type_synonym u8 = "8 word"
type_synonym u16 = "16 word"
type_synonym u32 = "32 word"
type_synonym u64 = "64 word"
type_synonym bytes = "8 word list"

named_theorems wire_simps \<open>lengths and round trips of the byte encodings\<close>
named_theorems inv_intros \<open>operations that keep their component's invariant\<close>

section \<open>Byte order: encoding/binary\<close>

definition put_be16 :: "u16 \<Rightarrow> bytes" where
  "put_be16 w = [ucast (drop_bit 8 w), ucast w]"

definition put_be32 :: "u32 \<Rightarrow> bytes" where
  "put_be32 w = [ucast (drop_bit 24 w), ucast (drop_bit 16 w), ucast (drop_bit 8 w), ucast w]"

definition put_be64 :: "u64 \<Rightarrow> bytes" where
  "put_be64 w = [ucast (drop_bit 56 w), ucast (drop_bit 48 w), ucast (drop_bit 40 w),
     ucast (drop_bit 32 w), ucast (drop_bit 24 w), ucast (drop_bit 16 w), ucast (drop_bit 8 w),
     ucast w]"

definition put_le16 :: "u16 \<Rightarrow> bytes" where
  "put_le16 w = [ucast w, ucast (drop_bit 8 w)]"

definition put_le32 :: "u32 \<Rightarrow> bytes" where
  "put_le32 w = [ucast w, ucast (drop_bit 8 w), ucast (drop_bit 16 w), ucast (drop_bit 24 w)]"

text \<open>Reads at an offset.  The callers check the length first; \<open>byte_at\<close> is 0 past the end.\<close>

definition byte_at :: "bytes \<Rightarrow> nat \<Rightarrow> u8" where
  "byte_at bs i = (if i < length bs then bs ! i else 0)"

definition get_be16 :: "bytes \<Rightarrow> nat \<Rightarrow> u16" where
  "get_be16 bs i = push_bit 8 (ucast (byte_at bs i)) OR ucast (byte_at bs (i + 1))"

definition get_be32 :: "bytes \<Rightarrow> nat \<Rightarrow> u32" where
  "get_be32 bs i = push_bit 24 (ucast (byte_at bs i)) OR push_bit 16 (ucast (byte_at bs (i + 1)))
     OR push_bit 8 (ucast (byte_at bs (i + 2))) OR ucast (byte_at bs (i + 3))"

definition get_be64 :: "bytes \<Rightarrow> nat \<Rightarrow> u64" where
  "get_be64 bs i = push_bit 56 (ucast (byte_at bs i)) OR push_bit 48 (ucast (byte_at bs (i + 1)))
     OR push_bit 40 (ucast (byte_at bs (i + 2))) OR push_bit 32 (ucast (byte_at bs (i + 3)))
     OR push_bit 24 (ucast (byte_at bs (i + 4))) OR push_bit 16 (ucast (byte_at bs (i + 5)))
     OR push_bit 8 (ucast (byte_at bs (i + 6))) OR ucast (byte_at bs (i + 7))"

definition get_le16 :: "bytes \<Rightarrow> nat \<Rightarrow> u16" where
  "get_le16 bs i = ucast (byte_at bs i) OR push_bit 8 (ucast (byte_at bs (i + 1)))"

definition get_le32 :: "bytes \<Rightarrow> nat \<Rightarrow> u32" where
  "get_le32 bs i = ucast (byte_at bs i) OR push_bit 8 (ucast (byte_at bs (i + 1)))
     OR push_bit 16 (ucast (byte_at bs (i + 2))) OR push_bit 24 (ucast (byte_at bs (i + 3)))"

lemma length_put_bytes [simp, wire_simps]:
  "length (put_be16 a) = 2" "length (put_be32 b) = 4" "length (put_be64 c) = 8"
  "length (put_le16 a) = 2" "length (put_le32 b) = 4"
  by (simp_all add: put_be16_def put_be32_def put_be64_def put_le16_def put_le32_def)

lemma byte_at_append1 [simp]: "i < length xs \<Longrightarrow> byte_at (xs @ ys) i = byte_at xs i"
  by (simp add: byte_at_def nth_append)

lemma byte_at_append2 [simp]: "length xs \<le> i \<Longrightarrow> byte_at (xs @ ys) i = byte_at ys (i - length xs)"
  by (auto simp: byte_at_def nth_append)

lemma byte_at_Cons_0 [simp]: "byte_at (x # xs) 0 = x"
  by (simp add: byte_at_def)

lemma byte_at_Cons_Suc [simp]: "byte_at (x # xs) (Suc i) = byte_at xs i"
  by (simp add: byte_at_def)

lemma get_be16_put [wire_simps]: "get_be16 (put_be16 w @ rest) 0 = w"
  by (rule bit_word_eqI)
     (auto simp: get_be16_def put_be16_def byte_at_def bit_simps less_diff_conv)

lemma get_le16_put [wire_simps]: "get_le16 (put_le16 w @ rest) 0 = w"
  by (rule bit_word_eqI)
     (auto simp: get_le16_def put_le16_def byte_at_def bit_simps less_diff_conv)

text \<open>A 32-bit word is its four bytes: bit by bit, the byte a bit lies in decides.\<close>

lemma four_bytes:
  fixes w :: u32
  shows "push_bit 24 (ucast (ucast (drop_bit 24 w) :: u8)) OR
    push_bit 16 (ucast (ucast (drop_bit 16 w) :: u8)) OR
    push_bit 8 (ucast (ucast (drop_bit 8 w) :: u8)) OR ucast (ucast w :: u8) = w"
    (is "?l = w")
proof (rule bit_word_eqI)
  fix n assume "n < LENGTH(32)"
  then consider "n < 8" | "8 \<le> n \<and> n < 16" | "16 \<le> n \<and> n < 24" | "24 \<le> n \<and> n < 32"
    by fastforce
  then show "bit ?l n = bit w n"
    by cases (auto simp: bit_simps)
qed

lemma get_be32_put [wire_simps]: "get_be32 (put_be32 w @ rest) 0 = w"
  using four_bytes [of w] by (simp add: get_be32_def put_be32_def byte_at_def)

lemma get_le32_put [wire_simps]: "get_le32 (put_le32 w @ rest) 0 = w"
  using four_bytes [of w] by (simp add: get_le32_def put_le32_def byte_at_def ac_simps)

lemma byte_at_drop: "byte_at (drop k xs) i = byte_at xs (k + i)"
  by (auto simp: byte_at_def)

lemma get_be16_drop: "get_be16 xs (k + i) = get_be16 (drop k xs) i"
  by (simp add: get_be16_def byte_at_drop add.assoc)

lemma get_be32_drop: "get_be32 xs (k + i) = get_be32 (drop k xs) i"
  by (simp add: get_be32_def byte_at_drop add.assoc)

lemma get_be16_at [wire_simps]: "length xs = i \<Longrightarrow> get_be16 (xs @ put_be16 w @ rest) i = w"
  using get_be16_drop [of "xs @ put_be16 w @ rest" i 0] by (simp add: get_be16_put)

lemma get_be32_at [wire_simps]: "length xs = i \<Longrightarrow> get_be32 (xs @ put_be32 w @ rest) i = w"
  using get_be32_drop [of "xs @ put_be32 w @ rest" i 0] by (simp add: get_be32_put)

lemma get_be32_list:
  "length xs = off \<Longrightarrow>
   map (\<lambda>i. get_be32 (xs @ concat (map put_be32 ws) @ rest) (off + i * 4)) [0..<length ws] = ws"
proof (induction ws arbitrary: xs off)
  case Nil
  then show ?case by simp
next
  case (Cons w ws)
  let ?b = "xs @ concat (map put_be32 (w # ws)) @ rest"
  have "[0..<length (w # ws)] = 0 # map Suc [0..<length ws]"
    by (simp add: upt_conv_Cons map_Suc_upt del: upt_Suc)
  moreover have "get_be32 ?b off = w"
    using Cons.prems by (simp add: get_be32_at)
  moreover have "map (\<lambda>i. get_be32 ((xs @ put_be32 w) @ concat (map put_be32 ws) @ rest)
      (off + 4 + i * 4)) [0..<length ws] = ws"
    using Cons.prems by (intro Cons.IH) simp
  ultimately show ?case by (simp add: o_def add.assoc)
qed

section \<open>Writes into a slice\<close>

text \<open>\<open>put_at buf off bs\<close> overwrites \<open>bs\<close> from \<open>off\<close>; \<open>None\<close> is the index panic.\<close>

definition put_at :: "bytes \<Rightarrow> nat \<Rightarrow> bytes \<Rightarrow> bytes option" where
  "put_at buf off bs =
     (if off + length bs \<le> length buf
      then Some (take off buf @ bs @ drop (off + length bs) buf) else None)"

text \<open>\<open>copy(buf[off:], bs)\<close> copies what fits; slicing past the end panics.\<close>

definition copy_at :: "bytes \<Rightarrow> nat \<Rightarrow> bytes \<Rightarrow> bytes option" where
  "copy_at buf off bs =
     (if off \<le> length buf
      then Some (take off buf @ take (length buf - off) bs @ drop (off + length bs) buf) else None)"

lemma put_at_append:
  "length xs = off \<Longrightarrow> length bs \<le> length ys
   \<Longrightarrow> put_at (xs @ ys) off bs = Some (xs @ bs @ drop (length bs) ys)"
  by (auto simp: put_at_def)

lemma copy_at_append:
  "length xs = off \<Longrightarrow> length bs \<le> length ys
   \<Longrightarrow> copy_at (xs @ ys) off bs = Some (xs @ bs @ drop (length bs) ys)"
  by (auto simp: copy_at_def)

lemma put_at_length: "put_at buf off bs = Some buf' \<Longrightarrow> length buf' = length buf"
  by (auto simp: put_at_def split: if_splits)

lemma copy_at_length: "copy_at buf off bs = Some buf' \<Longrightarrow> length buf' = length buf"
  by (auto simp: copy_at_def split: if_splits)

section \<open>Go maps\<close>

type_synonym ('k, 'v) gomap = "('k \<times> 'v) list"

definition gm_wf :: "('k, 'v) gomap \<Rightarrow> bool" where
  "gm_wf m \<longleftrightarrow> distinct (map fst m)"

definition gm_get :: "('k, 'v) gomap \<Rightarrow> 'k \<Rightarrow> 'v option" where
  "gm_get m k = map_of m k"

definition gm_put :: "'k \<Rightarrow> 'v \<Rightarrow> ('k, 'v) gomap \<Rightarrow> ('k, 'v) gomap" where
  "gm_put k v m = AList.update k v m"

definition gm_del :: "'k \<Rightarrow> ('k, 'v) gomap \<Rightarrow> ('k, 'v) gomap" where
  "gm_del k m = AList.delete k m"

definition gm_keys :: "('k, 'v) gomap \<Rightarrow> 'k list" where
  "gm_keys m = map fst m"

definition gm_has :: "('k, 'v) gomap \<Rightarrow> 'k \<Rightarrow> bool" where
  "gm_has m k = (gm_get m k \<noteq> None)"

text \<open>The entries that a \<open>for k, v := range m \<dots> delete(m, k)\<close> loop leaves behind.\<close>

definition gm_filter :: "('k \<Rightarrow> 'v \<Rightarrow> bool) \<Rightarrow> ('k, 'v) gomap \<Rightarrow> ('k, 'v) gomap" where
  "gm_filter P m = filter (\<lambda>(k, v). P k v) m"

lemma gm_wf_nil [simp, intro, inv_intros]: "gm_wf []"
  by (simp add: gm_wf_def)

lemma gm_wf_put [simp, intro, inv_intros]: "gm_wf m \<Longrightarrow> gm_wf (gm_put k v m)"
  by (simp add: gm_wf_def gm_put_def distinct_update)

lemma gm_wf_del [simp, intro, inv_intros]: "gm_wf m \<Longrightarrow> gm_wf (gm_del k m)"
  by (simp add: gm_wf_def gm_del_def distinct_delete)

lemma gm_wf_filter [simp, intro, inv_intros]: "gm_wf m \<Longrightarrow> gm_wf (gm_filter P m)"
  by (auto simp: gm_wf_def gm_filter_def distinct_map inj_on_def)

lemma gm_get_nil [simp]: "gm_get [] k = None"
  by (simp add: gm_get_def)

lemma gm_get_put: "gm_get (gm_put k v m) = (gm_get m)(k \<mapsto> v)"
  by (rule ext) (simp add: gm_get_def gm_put_def update_conv')

lemma gm_get_put_same [simp]: "gm_get (gm_put k v m) k = Some v"
  by (simp add: gm_get_put)

lemma gm_get_put_other [simp]: "k' \<noteq> k \<Longrightarrow> gm_get (gm_put k v m) k' = gm_get m k'"
  by (simp add: gm_get_put)

lemma gm_get_del: "gm_get (gm_del k m) = (gm_get m)(k := None)"
  by (rule ext) (simp add: gm_get_def gm_del_def delete_conv')

lemma gm_get_del_same [simp]: "gm_get (gm_del k m) k = None"
  by (simp add: gm_get_del)

lemma gm_get_del_other [simp]: "k' \<noteq> k \<Longrightarrow> gm_get (gm_del k m) k' = gm_get m k'"
  by (simp add: gm_get_del)

lemma gm_get_Some_iff: "gm_wf m \<Longrightarrow> gm_get m k = Some v \<longleftrightarrow> (k, v) \<in> set m"
  by (simp add: gm_get_def gm_wf_def)

lemma gm_get_in: "gm_get m k = Some v \<Longrightarrow> (k, v) \<in> set m"
  by (simp add: gm_get_def map_of_SomeD)

lemma gm_in_del: "(k', v) \<in> set (gm_del k m) \<longleftrightarrow> (k', v) \<in> set m \<and> k' \<noteq> k"
  by (auto simp: gm_del_def AList.delete_eq)

lemma gm_in_put: "x \<in> set (gm_put k v m) \<Longrightarrow> x = (k, v) \<or> x \<in> set m"
  by (induction m) (auto simp: gm_put_def split: if_splits)

lemma gm_get_filter:
  assumes "gm_wf m"
  shows "gm_get (gm_filter P m) k =
    (case gm_get m k of None \<Rightarrow> None | Some v \<Rightarrow> if P k v then Some v else None)"
  using assms by (induction m) (auto simp: gm_get_def gm_filter_def gm_wf_def map_of_eq_None_iff
      split: option.splits dest: map_of_SomeD)

lemma gm_get_filter_Some:
  "gm_wf m \<Longrightarrow> gm_get (gm_filter P m) k = Some v \<longleftrightarrow> gm_get m k = Some v \<and> P k v"
  by (auto simp: gm_get_filter split: option.splits)

lemma gm_length_del: "gm_wf m \<Longrightarrow> gm_get m k = Some v \<Longrightarrow> length (gm_del k m) = length m - 1"
proof (induction m)
  case Nil
  then show ?case by simp
next
  case (Cons a m)
  obtain k' v' where a: "a = (k', v')" by (cases a)
  show ?case
  proof (cases "k' = k")
    case True
    with Cons.prems a have "k \<notin> dom (map_of m)"
      by (simp add: gm_wf_def dom_map_of_conv_image_fst)
    then have "gm_del k m = m"
      by (simp add: gm_del_def dom_map_of_conv_image_fst)
    then show ?thesis using a True by (simp add: gm_del_def)
  next
    case False
    from False a Cons.prems have m: "gm_wf m" "gm_get m k = Some v"
      by (auto simp: gm_wf_def gm_get_def)
    then have "length m \<noteq> 0"
      by (auto simp: gm_get_def)
    with False a Cons.IH [OF m] show ?thesis
      by (simp add: gm_del_def)
  qed
qed

section \<open>Text\<close>

text \<open>What fmt.Sprintf and strconv make of a number: decimal and lower case hexadecimal.\<close>

definition digit_char :: "nat \<Rightarrow> char" where
  "digit_char d = char_of (if d < 10 then 48 + d else 87 + d)"

fun radix_digits :: "nat \<Rightarrow> nat \<Rightarrow> nat \<Rightarrow> string" where
  "radix_digits 0 b n = []"
| "radix_digits (Suc fuel) b n =
     (if n < b then [digit_char n] else radix_digits fuel b (n div b) @ [digit_char (n mod b)])"

text \<open>A number has no more digits than its value plus one.\<close>

definition nat_text :: "nat \<Rightarrow> string" where
  "nat_text n = radix_digits (Suc n) 10 n"

definition int_text :: "int \<Rightarrow> string" where
  "int_text i = (if i < 0 then CHR ''-'' # nat_text (nat (- i)) else nat_text (nat i))"

definition hex_text :: "nat \<Rightarrow> string" where
  "hex_text n = radix_digits (Suc n) 16 n"

definition hex_pad :: "nat \<Rightarrow> nat \<Rightarrow> string" where
  "hex_pad w n = replicate (w - length (hex_text n)) (CHR ''0'') @ hex_text n"

fun join :: "string \<Rightarrow> string list \<Rightarrow> string" where
  "join sep [] = []"
| "join sep [x] = x"
| "join sep (x # y # xs) = x @ sep @ join sep (y # xs)"

text \<open>strings.ToLower and strings.TrimSpace on ASCII text.\<close>

definition lower :: "char \<Rightarrow> char" where
  "lower c = (if 65 \<le> (of_char c :: nat) \<and> of_char c \<le> (90 :: nat) then char_of (of_char c + 32 :: nat) else c)"

definition blank :: "char \<Rightarrow> bool" where
  "blank c \<longleftrightarrow> (of_char c :: nat) \<in> {32, 9, 10, 11, 12, 13}"

definition trim_space :: "string \<Rightarrow> string" where
  "trim_space s = rev (dropWhile blank (rev (dropWhile blank s)))"

section \<open>State machines with an invariant\<close>

text \<open>
  Several components are a step function over their state and one invariant
  that every step keeps.  The contract is stated once: what the provider shows
  for a single step is known of every run.
\<close>

fun run_steps :: "('s \<Rightarrow> 'e \<Rightarrow> 's) \<Rightarrow> 's \<Rightarrow> 'e list \<Rightarrow> 's" where
  "run_steps f s [] = s"
| "run_steps f s (e # es) = run_steps f (f s e) es"

locale step_machine =
  fixes step :: "'s \<Rightarrow> 'e \<Rightarrow> 's" and inv :: "'s \<Rightarrow> bool"
  assumes step_inv: "inv s \<Longrightarrow> inv (step s e)"
begin

lemma run_inv: "inv s \<Longrightarrow> inv (run_steps step s es)"
  by (induction es arbitrary: s) (auto intro: step_inv)

lemma run_append: "run_steps step s (es @ fs) = run_steps step (run_steps step s es) fs"
  by (induction es arbitrary: s) auto

lemma run_prefix_inv:
  assumes "inv s" shows "inv (run_steps step s (take n es))"
  using assms by (rule run_inv)

end

section \<open>Encodings that can be followed by more bytes\<close>

text \<open>
  The interface between a header format and the code that puts a payload after
  it: an encoding of known size that its parser recognises whatever follows.
\<close>

locale prefix_codec =
  fixes wire :: "'a \<Rightarrow> bytes" and parse :: "bytes \<Rightarrow> 'e + 'a"
    and size_of :: "'a \<Rightarrow> nat" and wf :: "'a \<Rightarrow> bool"
  assumes wire_size: "wf h \<Longrightarrow> length (wire h) = size_of h"
    and parse_wire: "wf h \<Longrightarrow> parse (wire h @ rest) = Inr h"
begin

lemma split_wire:
  assumes "wf h"
  shows "take (size_of h) (wire h @ rest) = wire h" and "drop (size_of h) (wire h @ rest) = rest"
  using wire_size [OF assms] by simp_all

lemma wire_inj:
  assumes "wf h" and "wf h'" and "wire h @ rest = wire h' @ rest'"
  shows "h = h' \<and> rest = rest'"
proof -
  have "Inr h = (Inr h' :: 'e + 'a)"
    using parse_wire [OF assms(1), of rest] parse_wire [OF assms(2), of rest'] assms(3)
    by metis
  with assms(3) show ?thesis by simp
qed

end

end
