(* ===== verification/Rtp.thy ===== *)
theory Rtp
  imports Prelude
begin

text \<open>
  RTP packets and the sending session: src/internal/voip/media/rtp.go.

  \<open>rtp_header\<close> is the struct \<open>RtpHeader\<close>; \<open>rtp_header_encode\<close> and
  \<open>rtp_header_decode\<close> are \<open>Encode\<close> and \<open>DecodeRtpHeader\<close>, with every
  write into the buffer and every check in the order of the code; \<open>RtpPanic\<close>
  marks the index panics of the Go runtime.  \<open>rtp_wire\<close> is the abstract wire
  format of a header; the encoder is shown to write it and the decoder to read
  it back (\<open>prefix_codec\<close>).
\<close>

unbundle bit_operations_syntax

datatype rtp_error =
    RtpBufferTooSmall   \<comment> \<open>buffer too small for RTP header\<close>
  | RtpInvalidVersion   \<comment> \<open>invalid RTP version\<close>
  | RtpCsrcTooSmall     \<comment> \<open>buffer too small for CSRC list\<close>
  | RtpPanic            \<comment> \<open>slice index out of range\<close>

definition rtpVersion :: u8 where
  "rtpVersion = 2"

definition rtpMinHeaderSize :: nat where
  "rtpMinHeaderSize = 12"

record rtp_header =
  rh_version :: u8
  rh_padding :: bool
  rh_extension :: bool
  rh_csrc_count :: u8
  rh_marker :: bool
  rh_payload_type :: u8
  rh_seq :: u16
  rh_timestamp :: u32
  rh_ssrc :: u32
  rh_csrc :: "u32 list"
  rh_ext_profile :: u16
  rh_ext_data :: bytes

definition NewRtpHeader :: "u8 \<Rightarrow> u16 \<Rightarrow> u32 \<Rightarrow> u32 \<Rightarrow> rtp_header" where
  "NewRtpHeader pt sq ts ssrc =
     \<lparr>rh_version = rtpVersion, rh_padding = False, rh_extension = False, rh_csrc_count = 0,
      rh_marker = False, rh_payload_type = pt, rh_seq = sq, rh_timestamp = ts, rh_ssrc = ssrc,
      rh_csrc = [], rh_ext_profile = 0, rh_ext_data = []\<rparr>"

definition rtp_header_size :: "rtp_header \<Rightarrow> nat" where
  "rtp_header_size h =
     rtpMinHeaderSize + unat (rh_csrc_count h) * 4 +
     (if rh_extension h then 4 + length (rh_ext_data h) else 0)"

definition boolBit :: "bool \<Rightarrow> u8" where
  "boolBit b = (if b then 1 else 0)"

definition rtp_byte0 :: "rtp_header \<Rightarrow> u8" where
  "rtp_byte0 h = push_bit 6 (rh_version h AND 3) OR push_bit 5 (boolBit (rh_padding h)) OR
     push_bit 4 (boolBit (rh_extension h)) OR (rh_csrc_count h AND 15)"

definition rtp_byte1 :: "rtp_header \<Rightarrow> u8" where
  "rtp_byte1 h = push_bit 7 (boolBit (rh_marker h)) OR (rh_payload_type h AND 127)"

text \<open>The loop over \<open>h.Csrc\<close>: one \<open>PutUint32(buf[offset:], c)\<close> each.\<close>

fun put_csrcs :: "bytes \<Rightarrow> nat \<Rightarrow> u32 list \<Rightarrow> (bytes \<times> nat) option" where
  "put_csrcs buf off [] = Some (buf, off)"
| "put_csrcs buf off (c # cs) =
     (case put_at buf off (put_be32 c) of None \<Rightarrow> None
      | Some buf' \<Rightarrow> put_csrcs buf' (off + 4) cs)"

text \<open>The block \<open>if h.Extension\<close>: profile, length in words, data.\<close>

definition put_extension :: "rtp_header \<Rightarrow> bytes \<Rightarrow> nat \<Rightarrow> bytes option" where
  "put_extension h buf off =
     (if \<not> rh_extension h then Some buf
      else Option.bind (put_at buf off (put_be16 (rh_ext_profile h)))
        (\<lambda>b1. Option.bind
          (put_at b1 (off + 2) (put_be16 (word_of_nat (length (rh_ext_data h) div 4))))
          (\<lambda>b2. copy_at b2 (off + 4) (rh_ext_data h))))"

definition rtp_header_encode :: "rtp_header \<Rightarrow> bytes \<Rightarrow> rtp_error + nat \<times> bytes" where
  "rtp_header_encode h buf =
     (if length buf < rtp_header_size h then Inl RtpBufferTooSmall
      else case put_at buf 0 ([rtp_byte0 h, rtp_byte1 h] @ put_be16 (rh_seq h) @
                put_be32 (rh_timestamp h) @ put_be32 (rh_ssrc h)) of
        None \<Rightarrow> Inl RtpPanic
      | Some b1 \<Rightarrow> (case put_csrcs b1 12 (rh_csrc h) of
          None \<Rightarrow> Inl RtpPanic
        | Some (b2, off) \<Rightarrow> (case put_extension h b2 off of
            None \<Rightarrow> Inl RtpPanic
          | Some b3 \<Rightarrow> Inr (rtp_header_size h, b3))))"

text \<open>The tail of \<open>DecodeRtpHeader\<close>: the extension is read only as far as the buffer goes.\<close>

definition decode_extension :: "bytes \<Rightarrow> nat \<Rightarrow> rtp_header \<Rightarrow> rtp_header" where
  "decode_extension buf off h =
     (if rh_extension h \<and> off + 4 \<le> length buf then
        (let extBytes = unat (get_be16 buf (off + 2)) * 4;
             h1 = h\<lparr>rh_ext_profile := get_be16 buf off\<rparr>
         in if off + 4 + extBytes \<le> length buf
            then h1\<lparr>rh_ext_data := take extBytes (drop (off + 4) buf)\<rparr> else h1)
      else h)"

definition rtp_header_decode :: "bytes \<Rightarrow> rtp_error + rtp_header" where
  "rtp_header_decode buf =
     (if length buf < rtpMinHeaderSize then Inl RtpBufferTooSmall
      else let b0 = byte_at buf 0; b1 = byte_at buf 1; version = drop_bit 6 b0 AND 3 in
        if version \<noteq> rtpVersion then Inl RtpInvalidVersion
        else let cc = unat (b0 AND 15); off = 12 + cc * 4;
          h = \<lparr>rh_version = version, rh_padding = (drop_bit 5 b0 AND 1 \<noteq> 0),
               rh_extension = (drop_bit 4 b0 AND 1 \<noteq> 0), rh_csrc_count = b0 AND 15,
               rh_marker = (drop_bit 7 b1 AND 1 \<noteq> 0), rh_payload_type = b1 AND 127,
               rh_seq = get_be16 buf 2, rh_timestamp = get_be32 buf 4, rh_ssrc = get_be32 buf 8,
               rh_csrc = map (\<lambda>i. get_be32 buf (12 + i * 4)) [0..<cc],
               rh_ext_profile = 0, rh_ext_data = []\<rparr>
        in if length buf < rtpMinHeaderSize + cc * 4 then Inl RtpCsrcTooSmall
           else Inr (decode_extension buf off h))"

section \<open>Packets\<close>

record rtp_packet =
  rp_header :: rtp_header
  rp_payload :: bytes

definition rtp_packet_size :: "rtp_packet \<Rightarrow> nat" where
  "rtp_packet_size p = rtp_header_size (rp_header p) + length (rp_payload p)"

definition rtp_packet_encode :: "rtp_packet \<Rightarrow> rtp_error + bytes" where
  "rtp_packet_encode p =
     (case rtp_header_encode (rp_header p) (replicate (rtp_packet_size p) 0) of
        Inl e \<Rightarrow> Inl e
      | Inr (n, buf) \<Rightarrow>
          (case copy_at buf n (rp_payload p) of None \<Rightarrow> Inl RtpPanic | Some b \<Rightarrow> Inr b))"

definition rtp_packet_decode :: "bytes \<Rightarrow> rtp_error + rtp_packet" where
  "rtp_packet_decode buf =
     (case rtp_header_decode buf of
        Inl e \<Rightarrow> Inl e
      | Inr h \<Rightarrow>
          (if length buf < rtp_header_size h then Inl RtpPanic
           else Inr \<lparr>rp_header = h, rp_payload = drop (rtp_header_size h) buf\<rparr>))"

section \<open>The sending session\<close>

record rtp_session =
  rs_ssrc :: u32
  rs_payload_type :: u8
  rs_seq :: u16
  rs_sample_rate :: int
  rs_timestamp :: u32
  rs_samples_per_packet :: int

text \<open>\<open>randUint(65536)\<close> and \<open>randUint(1 << 32)\<close> are the arguments \<open>r_seq\<close> and \<open>r_ts\<close>.\<close>

definition NewRtpSession ::
    "u16 \<Rightarrow> u32 \<Rightarrow> u32 \<Rightarrow> u8 \<Rightarrow> int \<Rightarrow> int \<Rightarrow> rtp_session" where
  "NewRtpSession r_seq r_ts ssrc pt rate spp =
     \<lparr>rs_ssrc = ssrc, rs_payload_type = pt, rs_seq = r_seq, rs_sample_rate = rate,
      rs_timestamp = r_ts, rs_samples_per_packet = spp\<rparr>"

definition PayloadTypeWhatsAppOpus :: u8 where
  "PayloadTypeWhatsAppOpus = 120"

definition NewWhatsAppOpusSession :: "u16 \<Rightarrow> u32 \<Rightarrow> u32 \<Rightarrow> rtp_session" where
  "NewWhatsAppOpusSession r_seq r_ts ssrc =
     NewRtpSession r_seq r_ts ssrc PayloadTypeWhatsAppOpus 16000 960"

definition CreatePacketWithDuration ::
    "rtp_session \<Rightarrow> bytes \<Rightarrow> int \<Rightarrow> bool \<Rightarrow> rtp_packet \<times> rtp_session" where
  "CreatePacketWithDuration s payload dur marker =
     (let h = NewRtpHeader (rs_payload_type s) (rs_seq s) (rs_timestamp s) (rs_ssrc s)
      in (\<lparr>rp_header = h\<lparr>rh_marker := marker\<rparr>, rp_payload = payload\<rparr>,
          s\<lparr>rs_seq := rs_seq s + 1, rs_timestamp := rs_timestamp s + word_of_int dur\<rparr>))"

definition CreatePacket :: "rtp_session \<Rightarrow> bytes \<Rightarrow> bool \<Rightarrow> rtp_packet \<times> rtp_session" where
  "CreatePacket s payload marker =
     CreatePacketWithDuration s payload (rs_samples_per_packet s) marker"

section \<open>The wire format\<close>

definition rtp_wf :: "rtp_header \<Rightarrow> bool" where
  "rtp_wf h \<longleftrightarrow>
     rh_version h = rtpVersion \<and> length (rh_csrc h) < 16 \<and>
     rh_csrc_count h = word_of_nat (length (rh_csrc h)) \<and> unat (rh_payload_type h) < 128 \<and>
     (if rh_extension h
      then length (rh_ext_data h) mod 4 = 0 \<and> length (rh_ext_data h) < 262144
      else rh_ext_profile h = 0 \<and> rh_ext_data h = [])"

definition rtp_ext_wire :: "rtp_header \<Rightarrow> bytes" where
  "rtp_ext_wire h =
     (if rh_extension h
      then put_be16 (rh_ext_profile h) @ put_be16 (word_of_nat (length (rh_ext_data h) div 4)) @
           rh_ext_data h
      else [])"

definition rtp_fixed_wire :: "rtp_header \<Rightarrow> bytes" where
  "rtp_fixed_wire h = [rtp_byte0 h, rtp_byte1 h] @ put_be16 (rh_seq h) @
     put_be32 (rh_timestamp h) @ put_be32 (rh_ssrc h)"

definition rtp_wire :: "rtp_header \<Rightarrow> bytes" where
  "rtp_wire h = rtp_fixed_wire h @ concat (map put_be32 (rh_csrc h)) @ rtp_ext_wire h"

lemma length_concat_put_be32 [simp]: "length (concat (map put_be32 cs)) = 4 * length cs"
  by (induction cs) auto

lemma length_rtp_fixed_wire [simp]: "length (rtp_fixed_wire h) = 12"
  by (simp add: rtp_fixed_wire_def)

lemma length_rtp_ext_wire:
  "length (rtp_ext_wire h) = (if rh_extension h then 4 + length (rh_ext_data h) else 0)"
  by (simp add: rtp_ext_wire_def)

lemma rtp_wf_count: "rtp_wf h \<Longrightarrow> unat (rh_csrc_count h) = length (rh_csrc h)"
  by (simp add: rtp_wf_def unat_of_nat take_bit_nat_eq_self)

lemma length_rtp_wire: "rtp_wf h \<Longrightarrow> length (rtp_wire h) = rtp_header_size h"
  by (simp add: rtp_wire_def rtp_header_size_def rtpMinHeaderSize_def length_rtp_ext_wire
      rtp_wf_count)

lemma put_csrcs_append:
  "length xs = off \<Longrightarrow> 4 * length cs \<le> length ys
   \<Longrightarrow> put_csrcs (xs @ ys) off cs =
       Some (xs @ concat (map put_be32 cs) @ drop (4 * length cs) ys, off + 4 * length cs)"
proof (induction cs arbitrary: xs ys off)
  case Nil
  then show ?case by simp
next
  case (Cons c cs)
  have "put_at (xs @ ys) off (put_be32 c) = Some (xs @ put_be32 c @ drop 4 ys)"
    using Cons.prems by (subst put_at_append) auto
  moreover have "put_csrcs ((xs @ put_be32 c) @ drop 4 ys) (off + 4) cs =
      Some ((xs @ put_be32 c) @ concat (map put_be32 cs) @ drop (4 * length cs) (drop 4 ys),
        off + 4 + 4 * length cs)"
    using Cons.prems by (intro Cons.IH) auto
  ultimately show ?case by (simp add: add.commute)
qed

lemma put_extension_append:
  assumes "length xs = off" and "length (rtp_ext_wire h) \<le> length ys"
  shows "put_extension h (xs @ ys) off =
    Some (xs @ rtp_ext_wire h @ drop (length (rtp_ext_wire h)) ys)"
proof (cases "rh_extension h")
  case False
  then show ?thesis by (simp add: put_extension_def rtp_ext_wire_def)
next
  case True
  let ?p = "put_be16 (rh_ext_profile h)"
  let ?w = "put_be16 (word_of_nat (length (rh_ext_data h) div 4))"
  from assms True have len: "4 + length (rh_ext_data h) \<le> length ys"
    by (simp add: length_rtp_ext_wire)
  have 1: "put_at (xs @ ys) off ?p = Some (xs @ ?p @ drop 2 ys)"
    using assms len by (subst put_at_append) auto
  have 2: "put_at ((xs @ ?p) @ drop 2 ys) (off + 2) ?w = Some ((xs @ ?p) @ ?w @ drop 2 (drop 2 ys))"
    using assms len by (subst put_at_append) auto
  have 3: "copy_at ((xs @ ?p @ ?w) @ drop 4 ys) (off + 4) (rh_ext_data h) =
      Some ((xs @ ?p @ ?w) @ rh_ext_data h @ drop (length (rh_ext_data h)) (drop 4 ys))"
    using assms len by (subst copy_at_append) auto
  have l: "length (rtp_ext_wire h) = 4 + length (rh_ext_data h)"
    using True by (simp add: length_rtp_ext_wire)
  have w: "rtp_ext_wire h = ?p @ ?w @ rh_ext_data h"
    using True by (simp add: rtp_ext_wire_def)
  show ?thesis
    unfolding l unfolding w using 1 2 3 True by (simp add: put_extension_def add.commute)
qed

theorem rtp_encode_wire:
  assumes wf: "rtp_wf h" and len: "rtp_header_size h \<le> length buf"
  shows "rtp_header_encode h buf = Inr (rtp_header_size h, rtp_wire h @ drop (rtp_header_size h) buf)"
proof -
  let ?f = "rtp_fixed_wire h" and ?c = "concat (map put_be32 (rh_csrc h))" and ?e = "rtp_ext_wire h"
  have size: "rtp_header_size h = 12 + 4 * length (rh_csrc h) + length ?e"
    using wf by (simp add: rtp_header_size_def rtpMinHeaderSize_def length_rtp_ext_wire rtp_wf_count)
  have 1: "put_at buf 0 ?f = Some (?f @ drop 12 buf)"
    using len size by (simp add: put_at_def)
  have 2: "put_csrcs (?f @ drop 12 buf) 12 (rh_csrc h) =
      Some (?f @ ?c @ drop (4 * length (rh_csrc h)) (drop 12 buf), 12 + 4 * length (rh_csrc h))"
    using len size by (intro put_csrcs_append) auto
  have 3: "put_extension h ((?f @ ?c) @ drop (4 * length (rh_csrc h)) (drop 12 buf))
      (12 + 4 * length (rh_csrc h)) =
      Some ((?f @ ?c) @ ?e @ drop (length ?e) (drop (4 * length (rh_csrc h)) (drop 12 buf)))"
    using len size by (intro put_extension_append) auto
  show ?thesis
    using len 1 2 3 unfolding rtp_header_encode_def rtp_fixed_wire_def [symmetric]
    by (simp add: rtp_wire_def size add.commute add.left_commute)
qed

section \<open>The decoder reads the wire format\<close>

lemma small_word_bit:
  fixes c :: u8
  assumes "unat c < 2 ^ k" and "k \<le> n" shows "\<not> bit c n"
proof
  assume bit: "bit c n"
  then have "bit (unat c) n"
    by (simp add: bit_unsigned_iff)
  moreover have "unat c < 2 ^ n"
    using assms by (meson less_le_trans one_le_numeral power_increasing)
  ultimately show False by (simp add: bit_iff_odd)
qed

lemma u8_bit_cases: "(n::nat) < 8 \<Longrightarrow> n = 0 \<or> n = 1 \<or> n = 2 \<or> n = 3 \<or> n = 4 \<or> n = 5 \<or> n = 6 \<or> n = 7"
  by arith

lemma rtp_byte0_fields:
  assumes "rtp_wf h"
  shows "drop_bit 6 (rtp_byte0 h) AND 3 = rh_version h"
    and "(drop_bit 5 (rtp_byte0 h) AND 1 \<noteq> 0) = rh_padding h"
    and "(drop_bit 4 (rtp_byte0 h) AND 1 \<noteq> 0) = rh_extension h"
    and "rtp_byte0 h AND 15 = rh_csrc_count h"
proof -
  let ?c = "rh_csrc_count h"
  have "unat ?c < 2 ^ 4"
    using assms rtp_wf_count [OF assms] by (simp add: rtp_wf_def)
  then have c: "\<not> bit ?c n" if "4 \<le> n" for n
    using small_word_bit [of ?c 4 n] that by simp
  have b: "rtp_byte0 h = 128 OR (if rh_padding h then 32 else 0) OR
      (if rh_extension h then 16 else 0) OR (?c AND 15)"
    using assms by (simp add: rtp_byte0_def rtp_wf_def rtpVersion_def boolBit_def)
  have v: "rh_version h = 2"
    using assms by (simp add: rtp_wf_def rtpVersion_def)
  show "drop_bit 6 (rtp_byte0 h) AND 3 = rh_version h"
    unfolding v b by (rule bit_word_eqI) (auto simp: bit_simps c dest!: u8_bit_cases)
  show "(drop_bit 5 (rtp_byte0 h) AND 1 \<noteq> 0) = rh_padding h"
    unfolding b by (simp add: and_one_eq odd_iff_mod_2_eq_one [symmetric] bit_iff_odd_drop_bit [symmetric] bit_simps c)
  show "(drop_bit 4 (rtp_byte0 h) AND 1 \<noteq> 0) = rh_extension h"
    unfolding b by (simp add: and_one_eq odd_iff_mod_2_eq_one [symmetric] bit_iff_odd_drop_bit [symmetric] bit_simps c)
  show "rtp_byte0 h AND 15 = ?c"
    unfolding b by (rule bit_word_eqI) (auto simp: bit_simps c dest!: u8_bit_cases)
qed

lemma rtp_byte1_fields:
  assumes "rtp_wf h"
  shows "(drop_bit 7 (rtp_byte1 h) AND 1 \<noteq> 0) = rh_marker h"
    and "rtp_byte1 h AND 127 = rh_payload_type h"
proof -
  let ?p = "rh_payload_type h"
  have "unat ?p < 2 ^ 7"
    using assms by (simp add: rtp_wf_def)
  then have p: "\<not> bit ?p n" if "7 \<le> n" for n
    using small_word_bit [of ?p 7 n] that by simp
  have b: "rtp_byte1 h = (if rh_marker h then 128 else 0) OR (?p AND 127)"
    by (simp add: rtp_byte1_def boolBit_def)
  show "(drop_bit 7 (rtp_byte1 h) AND 1 \<noteq> 0) = rh_marker h"
    unfolding b by (simp add: and_one_eq odd_iff_mod_2_eq_one [symmetric] bit_iff_odd_drop_bit [symmetric] bit_simps p)
  show "rtp_byte1 h AND 127 = ?p"
    unfolding b by (rule bit_word_eqI) (auto simp: bit_simps p dest!: u8_bit_cases)
qed

lemma rtp_fixed_fields:
  assumes "b = rtp_fixed_wire h @ rest"
  shows "byte_at b 0 = rtp_byte0 h" and "byte_at b 1 = rtp_byte1 h"
    and "get_be16 b 2 = rh_seq h" and "get_be32 b 4 = rh_timestamp h" and "get_be32 b 8 = rh_ssrc h"
proof -
  show "byte_at b 0 = rtp_byte0 h" and "byte_at b 1 = rtp_byte1 h"
    by (simp_all add: assms rtp_fixed_wire_def byte_at_def)
  show "get_be16 b 2 = rh_seq h"
    using get_be16_at [of "[rtp_byte0 h, rtp_byte1 h]" 2] by (simp add: assms rtp_fixed_wire_def)
  show "get_be32 b 4 = rh_timestamp h"
    using get_be32_at [of "[rtp_byte0 h, rtp_byte1 h] @ put_be16 (rh_seq h)" 4]
    by (simp add: assms rtp_fixed_wire_def)
  show "get_be32 b 8 = rh_ssrc h"
    using get_be32_at [of "[rtp_byte0 h, rtp_byte1 h] @ put_be16 (rh_seq h) @
      put_be32 (rh_timestamp h)" 8]
    by (simp add: assms rtp_fixed_wire_def)
qed

lemma decode_extension_wire:
  assumes wf: "rtp_wf h" and off: "length xs = off"
    and h0: "h0 = h\<lparr>rh_ext_profile := 0, rh_ext_data := []\<rparr>"
  shows "decode_extension (xs @ rtp_ext_wire h @ rest) off h0 = h"
proof (cases "rh_extension h")
  case False
  with wf show ?thesis
    by (simp add: decode_extension_def h0 rtp_wf_def)
next
  case True
  let ?d = "rh_ext_data h" and ?b = "xs @ rtp_ext_wire h @ rest"
  from wf True have d: "length ?d mod 4 = 0" "length ?d div 4 < 65536"
    by (auto simp: rtp_wf_def)
  have p: "get_be16 ?b off = rh_ext_profile h"
    using off True by (simp add: rtp_ext_wire_def get_be16_at)
  have "get_be16 ((xs @ put_be16 (rh_ext_profile h)) @ put_be16 (word_of_nat (length ?d div 4)) @
      ?d @ rest) (off + 2) = word_of_nat (length ?d div 4)"
    using off by (intro get_be16_at) simp
  then have "unat (get_be16 ?b (off + 2)) * 4 = length ?d"
    using True d by (simp add: rtp_ext_wire_def unat_of_nat take_bit_nat_eq_self
        mult.commute [of _ 4]) (metis mult_div_mod_eq add_0_right)
  then show ?thesis
    using True off p by (simp add: decode_extension_def h0 rtp_ext_wire_def Let_def)
qed

theorem rtp_decode_wire:
  assumes wf: "rtp_wf h"
  shows "rtp_header_decode (rtp_wire h @ rest) = Inr h"
proof -
  let ?b = "rtp_wire h @ rest" and ?c = "concat (map put_be32 (rh_csrc h))"
  have b: "?b = rtp_fixed_wire h @ (?c @ rtp_ext_wire h @ rest)"
    by (simp add: rtp_wire_def)
  note f = rtp_fixed_fields [OF b] rtp_byte0_fields [OF wf] rtp_byte1_fields [OF wf]
  have n: "unat (rh_csrc_count h) = length (rh_csrc h)"
    using wf by (rule rtp_wf_count)
  have cs: "map (\<lambda>i. get_be32 ?b (12 + i * 4)) [0..<length (rh_csrc h)] = rh_csrc h"
    unfolding b by (rule get_be32_list) simp
  have ext: "decode_extension ((rtp_fixed_wire h @ ?c) @ rtp_ext_wire h @ rest)
      (12 + length (rh_csrc h) * 4) (h\<lparr>rh_ext_profile := 0, rh_ext_data := []\<rparr>) = h"
    using wf by (rule decode_extension_wire) simp_all
  have v: "rh_version h = rtpVersion"
    using wf by (simp add: rtp_wf_def)
  have len: "12 + length (rh_csrc h) * 4 \<le> length ?b"
    by (simp add: rtp_wire_def)
  have lit: "h\<lparr>rh_ext_profile := 0, rh_ext_data := []\<rparr> =
      \<lparr>rh_version = rtpVersion, rh_padding = rh_padding h, rh_extension = rh_extension h,
       rh_csrc_count = rh_csrc_count h, rh_marker = rh_marker h,
       rh_payload_type = rh_payload_type h, rh_seq = rh_seq h, rh_timestamp = rh_timestamp h,
       rh_ssrc = rh_ssrc h, rh_csrc = rh_csrc h, rh_ext_profile = 0, rh_ext_data = []\<rparr>"
    using v by (cases h) simp
  have b01: "byte_at (rtp_fixed_wire h) 0 = rtp_byte0 h"
    "byte_at (rtp_fixed_wire h) (Suc 0) = rtp_byte1 h"
    by (simp_all add: rtp_fixed_wire_def)
  show ?thesis
    using ext len cs unfolding lit
    by (simp add: rtp_header_decode_def Let_def f n v b01 rtpMinHeaderSize_def not_less)
       (simp add: rtp_wire_def b01 f)
qed

interpretation rtp: prefix_codec rtp_wire rtp_header_decode rtp_header_size rtp_wf
  by unfold_locales (simp_all add: length_rtp_wire rtp_decode_wire)

section \<open>Properties\<close>

lemma rtp_packet_encode_wire:
  assumes "rtp_wf (rp_header p)"
  shows "rtp_packet_encode p = Inr (rtp_wire (rp_header p) @ rp_payload p)"
proof -
  let ?h = "rp_header p"
  have e: "rtp_header_encode ?h (replicate (rtp_packet_size p) 0) =
      Inr (rtp_header_size ?h, rtp_wire ?h @ replicate (length (rp_payload p)) 0)"
    using assms by (subst rtp_encode_wire) (auto simp: rtp_packet_size_def)
  have "copy_at (rtp_wire ?h @ replicate (length (rp_payload p)) 0) (rtp_header_size ?h)
      (rp_payload p) = Some (rtp_wire ?h @ rp_payload p)"
    using length_rtp_wire [OF assms] by (subst copy_at_append) auto
  with e show ?thesis by (simp add: rtp_packet_encode_def)
qed

text \<open>C16: a packet whose header obeys the format is encoded without error into exactly
  \<open>Size()\<close> bytes, and \<open>DecodeRtpPacket\<close> reads the same packet back, CSRC list, extension
  and payload included.\<close>

theorem rtp_packet_roundtrip:
  assumes "rtp_wf (rp_header p)"
  shows "\<exists>b. rtp_packet_encode p = Inr b \<and> length b = rtp_packet_size p \<and>
    rtp_packet_decode b = Inr p"
proof -
  let ?b = "rtp_wire (rp_header p) @ rp_payload p"
  have "rtp_packet_decode ?b = Inr p"
    using rtp.parse_wire [OF assms] rtp.split_wire [OF assms] length_rtp_wire [OF assms]
    by (cases p) (simp add: rtp_packet_decode_def)
  then show ?thesis
    using rtp_packet_encode_wire [OF assms] length_rtp_wire [OF assms]
    by (simp add: rtp_packet_size_def)
qed

definition sample_rtp_packet :: rtp_packet where
  "sample_rtp_packet =
     \<lparr>rp_header = (NewRtpHeader 120 65535 7 9)\<lparr>rh_marker := True, rh_csrc_count := 2,
        rh_csrc := [5, 6], rh_extension := True, rh_ext_profile := 0xbede,
        rh_ext_data := [1, 2, 3, 4]\<rparr>,
      rp_payload = [10, 20, 30]\<rparr>"

theorem rtp_packet_roundtrip_witness:
  "rtp_wf (rp_header sample_rtp_packet) \<and>
   (\<exists>b. rtp_packet_encode sample_rtp_packet = Inr b \<and> length b = 31 \<and>
        rtp_packet_decode b = Inr sample_rtp_packet)"
proof -
  have wf: "rtp_wf (rp_header sample_rtp_packet)"
    by (simp add: sample_rtp_packet_def rtp_wf_def NewRtpHeader_def)
  have "rtp_packet_size sample_rtp_packet = 31"
    by (simp add: sample_rtp_packet_def rtp_packet_size_def rtp_header_size_def
        rtpMinHeaderSize_def NewRtpHeader_def)
  with wf rtp_packet_roundtrip [OF wf] show ?thesis by simp
qed

lemma decode_extension_size:
  "rh_ext_data h = [] \<Longrightarrow>
   rtp_header_size (decode_extension buf off h) \<le> length buf \<longleftrightarrow>
   12 + unat (rh_csrc_count h) * 4 + (if rh_extension h then 4 else 0) \<le> length buf"
  if "off = 12 + unat (rh_csrc_count h) * 4"
  using that by (auto simp: decode_extension_def rtp_header_size_def rtpMinHeaderSize_def Let_def)

lemma and1_bit: "(drop_bit n (b :: u8) AND 1 \<noteq> 0) = bit b n"
  by (simp add: and_one_eq odd_iff_mod_2_eq_one [symmetric] bit_iff_odd_drop_bit [symmetric])

text \<open>C17: the decoder of a whole packet is total except in one situation, which it does not
  check for: a version-2 header with the extension bit set whose buffer ends less than four
  bytes after the CSRC list.  There \<open>Size()\<close> counts an extension header that is not in the
  buffer and \<open>buf[header.Size():]\<close> panics.\<close>

theorem rtp_packet_decode_panics_iff:
  "rtp_packet_decode buf = Inl RtpPanic \<longleftrightarrow>
     (12 \<le> length buf \<and> drop_bit 6 (byte_at buf 0) AND 3 = rtpVersion \<and> bit (byte_at buf 0) 4 \<and>
      (let n = 12 + unat (byte_at buf 0 AND 15) * 4 in n \<le> length buf \<and> length buf < n + 4))"
proof (cases "12 \<le> length buf \<and> drop_bit 6 (byte_at buf 0) AND 3 = rtpVersion \<and>
    12 + unat (byte_at buf 0 AND 15) * 4 \<le> length buf")
  case False
  then show ?thesis
    by (auto simp: rtp_packet_decode_def rtp_header_decode_def rtpMinHeaderSize_def Let_def)
next
  case True
  define h where "h = \<lparr>rh_version = drop_bit 6 (byte_at buf 0) AND 3,
     rh_padding = (drop_bit 5 (byte_at buf 0) AND 1 \<noteq> 0),
     rh_extension = (drop_bit 4 (byte_at buf 0) AND 1 \<noteq> 0),
     rh_csrc_count = byte_at buf 0 AND 15,
     rh_marker = (drop_bit 7 (byte_at buf 1) AND 1 \<noteq> 0), rh_payload_type = byte_at buf 1 AND 127,
     rh_seq = get_be16 buf 2, rh_timestamp = get_be32 buf 4, rh_ssrc = get_be32 buf 8,
     rh_csrc = map (\<lambda>i. get_be32 buf (12 + i * 4)) [0..<unat (byte_at buf 0 AND 15)],
     rh_ext_profile = 0, rh_ext_data = []\<rparr>"
  let ?n = "12 + unat (byte_at buf 0 AND 15) * 4"
  have d: "rtp_header_decode buf = Inr (decode_extension buf ?n h)"
    using True by (simp add: rtp_header_decode_def rtpMinHeaderSize_def Let_def h_def)
  have "rtp_header_size (decode_extension buf ?n h) \<le> length buf \<longleftrightarrow>
      ?n + (if bit (byte_at buf 0) 4 then 4 else 0) \<le> length buf"
    by (subst decode_extension_size) (simp_all add: h_def and1_bit)
  then show ?thesis
    using True by (auto simp: rtp_packet_decode_def d Let_def split: if_splits)
qed

lemma rtp_decode_panic_example:
  "rtp_packet_decode [0x90, 120, 0, 1, 0, 0, 0, 0, 0, 0, 0, 7] = Inl RtpPanic"
  unfolding rtp_packet_decode_panics_iff
  by (simp add: byte_at_def rtpVersion_def Let_def bit_iff_odd_drop_bit)

text \<open>The header is decoded from the bytes it occupies; what follows counts by its length only.\<close>

lemma get_be_prefix:
  "i + 2 \<le> length x \<Longrightarrow> get_be16 (x @ t) i = get_be16 x i"
  "j + 4 \<le> length x \<Longrightarrow> get_be32 (x @ t) j = get_be32 x j"
  by (simp_all add: get_be16_def get_be32_def)

lemma decode_extension_size_ge:
  "rh_ext_data h = [] \<Longrightarrow> rtp_header_size h \<le> rtp_header_size (decode_extension b off h)"
  by (simp add: decode_extension_def rtp_header_size_def Let_def)

lemma decode_extension_prefix:
  assumes "rtp_header_size (decode_extension (x @ t) off h) \<le> length x"
    and "rtp_header_size h = off + (if rh_extension h then 4 else 0)" and "rh_ext_data h = []"
    and "length t' = length t"
  shows "decode_extension (x @ t') off h = decode_extension (x @ t) off h"
proof (cases "rh_extension h \<and> off + 4 \<le> length x")
  case True
  define ext where "ext = unat (get_be16 x (off + 2)) * 4"
  define h1 where "h1 = h\<lparr>rh_ext_profile := get_be16 x off\<rparr>"
  have d: "decode_extension (x @ u) off h =
      (if off + 4 + ext \<le> length x + length u
       then h1\<lparr>rh_ext_data := take ext (drop (off + 4) (x @ u))\<rparr> else h1)" for u
    using True get_be_prefix(1) [of off x u] get_be_prefix(1) [of "off + 2" x u]
    by (simp add: decode_extension_def Let_def ext_def h1_def)
  show ?thesis
  proof (cases "off + 4 + ext \<le> length x + length t")
    case fits: True
    have "rtp_header_size (h1\<lparr>rh_ext_data := take ext (drop (off + 4) (x @ t))\<rparr>) = off + 4 + ext"
      using assms(2,3) True fits by (auto simp: rtp_header_size_def h1_def min_def)
    then have "off + 4 + ext \<le> length x"
      using assms(1) fits by (simp add: d)
    then have "take ext (drop (off + 4) (x @ u)) = take ext (drop (off + 4) x)" for u
      by simp
    then show ?thesis using fits assms(4) unfolding d by (simp only:)
  next
    case False
    then show ?thesis using assms(4) by (simp add: d)
  qed
next
  case False
  have "rtp_header_size h \<le> length x"
    using decode_extension_size_ge [OF assms(3)] assms(1) by (rule le_trans)
  then have "\<not> rh_extension h" using False assms(2) by auto
  then show ?thesis by (simp add: decode_extension_def)
qed

definition fixed_header :: "bytes \<Rightarrow> rtp_header" where
  "fixed_header buf =
     \<lparr>rh_version = drop_bit 6 (byte_at buf 0) AND 3,
      rh_padding = (drop_bit 5 (byte_at buf 0) AND 1 \<noteq> 0),
      rh_extension = (drop_bit 4 (byte_at buf 0) AND 1 \<noteq> 0),
      rh_csrc_count = byte_at buf 0 AND 15,
      rh_marker = (drop_bit 7 (byte_at buf 1) AND 1 \<noteq> 0), rh_payload_type = byte_at buf 1 AND 127,
      rh_seq = get_be16 buf 2, rh_timestamp = get_be32 buf 4, rh_ssrc = get_be32 buf 8,
      rh_csrc = map (\<lambda>i. get_be32 buf (12 + i * 4)) [0..<unat (byte_at buf 0 AND 15)],
      rh_ext_profile = 0, rh_ext_data = []\<rparr>"

lemma rtp_header_decode_fixed:
  "rtp_header_decode buf =
     (if length buf < 12 then Inl RtpBufferTooSmall
      else if rh_version (fixed_header buf) \<noteq> rtpVersion then Inl RtpInvalidVersion
      else let off = 12 + unat (rh_csrc_count (fixed_header buf)) * 4 in
           if length buf < off then Inl RtpCsrcTooSmall
           else Inr (decode_extension buf off (fixed_header buf)))"
  by (simp add: rtp_header_decode_def fixed_header_def Let_def rtpMinHeaderSize_def)

lemma fixed_header_prefix:
  assumes "12 + unat (byte_at x 0 AND 15) * 4 \<le> length x"
  shows "fixed_header (x @ t) = fixed_header x"
proof -
  have x12: "12 \<le> length x" using assms by simp
  then have b: "byte_at (x @ t) 0 = byte_at x 0" "byte_at (x @ t) 1 = byte_at x 1"
    "get_be16 (x @ t) 2 = get_be16 x 2" "get_be32 (x @ t) 4 = get_be32 x 4"
    "get_be32 (x @ t) 8 = get_be32 x 8"
    by (auto simp: get_be_prefix intro!: byte_at_append1)
  have c: "map (\<lambda>i. get_be32 (x @ t) (12 + i * 4)) [0..<unat (byte_at x 0 AND 15)] =
      map (\<lambda>i. get_be32 x (12 + i * 4)) [0..<unat (byte_at x 0 AND 15)]"
    using assms by (intro map_cong refl get_be_prefix(2)) auto
  show ?thesis by (simp only: fixed_header_def b c)
qed

lemma header_decode_prefix:
  assumes "rtp_header_decode (x @ t) = Inr h" and "rtp_header_size h \<le> length x"
    and "length t' = length t"
  shows "rtp_header_decode (x @ t') = Inr h"
proof -
  let ?f = "fixed_header (x @ t)" and ?off = "12 + unat (rh_csrc_count (fixed_header (x @ t))) * 4"
  have h: "h = decode_extension (x @ t) ?off ?f" and v: "rh_version ?f = rtpVersion"
    using assms(1) by (auto simp: rtp_header_decode_fixed Let_def split: if_splits)
  have e: "rh_ext_data ?f = []" by (simp add: fixed_header_def)
  have s: "rtp_header_size ?f = ?off + (if rh_extension ?f then 4 else 0)"
    by (simp add: rtp_header_size_def rtpMinHeaderSize_def e)
  have off: "?off \<le> length x"
    using decode_extension_size_ge [OF e, of "x @ t" ?off] s h assms(2) by simp
  then have "0 < length x" by linarith
  then have c: "rh_csrc_count ?f = byte_at x 0 AND 15" by (simp add: fixed_header_def)
  have f: "fixed_header (x @ u) = ?f" for u
    using fixed_header_prefix [of x] off unfolding c by metis
  have "decode_extension (x @ t') ?off ?f = decode_extension (x @ t) ?off ?f"
    using assms(2,3) h s e by (intro decode_extension_prefix) simp_all
  then show ?thesis
    using off v h by (simp add: rtp_header_decode_fixed f [of t'] Let_def)
qed

text \<open>What the sender produces: the packets of one session in the order they are created.\<close>

fun session_packets :: "rtp_session \<Rightarrow> (bytes \<times> int \<times> bool) list \<Rightarrow> rtp_packet list" where
  "session_packets s [] = []"
| "session_packets s ((payload, dur, marker) # xs) =
     (let (p, s') = CreatePacketWithDuration s payload dur marker
      in p # session_packets s' xs)"

lemma length_session_packets [simp]: "length (session_packets s xs) = length xs"
  by (induction s xs rule: session_packets.induct) (simp_all add: Let_def split: prod.split)

text \<open>C18: the packets a sending session creates are numbered consecutively modulo \<open>2 ^ 16\<close>,
  their timestamps advance by the durations modulo \<open>2 ^ 32\<close>, they all carry the session's
  SSRC, and every one of them is encodable.\<close>

theorem session_packets_numbering:
  assumes "i < length xs" and "unat (rs_payload_type s) < 128"
  shows "rh_seq (rp_header (session_packets s xs ! i)) = rs_seq s + word_of_nat i \<and>
    rh_timestamp (rp_header (session_packets s xs ! i)) =
      rs_timestamp s + word_of_int (sum_list (map (fst \<circ> snd) (take i xs))) \<and>
    rh_ssrc (rp_header (session_packets s xs ! i)) = rs_ssrc s \<and>
    rp_payload (session_packets s xs ! i) = fst (xs ! i) \<and>
    rtp_wf (rp_header (session_packets s xs ! i))"
  using assms
proof (induction s xs arbitrary: i rule: session_packets.induct)
  case (1 s)
  then show ?case by simp
next
  case (2 s payload dur marker xs)
  define s' where "s' = s\<lparr>rs_seq := rs_seq s + 1, rs_timestamp := rs_timestamp s + word_of_int dur\<rparr>"
  obtain p where p: "CreatePacketWithDuration s payload dur marker = (p, s')"
    and f: "rh_seq (rp_header p) = rs_seq s" "rh_timestamp (rp_header p) = rs_timestamp s"
      "rh_ssrc (rp_header p) = rs_ssrc s" "rp_payload p = payload" "rtp_wf (rp_header p)"
    using "2.prems"(2)
    by (simp add: CreatePacketWithDuration_def Let_def NewRtpHeader_def s'_def rtp_wf_def)
  show ?case
  proof (cases i)
    case 0
    then show ?thesis using p f by simp
  next
    case (Suc j)
    have "rs_payload_type s' = rs_payload_type s" "rs_ssrc s' = rs_ssrc s"
      "rs_seq s' = rs_seq s + 1" "rs_timestamp s' = rs_timestamp s + word_of_int dur"
      by (simp_all add: s'_def)
    with "2.IH" [OF refl, of p s' j] "2.prems" p Suc show ?thesis
      by (simp add: add.assoc)
  qed
qed

theorem session_packets_numbering_witness:
  "rh_seq (rp_header (session_packets (NewWhatsAppOpusSession 65535 4294967000 7)
      [([1], 960, True), ([2], 960, False)] ! 1)) = 0"
proof -
  let ?s = "NewWhatsAppOpusSession 65535 4294967000 7"
  have "unat (rs_payload_type ?s) < 128"
    by (simp add: NewWhatsAppOpusSession_def NewRtpSession_def PayloadTypeWhatsAppOpus_def)
  then show ?thesis
    using session_packets_numbering [of 1 "[([1], 960, True), ([2], 960, False)]" ?s]
    by (simp add: NewWhatsAppOpusSession_def NewRtpSession_def)
qed

end
