(* ===== verification/Srtp.thy ===== *)
theory Srtp
  imports Rtp
begin

text \<open>
  SRTP protection of the media packets: src/internal/voip/media/srtp.go, with
  the SSRC and key material helpers of ssrc.go and encryption.go.

  The AES block function and HMAC-SHA1 are the parameters \<open>aes\<close> and \<open>hmac\<close>;
  the counter mode that crypto/cipher builds from the block function, the IV, the
  rollover counter and the packet layout are written out.  A context is mutated by
  every call, so the operations return the new context beside the result.
\<close>

unbundle bit_operations_syntax

datatype srtp_error =
    SrtpErrPacketTooShort
  | SrtpErrAuthFailed
  | SrtpErrEncryption
  | SrtpErrDecryption
  | SrtpCipherErr   \<comment> \<open>the plain error of aes.NewCipher, passed on unwrapped\<close>
  | SrtpPanic   \<comment> \<open>index panic of the runtime\<close>

record srtp_keying =
  km_master_key :: bytes
  km_master_salt :: bytes

record srtp_context =
  sc_session_key :: bytes
  sc_session_salt :: bytes
  sc_auth_key :: bytes
  sc_roc :: u32
  sc_last_seq :: u16
  sc_initialized :: bool
  sc_auth_tag_len :: nat

section \<open>AES in counter mode (crypto/aes, crypto/cipher)\<close>

text \<open>The counter block is a big-endian number; \<open>ctr_inc\<close> adds one from the last byte up.\<close>

fun inc_rev :: "bytes \<Rightarrow> bytes" where
  "inc_rev [] = []"
| "inc_rev (b # bs) = (if b = 255 then 0 # inc_rev bs else (b + 1) # bs)"

definition ctr_inc :: "bytes \<Rightarrow> bytes" where
  "ctr_inc iv = rev (inc_rev (rev iv))"

definition ctr_byte :: "(bytes \<Rightarrow> bytes \<Rightarrow> bytes) \<Rightarrow> bytes \<Rightarrow> bytes \<Rightarrow> nat \<Rightarrow> u8" where
  "ctr_byte aes key iv i = byte_at (aes key ((ctr_inc ^^ (i div 16)) iv)) (i mod 16)"

definition xor_key_stream ::
    "(bytes \<Rightarrow> bytes \<Rightarrow> bytes) \<Rightarrow> bytes \<Rightarrow> bytes \<Rightarrow> bytes \<Rightarrow> bytes" where
  "xor_key_stream aes key iv src =
     map (\<lambda>i. byte_at src i XOR ctr_byte aes key iv i) [0..<length src]"

text \<open>\<open>aes.NewCipher\<close> refuses a key that is not 16, 24 or 32 bytes long: \<open>None\<close>.\<close>

definition aesCtrXor ::
    "(bytes \<Rightarrow> bytes \<Rightarrow> bytes) \<Rightarrow> bytes \<Rightarrow> bytes \<Rightarrow> bytes \<Rightarrow> bytes option" where
  "aesCtrXor aes key iv src =
     (if length key \<in> {16, 24, 32} then Some (xor_key_stream aes key iv src) else None)"

definition deriveSrtpKey ::
    "(bytes \<Rightarrow> bytes \<Rightarrow> bytes) \<Rightarrow> bytes \<Rightarrow> bytes \<Rightarrow> u8 \<Rightarrow> nat \<Rightarrow> srtp_error + bytes" where
  "deriveSrtpKey aes master_key master_salt label len =
     (if length master_salt < 14 then Inl SrtpPanic
      else let iv0 = take 14 master_salt @ [0, 0];
               iv = iv0[7 := iv0 ! 7 XOR label]
           in case aesCtrXor aes master_key iv (replicate len 0) of
                None \<Rightarrow> Inl SrtpCipherErr | Some out \<Rightarrow> Inr out)"

definition SRTPLabelEncryption :: u8 where "SRTPLabelEncryption = 0"
definition SRTPLabelAuth :: u8 where "SRTPLabelAuth = 1"
definition SRTPLabelSalt :: u8 where "SRTPLabelSalt = 2"
definition SRTPAuthTagLen :: nat where "SRTPAuthTagLen = 4"

definition NewSrtpContext ::
    "(bytes \<Rightarrow> bytes \<Rightarrow> bytes) \<Rightarrow> srtp_keying \<Rightarrow> int \<Rightarrow> srtp_error + srtp_context" where
  "NewSrtpContext aes km tagLen =
     (let tl = (if tagLen \<le> 0 then SRTPAuthTagLen else nat tagLen) in
      case deriveSrtpKey aes (km_master_key km) (km_master_salt km) SRTPLabelEncryption 16 of
        Inl e \<Rightarrow> Inl e
      | Inr sk \<Rightarrow>
      (case deriveSrtpKey aes (km_master_key km) (km_master_salt km) SRTPLabelAuth 20 of
        Inl e \<Rightarrow> Inl e
      | Inr ak \<Rightarrow>
      (case deriveSrtpKey aes (km_master_key km) (km_master_salt km) SRTPLabelSalt 14 of
        Inl e \<Rightarrow> Inl e
      | Inr ss \<Rightarrow>
          Inr \<lparr>sc_session_key = sk, sc_session_salt = ss, sc_auth_key = ak, sc_roc = 0,
               sc_last_seq = 0, sc_initialized = False, sc_auth_tag_len = tl\<rparr>)))"

definition SetAuthKeying ::
    "(bytes \<Rightarrow> bytes \<Rightarrow> bytes) \<Rightarrow> srtp_context \<Rightarrow> srtp_keying \<Rightarrow> srtp_error + srtp_context" where
  "SetAuthKeying aes c km =
     (case deriveSrtpKey aes (km_master_key km) (km_master_salt km) SRTPLabelAuth 20 of
        Inl e \<Rightarrow> Inl e | Inr ak \<Rightarrow> Inr (c\<lparr>sc_auth_key := ak\<rparr>))"

section \<open>Rollover counter and IV\<close>

definition updateRoc :: "srtp_context \<Rightarrow> u16 \<Rightarrow> srtp_context" where
  "updateRoc c sq =
     (if \<not> sc_initialized c then c\<lparr>sc_last_seq := sq, sc_initialized := True\<rparr>
      else let diff = uint sq - uint (sc_last_seq c);
               c1 = (if diff < -32768 then c\<lparr>sc_roc := sc_roc c + 1\<rparr> else c)
           in c1\<lparr>sc_last_seq := sq\<rparr>)"

definition packetIndex :: "srtp_context \<Rightarrow> u16 \<Rightarrow> u64" where
  "packetIndex c sq = push_bit 16 (ucast (sc_roc c)) OR ucast sq"

definition xor_into :: "bytes \<Rightarrow> nat \<Rightarrow> bytes \<Rightarrow> bytes" where
  "xor_into iv off bs =
     take off iv @ map2 (XOR) (take (length bs) (drop off iv)) bs @ drop (off + length bs) iv"

definition generateIV :: "srtp_context \<Rightarrow> u32 \<Rightarrow> u64 \<Rightarrow> bytes" where
  "generateIV c ssrc index =
     (let iv = take 14 (sc_session_salt c) @ replicate (16 - length (take 14 (sc_session_salt c))) 0;
          iv1 = xor_into iv 4 (put_be32 ssrc)
      in xor_into iv1 8 (drop 2 (put_be64 index)))"

definition computeAuthTag ::
    "(bytes \<Rightarrow> bytes \<Rightarrow> bytes) \<Rightarrow> srtp_context \<Rightarrow> bytes \<Rightarrow> u32 \<Rightarrow> nat \<Rightarrow> bytes" where
  "computeAuthTag hmac c data roc tagLen =
     take tagLen (hmac (sc_auth_key c) (data @ put_be32 roc))"

section \<open>Protect and Unprotect\<close>

text \<open>
  A tag longer than the 20-byte SHA-1 sum is a panic of \<open>sum[:tagLen]\<close> here; the runtime
  tolerates the few bytes of spare capacity that the sum's slice happens to have.  The program
  uses tags of 4 and 10 bytes.
\<close>

definition Protect ::
    "(bytes \<Rightarrow> bytes \<Rightarrow> bytes) \<Rightarrow> (bytes \<Rightarrow> bytes \<Rightarrow> bytes) \<Rightarrow> srtp_context \<Rightarrow> rtp_packet
     \<Rightarrow> srtp_context \<times> (srtp_error + bytes)" where
  "Protect aes hmac c0 p =
     (let h = rp_header p;
          c = updateRoc c0 (rh_seq h);
          index = packetIndex c (rh_seq h);
          headerSize = rtp_header_size h;
          plen = length (rp_payload p);
          output = replicate (headerSize + plen + sc_auth_tag_len c) 0
      in case rtp_header_encode h output of
           Inl RtpPanic \<Rightarrow> (c, Inl SrtpPanic)
         | Inl _ \<Rightarrow> (c, Inl SrtpErrEncryption)
         | Inr (_, out1) \<Rightarrow>
             (case aesCtrXor aes (sc_session_key c) (generateIV c (rh_ssrc h) index)
                     (rp_payload p) of
                None \<Rightarrow> (c, Inl SrtpErrEncryption)
              | Some enc \<Rightarrow>
                  (let out2 = take headerSize out1 @ enc @ drop (headerSize + plen) out1
                   in if sc_auth_tag_len c > 0 then
                        (if sc_auth_tag_len c > 20 then (c, Inl SrtpPanic)
                         else let tag = computeAuthTag hmac c (take (headerSize + plen) out2)
                                    (sc_roc c) (sc_auth_tag_len c)
                              in (c, (case copy_at out2 (headerSize + plen) tag of
                                        None \<Rightarrow> Inl SrtpPanic | Some out3 \<Rightarrow> Inr out3)))
                      else (c, Inr out2))))"

definition Unprotect ::
    "(bytes \<Rightarrow> bytes \<Rightarrow> bytes) \<Rightarrow> srtp_context \<Rightarrow> bytes
     \<Rightarrow> srtp_context \<times> (srtp_error + rtp_packet)" where
  "Unprotect aes c0 data =
     (if length data < 12 then (c0, Inl SrtpErrPacketTooShort)
      else case rtp_header_decode data of
        Inl _ \<Rightarrow> (c0, Inl SrtpErrDecryption)
      | Inr h \<Rightarrow>
          (let headerSize = rtp_header_size h;
               payloadLen = int (length data) - int headerSize - int (sc_auth_tag_len c0)
           in if payloadLen \<le> 0 then (c0, Inl SrtpErrPacketTooShort)
              else let c = updateRoc c0 (rh_seq h);
                       index = packetIndex c (rh_seq h);
                       body = take (nat payloadLen) (drop headerSize data)
                   in case aesCtrXor aes (sc_session_key c) (generateIV c (rh_ssrc h) index) body of
                        None \<Rightarrow> (c, Inl SrtpErrDecryption)
                      | Some dec \<Rightarrow> (c, Inr \<lparr>rp_header = h, rp_payload = dec\<rparr>)))"

section \<open>Sessions\<close>

record srtp_session =
  ss_send :: srtp_context
  ss_recv :: srtp_context

definition NewSrtpSession ::
    "(bytes \<Rightarrow> bytes \<Rightarrow> bytes) \<Rightarrow> srtp_keying \<Rightarrow> srtp_keying \<Rightarrow> int \<Rightarrow> int
     \<Rightarrow> srtp_error + srtp_session" where
  "NewSrtpSession aes sendKey recvKey sendLen recvLen =
     (case NewSrtpContext aes sendKey sendLen of
        Inl e \<Rightarrow> Inl e
      | Inr sc \<Rightarrow> (case NewSrtpContext aes recvKey recvLen of
          Inl e \<Rightarrow> Inl e | Inr rc \<Rightarrow> Inr \<lparr>ss_send = sc, ss_recv = rc\<rparr>))"

definition srtp_session_protect ::
    "(bytes \<Rightarrow> bytes \<Rightarrow> bytes) \<Rightarrow> (bytes \<Rightarrow> bytes \<Rightarrow> bytes) \<Rightarrow> srtp_session \<Rightarrow> rtp_packet
     \<Rightarrow> srtp_session \<times> (srtp_error + bytes)" where
  "srtp_session_protect aes hmac s p =
     (let (c, r) = Protect aes hmac (ss_send s) p in (s\<lparr>ss_send := c\<rparr>, r))"

definition srtp_session_unprotect ::
    "(bytes \<Rightarrow> bytes \<Rightarrow> bytes) \<Rightarrow> srtp_session \<Rightarrow> bytes
     \<Rightarrow> srtp_session \<times> (srtp_error + rtp_packet)" where
  "srtp_session_unprotect aes s data =
     (let (c, r) = Unprotect aes (ss_recv s) data in (s\<lparr>ss_recv := c\<rparr>, r))"

definition SetSendAuthKeying ::
    "(bytes \<Rightarrow> bytes \<Rightarrow> bytes) \<Rightarrow> srtp_session \<Rightarrow> srtp_keying \<Rightarrow> srtp_error + srtp_session" where
  "SetSendAuthKeying aes s km =
     (case SetAuthKeying aes (ss_send s) km of
        Inl e \<Rightarrow> Inl e | Inr c \<Rightarrow> Inr (s\<lparr>ss_send := c\<rparr>))"

text \<open>
  \<open>DerivePerJidSrtpKey\<close> and \<open>GenerateSecureSsrc\<close> cut their results out of an HKDF output,
  the parameter \<open>hkdf secret salt info length\<close> (crypto/hkdf over SHA-256).
\<close>

definition DerivePerJidSrtpKey ::
    "(bytes \<Rightarrow> bytes \<Rightarrow> string \<Rightarrow> nat \<Rightarrow> bytes option) \<Rightarrow> bytes \<Rightarrow> string \<Rightarrow> srtp_keying option" where
  "DerivePerJidSrtpKey hkdf callKey deviceJid =
     (case hkdf callKey [] deviceJid 46 of
        None \<Rightarrow> None
      | Some out \<Rightarrow> Some \<lparr>km_master_key = take 16 out, km_master_salt = take 14 (drop 16 out)\<rparr>)"

definition string_bytes :: "string \<Rightarrow> bytes" where
  "string_bytes s = map (\<lambda>c. word_of_nat (of_char c)) s"

definition GenerateSecureSsrc ::
    "(bytes \<Rightarrow> bytes \<Rightarrow> string \<Rightarrow> nat \<Rightarrow> bytes option) \<Rightarrow> string \<Rightarrow> string \<Rightarrow> u32 \<Rightarrow> u32 option" where
  "GenerateSecureSsrc hkdf callID selfJid counter =
     map_option (\<lambda>out. get_le32 out 0)
       (hkdf (string_bytes callID) (put_le32 counter) selfJid 4)"

section \<open>Counter mode is its own inverse\<close>

lemma length_xor_key_stream [simp]: "length (xor_key_stream aes key iv src) = length src"
  by (simp add: xor_key_stream_def)

lemma xor_key_stream_twice [simp]:
  "xor_key_stream aes key iv (xor_key_stream aes key iv src) = src"
  by (rule nth_equalityI)
     (auto simp: xor_key_stream_def byte_at_def xor.assoc)

section \<open>Which index a context has reached\<close>

text \<open>
  \<open>tracks c i\<close>: the context has just seen packet number \<open>i\<close> of an endless numbering, of
  which the wire carries only \<open>i mod 2 ^ 16\<close>.
\<close>

definition tracks :: "srtp_context \<Rightarrow> nat \<Rightarrow> bool" where
  "tracks c i \<longleftrightarrow> sc_initialized c \<and> sc_last_seq c = word_of_nat i \<and>
     sc_roc c = word_of_nat (i div 65536)"

definition ready_for :: "srtp_context \<Rightarrow> nat \<Rightarrow> bool" where
  "ready_for c i \<longleftrightarrow> tracks (updateRoc c (word_of_nat i)) i"

definition fresh_context :: "srtp_context \<Rightarrow> bool" where
  "fresh_context c \<longleftrightarrow> \<not> sc_initialized c \<and> sc_roc c = 0"

definition same_keys :: "srtp_context \<Rightarrow> srtp_context \<Rightarrow> bool" where
  "same_keys c d \<longleftrightarrow> sc_session_key c = sc_session_key d \<and>
     sc_session_salt c = sc_session_salt d \<and> sc_auth_tag_len c = sc_auth_tag_len d"

lemma updateRoc_keys [simp]:
  "sc_session_key (updateRoc c q) = sc_session_key c"
  "sc_session_salt (updateRoc c q) = sc_session_salt c"
  "sc_auth_key (updateRoc c q) = sc_auth_key c"
  "sc_auth_tag_len (updateRoc c q) = sc_auth_tag_len c"
  by (simp_all add: updateRoc_def Let_def)

lemma same_keys_refl [simp]: "same_keys c c"
  by (simp add: same_keys_def)

lemma same_keys_sym: "same_keys c d \<Longrightarrow> same_keys d c"
  by (simp add: same_keys_def)

lemma same_keys_updateRoc [simp]: "same_keys c (updateRoc d q) = same_keys c d"
  by (simp add: same_keys_def)

lemma same_keys_updateRoc_left [simp]: "same_keys (updateRoc c q) d = same_keys c d"
  by (simp add: same_keys_def)

lemma uint_u16_of_nat: "uint (word_of_nat j :: u16) = int (j mod 65536)"
  by (simp add: unsigned_of_nat take_bit_eq_mod)

text \<open>The numeric heart of \<open>updateRoc\<close>: advancing by less than \<open>2 ^ 15\<close> is recognised.\<close>

lemma seq_step_arith:
  fixes i j :: nat
  assumes "i < j" and "j \<le> i + 32767"
  shows "if int (j mod 65536) - int (i mod 65536) < -32768
         then j div 65536 = i div 65536 + 1 else j div 65536 = i div 65536"
proof -
  define a where "a = i mod 65536"
  define q where "q = i div 65536"
  have i: "i = q * 65536 + a" and a: "a < 65536"
    by (simp_all add: a_def q_def)
  define d where "d = j - i"
  have j: "j = i + d" and d: "0 < d" "d \<le> 32767"
    using assms by (simp_all add: d_def)
  show ?thesis
  proof (cases "a + d < 65536")
    case True
    then have "j div 65536 = q" "j mod 65536 = a + d"
      using i j by (simp_all add: add.assoc)
    then show ?thesis unfolding a_def [symmetric] q_def [symmetric] using d by simp
  next
    case False
    define b where "b = a + d - 65536"
    have b: "b < 65536" and ab: "a + d = 65536 + b"
      using False a d by (simp_all add: b_def)
    have jj: "j = b + (q + 1) * 65536"
      using i j ab by simp
    have "j div 65536 = q + 1" "j mod 65536 = b"
      unfolding jj using b by (simp_all only: div_mult_self1 mod_mult_self1 mod_less div_less)
    then show ?thesis unfolding a_def [symmetric] q_def [symmetric] using d a ab by simp
  qed
qed

lemma tracks_ready:
  assumes "tracks c i" and "i < j" and "j \<le> i + 32767"
  shows "ready_for c j"
proof -
  define x where "x = int (j mod 65536) - int (i mod 65536)"
  have diff: "uint (word_of_nat j :: u16) - uint (sc_last_seq c) = x"
    using assms(1) by (simp add: tracks_def uint_u16_of_nat x_def)
  have ini: "sc_initialized c" and roc: "sc_roc c = word_of_nat (i div 65536)"
    using assms(1) by (simp_all add: tracks_def)
  show ?thesis
  proof (cases "x < -32768")
    case True
    then have "j div 65536 = i div 65536 + 1"
      using seq_step_arith [OF assms(2,3)] by (simp add: x_def)
    then have "sc_roc c + 1 = word_of_nat (j div 65536)"
      by (simp add: roc)
    with True ini show ?thesis
      by (simp add: ready_for_def tracks_def updateRoc_def diff)
  next
    case False
    then have "j div 65536 = i div 65536"
      using seq_step_arith [OF assms(2,3)] by (simp add: x_def)
    then have "sc_roc c = word_of_nat (j div 65536)"
      by (simp only: roc)
    with False ini show ?thesis
      by (simp add: ready_for_def tracks_def updateRoc_def diff)
  qed
qed

lemma fresh_ready: "fresh_context c \<Longrightarrow> i < 65536 \<Longrightarrow> ready_for c i"
  by (simp add: fresh_context_def ready_for_def tracks_def updateRoc_def div_less)

section \<open>One packet\<close>

definition index_of :: "nat \<Rightarrow> u64" where
  "index_of i = push_bit 16 (ucast (word_of_nat (i div 65536) :: u32)) OR ucast (word_of_nat i :: u16)"

lemma packetIndex_tracks: "tracks c i \<Longrightarrow> packetIndex c (word_of_nat i) = index_of i"
  by (simp only: tracks_def packetIndex_def index_of_def)

lemma generateIV_keys: "same_keys c d \<Longrightarrow> generateIV c = generateIV d"
  by (intro ext) (simp only: generateIV_def same_keys_def)

definition sealed :: "(bytes \<Rightarrow> bytes \<Rightarrow> bytes) \<Rightarrow> srtp_context \<Rightarrow> nat \<Rightarrow> rtp_packet \<Rightarrow> bytes" where
  "sealed aes c i p = xor_key_stream aes (sc_session_key c)
     (generateIV c (rh_ssrc (rp_header p)) (index_of i)) (rp_payload p)"

lemma sealed_keys: "same_keys c d \<Longrightarrow> sealed aes c i p = sealed aes d i p"
  using generateIV_keys [of c d] by (simp add: sealed_def same_keys_def)

definition usable :: "srtp_context \<Rightarrow> bool" where
  "usable c \<longleftrightarrow> length (sc_session_key c) \<in> {16, 24, 32} \<and> 0 < sc_auth_tag_len c \<and>
     sc_auth_tag_len c \<le> 20"

lemma usable_updateRoc [simp]: "usable (updateRoc c q) = usable c"
  by (simp add: usable_def)

lemma copy_at_end: "length xs = off \<Longrightarrow> \<exists>t'. length t' = n \<and>
  copy_at (xs @ replicate n 0) off (take n t) = Some (xs @ t')"
  by (rule exI [of _ "take n (take n t) @ drop (length (take n t)) (replicate n 0)"])
     (auto simp: copy_at_def min_def)

lemma Protect_ok:
  assumes wf: "rtp_wf (rp_header p)" and u: "usable c0"
    and r: "ready_for c0 i" and sq: "rh_seq (rp_header p) = word_of_nat i"
  shows "\<exists>tag. length tag = sc_auth_tag_len c0 \<and>
    Protect aes hmac c0 p =
      (updateRoc c0 (word_of_nat i), Inr (rtp_wire (rp_header p) @ sealed aes c0 i p @ tag))"
proof -
  let ?h = "rp_header p" and ?c = "updateRoc c0 (word_of_nat i)" and ?n = "sc_auth_tag_len c0"
  let ?e = "sealed aes c0 i p" and ?hs = "rtp_header_size (rp_header p)"
  have w: "length (rtp_wire ?h) = ?hs" using wf by (rule rtp.wire_size)
  have le: "length ?e = length (rp_payload p)" by (simp add: sealed_def)
  have enc: "rtp_header_encode ?h (replicate (?hs + length (rp_payload p) + ?n) 0) =
      Inr (?hs, rtp_wire ?h @ replicate (length (rp_payload p) + ?n) 0)"
    using wf by (subst rtp_encode_wire) (simp_all add: add.assoc)
  have seal: "aesCtrXor aes (sc_session_key ?c)
      (generateIV ?c (rh_ssrc ?h) (packetIndex ?c (word_of_nat i))) (rp_payload p) = Some ?e"
    using u r generateIV_keys [of ?c c0]
    by (simp add: aesCtrXor_def usable_def ready_for_def packetIndex_tracks sealed_def)
  have tk: "take (?hs + length (rp_payload p)) (rtp_wire ?h @ ?e @ replicate ?n 0) = rtp_wire ?h @ ?e"
    using w le by simp
  have out: "take ?hs (rtp_wire ?h @ replicate (length (rp_payload p) + ?n) 0) @ ?e @
      drop (?hs + length (rp_payload p)) (rtp_wire ?h @ replicate (length (rp_payload p) + ?n) 0)
      = rtp_wire ?h @ ?e @ replicate ?n 0"
    using w by simp
  obtain t' where t': "length t' = ?n" "copy_at (rtp_wire ?h @ ?e @ replicate ?n 0)
      (?hs + length (rp_payload p))
      (take ?n (hmac (sc_auth_key c0) ((rtp_wire ?h @ ?e) @ put_be32 (sc_roc ?c)))) =
      Some (rtp_wire ?h @ ?e @ t')"
    using copy_at_end [of "rtp_wire ?h @ ?e" "?hs + length (rp_payload p)" ?n] w le by fastforce
  have "Protect aes hmac c0 p = (?c, Inr (rtp_wire ?h @ ?e @ t'))"
    using u
    unfolding Protect_def Let_def sq updateRoc_keys enc sum.case prod.case
      seal [unfolded updateRoc_keys] option.case out tk computeAuthTag_def t'(2)
    by (simp add: usable_def)
  with t'(1) show ?thesis by blast
qed

lemma Unprotect_ok:
  assumes wf: "rtp_wf (rp_header p)" and u: "usable c0"
    and r: "ready_for c0 i" and sq: "rh_seq (rp_header p) = word_of_nat i"
    and ne: "rp_payload p \<noteq> []" and tag: "length tag = sc_auth_tag_len c0"
  shows "Unprotect aes c0 (rtp_wire (rp_header p) @ sealed aes c0 i p @ tag) =
    (updateRoc c0 (word_of_nat i), Inr p)"
proof -
  let ?h = "rp_header p" and ?c = "updateRoc c0 (word_of_nat i)" and ?e = "sealed aes c0 i p"
  have w: "length (rtp_wire ?h) = rtp_header_size ?h" using wf by (rule rtp.wire_size)
  have le: "length ?e = length (rp_payload p)" by (simp add: sealed_def)
  have 12: "12 \<le> rtp_header_size ?h" by (simp add: rtp_header_size_def rtpMinHeaderSize_def)
  have dec: "rtp_header_decode (rtp_wire ?h @ ?e @ tag) = Inr ?h"
    using wf by (rule rtp.parse_wire)
  have opn: "aesCtrXor aes (sc_session_key ?c)
      (generateIV ?c (rh_ssrc ?h) (packetIndex ?c (word_of_nat i))) ?e = Some (rp_payload p)"
    using u r generateIV_keys [of ?c c0]
    by (simp add: aesCtrXor_def usable_def ready_for_def packetIndex_tracks sealed_def)
  have drp: "drop (rtp_header_size ?h) (rtp_wire ?h @ ?e @ tag) = ?e @ tag"
    using w by simp
  have "0 < length (rp_payload p)" using ne by simp
  then show ?thesis
    using dec 12 opn drp w le tag
    by (simp add: Unprotect_def Let_def sq nat_diff_distrib')
qed

section \<open>Streams with loss\<close>

fun protect_all ::
    "(bytes \<Rightarrow> bytes \<Rightarrow> bytes) \<Rightarrow> (bytes \<Rightarrow> bytes \<Rightarrow> bytes) \<Rightarrow> srtp_context \<Rightarrow> rtp_packet list
     \<Rightarrow> (srtp_error + bytes) list" where
  "protect_all aes hmac c [] = []"
| "protect_all aes hmac c (p # ps) =
     (let (c', r) = Protect aes hmac c p in r # protect_all aes hmac c' ps)"

fun unprotect_all ::
    "(bytes \<Rightarrow> bytes \<Rightarrow> bytes) \<Rightarrow> srtp_context \<Rightarrow> (srtp_error + bytes) list
     \<Rightarrow> (srtp_error + rtp_packet) list" where
  "unprotect_all aes c [] = []"
| "unprotect_all aes c (Inl e # rs) = Inl e # unprotect_all aes c rs"
| "unprotect_all aes c (Inr bs # rs) =
     (let (c', r) = Unprotect aes c bs in r # unprotect_all aes c' rs)"

text \<open>\<open>received\<close> says which packets the network delivered, in order.\<close>

fun received :: "bool list \<Rightarrow> 'a list \<Rightarrow> 'a list" where
  "received (b # bs) (x # xs) = (if b then x # received bs xs else received bs xs)"
| "received _ _ = []"

text \<open>\<open>numbered s ps\<close>: the packets carry consecutive sequence numbers from \<open>s\<close>.\<close>

fun numbered :: "nat \<Rightarrow> rtp_packet list \<Rightarrow> bool" where
  "numbered i [] = True"
| "numbered i (p # ps) \<longleftrightarrow> rtp_wf (rp_header p) \<and> rp_payload p \<noteq> [] \<and>
     rh_seq (rp_header p) = word_of_nat i \<and> numbered (Suc i) ps"

text \<open>\<open>short_gaps g bs\<close>: at most \<open>g\<close> packets are lost before the first, and 32766 between two.\<close>

fun short_gaps :: "nat \<Rightarrow> bool list \<Rightarrow> bool" where
  "short_gaps g [] = True"
| "short_gaps g (b # bs) =
     (if b then short_gaps 32766 bs else 0 < g \<and> short_gaps (g - 1) bs)"

lemma ready_tracks: "ready_for c i \<Longrightarrow> tracks (updateRoc c (word_of_nat i)) i"
  by (simp add: ready_for_def)

lemma lossy_stream_step:
  assumes "numbered i ps" and "usable c" and "same_keys c d" and "ready_for c i"
    and "\<And>k. k \<le> g \<Longrightarrow> ready_for d (i + k)" and "short_gaps g bs"
  shows "unprotect_all aes d (received bs (protect_all aes hmac c ps)) =
    map Inr (received bs ps)"
  using assms
proof (induction ps arbitrary: i c d g bs)
  case Nil
  then show ?case by (cases bs) simp_all
next
  case (Cons p ps)
  let ?q = "word_of_nat i :: u16"
  obtain tag where tag: "length tag = sc_auth_tag_len c"
    and P: "Protect aes hmac c p = (updateRoc c ?q, Inr (rtp_wire (rp_header p) @ sealed aes c i p @ tag))"
    using Protect_ok [of p c i aes hmac] Cons.prems by auto
  have nxt: "ready_for (updateRoc c ?q) (Suc i)"
    using ready_tracks [OF Cons.prems(4)] by (rule tracks_ready) simp_all
  have ps: "numbered (Suc i) ps" and u: "usable (updateRoc c ?q)"
    using Cons.prems by simp_all
  show ?case
  proof (cases bs)
    case Nil
    then show ?thesis by simp
  next
    case bs: (Cons b bs')
    show ?thesis
    proof (cases b)
      case True
      have rd: "ready_for d i" using Cons.prems(5) [of 0] by simp
      have U: "Unprotect aes d (rtp_wire (rp_header p) @ sealed aes c i p @ tag) = (updateRoc d ?q, Inr p)"
        using Unprotect_ok [of p d i tag aes] Cons.prems rd tag sealed_keys [of c d aes i p]
        by (simp add: same_keys_def usable_def)
      have "ready_for (updateRoc d ?q) (Suc i + k)" if "k \<le> 32766" for k
        using ready_tracks [OF rd] by (rule tracks_ready) (use that in simp_all)
      then have "unprotect_all aes (updateRoc d ?q)
          (received bs' (protect_all aes hmac (updateRoc c ?q) ps)) = map Inr (received bs' ps)"
        using Cons.prems bs True by (intro Cons.IH [OF ps u _ nxt]) simp_all
      then show ?thesis using bs True P U by simp
    next
      case False
      then have g: "0 < g" "short_gaps (g - 1) bs'"
        using Cons.prems bs by simp_all
      have "ready_for d (Suc i + k)" if "k \<le> g - 1" for k
        using Cons.prems(5) [of "Suc k"] that g by simp
      then have "unprotect_all aes d
          (received bs' (protect_all aes hmac (updateRoc c ?q) ps)) = map Inr (received bs' ps)"
        using Cons.prems g by (intro Cons.IH [OF ps u _ nxt]) simp_all
      then show ?thesis using bs False P by simp
    qed
  qed
qed

lemma NewSrtpContext_fresh:
  assumes "NewSrtpContext aes km tagLen = Inr c"
  shows "fresh_context c" and "length (sc_session_key c) = 16"
    and "sc_auth_tag_len c = (if tagLen \<le> 0 then 4 else nat tagLen)"
  using assms
  by (auto simp: NewSrtpContext_def deriveSrtpKey_def aesCtrXor_def Let_def fresh_context_def
      SRTPAuthTagLen_def split: sum.splits option.splits if_splits)

text \<open>C6: A sender protects a stream of packets whose sequence numbers count up from \<open>s\<close>
  (modulo \<open>2 ^ 16\<close>, so across any number of wraps) with a fresh context.  The network loses any
  packets as long as no gap exceeds 32766 packets and the first packet delivered comes before
  the first wrap.  A receiver with a fresh context of the same keying recovers every delivered
  packet exactly.\<close>

theorem srtp_lossy_stream:
  assumes "NewSrtpContext aes km tagLen = Inr c" and "tagLen \<le> 20"
    and "numbered s ps" and "s + g < 65536" and "short_gaps g bs"
  shows "unprotect_all aes c (received bs (protect_all aes hmac c ps)) = map Inr (received bs ps)"
proof -
  note f = NewSrtpContext_fresh [OF assms(1)]
  have "usable c" using f assms(2) by (auto simp: usable_def)
  moreover have "ready_for c s" "\<And>k. k \<le> g \<Longrightarrow> ready_for c (s + k)"
    using f(1) assms(4) by (simp_all add: fresh_ready)
  ultimately show ?thesis
    using assms(3,5) by (intro lossy_stream_step [where g = g]) simp_all
qed

definition demo_keying :: srtp_keying where
  "demo_keying = \<lparr>km_master_key = replicate 16 7, km_master_salt = replicate 14 9\<rparr>"

definition demo_packet :: "u16 \<Rightarrow> rtp_packet" where
  "demo_packet q = \<lparr>rp_header = NewRtpHeader 120 q 960 5, rp_payload = [1, 2, 3]\<rparr>"

lemma demo_packet_simps [simp]:
  "rtp_wf (rp_header (demo_packet q))" "rp_payload (demo_packet q) \<noteq> []"
  "rh_seq (rp_header (demo_packet q)) = q"
  by (simp_all add: demo_packet_def NewRtpHeader_def rtp_wf_def rtpVersion_def)

theorem srtp_lossy_stream_witness:
  "\<exists>c. NewSrtpContext (\<lambda>k b. b) demo_keying 4 = Inr c \<and>
     unprotect_all (\<lambda>k b. b) c (received [True, False, True]
       (protect_all (\<lambda>k b. b) (\<lambda>k m. take 20 (m @ k)) c (map demo_packet [65535, 0, 1]))) =
     [Inr (demo_packet 65535), Inr (demo_packet 1)]"
proof -
  obtain c where c: "NewSrtpContext (\<lambda>k b. b) demo_keying 4 = Inr c"
    by (simp add: NewSrtpContext_def deriveSrtpKey_def aesCtrXor_def Let_def demo_keying_def)
  moreover have "numbered 65535 (map demo_packet [65535, 0, 1])"
    by simp
  ultimately show ?thesis
    using srtp_lossy_stream [of "\<lambda>k b. b" demo_keying 4 c 65535 "map demo_packet [65535, 0, 1]" 0
        "[True, False, True]" "\<lambda>k m. take 20 (m @ k)"] by auto
qed

section \<open>What Unprotect does not check\<close>

lemma header_size_12 [simp]: "12 \<le> rtp_header_size h"
  by (simp add: rtp_header_size_def rtpMinHeaderSize_def)

lemma Unprotect_body:
  assumes "rtp_header_decode (x @ t) = Inr h" and "rtp_header_size h < length x"
    and "length t = sc_auth_tag_len c"
  shows "Unprotect aes c (x @ t) =
    (let c1 = updateRoc c (rh_seq h) in
     case aesCtrXor aes (sc_session_key c) (generateIV c1 (rh_ssrc h) (packetIndex c1 (rh_seq h)))
            (drop (rtp_header_size h) x) of
       None \<Rightarrow> (c1, Inl SrtpErrDecryption)
     | Some dec \<Rightarrow> (c1, Inr \<lparr>rp_header = h, rp_payload = dec\<rparr>))"
proof -
  have "take (nat (int (length x) - int (rtp_header_size h))) (drop (rtp_header_size h) (x @ t))
      = drop (rtp_header_size h) x"
    using assms(2) by (simp add: nat_diff_distrib')
  moreover have "\<not> length (x @ t) < 12"
    using assms(2) header_size_12 [of h] by (simp del: header_size_12)
  ultimately show ?thesis
    using assms by (simp add: Unprotect_def Let_def)
qed

text \<open>C30: Unprotect never looks at the authentication tag: replacing the last \<open>auth_tag_len\<close>
  bytes of a packet by any others changes neither the decrypted packet nor the context, so a
  packet forged without the authentication key is accepted like a genuine one.  (The error
  SrtpErrAuthFailed is declared and never returned.)\<close>

theorem unprotect_ignores_tag:
  assumes "length t = sc_auth_tag_len c" and "length t' = sc_auth_tag_len c"
    and "Unprotect aes c (x @ t) = (c', Inr p)"
  shows "Unprotect aes c (x @ t') = (c', Inr p)"
proof -
  obtain h where h: "rtp_header_decode (x @ t) = Inr h" and len: "12 \<le> length (x @ t)"
    using assms(3) by (auto simp: Unprotect_def split: if_splits sum.splits)
  have hs: "rtp_header_size h < length x"
    using assms(1,3) len h by (auto simp: Unprotect_def Let_def split: if_splits)
  have "rtp_header_decode (x @ t') = Inr h"
    using h by (rule header_decode_prefix) (use hs assms in simp_all)
  then show ?thesis
    using assms h Unprotect_body [OF _ hs] by metis
qed

theorem unprotect_ignores_tag_witness:
  "\<exists>c c' p. NewSrtpContext (\<lambda>k b. b) demo_keying 4 = Inr c \<and>
     Unprotect (\<lambda>k b. b) c (rtp_wire (rp_header (demo_packet 9)) @ [1, 2, 3] @ [0, 0, 0, 0]) = (c', Inr p) \<and>
     Unprotect (\<lambda>k b. b) c (rtp_wire (rp_header (demo_packet 9)) @ [1, 2, 3] @ [4, 3, 2, 1]) = (c', Inr p)"
proof -
  let ?x = "rtp_wire (rp_header (demo_packet 9)) @ [1, 2, 3]"
  obtain c where c: "NewSrtpContext (\<lambda>k b. b) demo_keying 4 = Inr c"
    by (simp add: NewSrtpContext_def deriveSrtpKey_def aesCtrXor_def Let_def demo_keying_def)
  note f = NewSrtpContext_fresh [OF c]
  have "\<exists>c' p. Unprotect (\<lambda>k b. b) c (?x @ [0, 0, 0, 0]) = (c', Inr p)"
    using f rtp.parse_wire [of "rp_header (demo_packet 9)" "[1, 2, 3] @ [0, 0, 0, 0]"]
      rtp.wire_size [of "rp_header (demo_packet 9)"]
    by (subst Unprotect_body [of _ _ "rp_header (demo_packet 9)"]) (simp_all add: Let_def aesCtrXor_def)
  then obtain c' p where "Unprotect (\<lambda>k b. b) c (?x @ [0, 0, 0, 0]) = (c', Inr p)"
    by blast
  with unprotect_ignores_tag [of "[0, 0, 0, 0]" c "[4, 3, 2, 1]" "\<lambda>k b. b" ?x c' p] f(3) c
  show ?thesis by auto
qed

text \<open>A packet overtaken across the wrap makes the counter advance twice.\<close>

lemma updateRoc_reorder_example:
  "sc_roc (foldl updateRoc \<lparr>sc_session_key = [], sc_session_salt = [], sc_auth_key = [], sc_roc = 0,
      sc_last_seq = 0, sc_initialized = False, sc_auth_tag_len = 4\<rparr> [65535, 0, 65535, 1]) = 2"
  by (simp add: updateRoc_def)

end
