(* ===== verification/CallState.thy ===== *)
theory CallState
  imports Prelude
begin

text \<open>
  The state of one call: src/internal/voip/call/callstate.go with the enumerations of
  src/internal/voip/core/types.go.  Instants are nanoseconds.  \<open>ApplyTransition\<close> mutates the
  call in place and returns an error or nil; the model returns the call beside the error.
\<close>

datatype call_state =
    CallStateInitiating | CallStateRinging | CallStateIncomingRinging | CallStateConnecting
  | CallStateActive | CallStateOnHold | CallStateEnded

datatype call_direction = CallDirectionOutgoing | CallDirectionIncoming

datatype call_media_type = CallMediaTypeAudio | CallMediaTypeVideo

text \<open>A reason is a Go string; \<open>ReasonOther\<close> is any text that is not one of the constants.\<close>

datatype end_reason =
    ReasonNone | EndCallReasonUserEnded | EndCallReasonDeclined | EndCallReasonTimeout
  | EndCallReasonBusy | EndCallReasonCancelled | EndCallReasonFailed
  | EndCallReasonDoNotDisturb | EndCallReasonUnknown | ReasonOther string

record relay_endpoint =
  ep_ip :: string
  ep_port :: int
  ep_token :: string
  ep_auth_token :: string
  ep_raw_auth_token :: "bytes option"
  ep_raw_token :: "bytes option"
  ep_key :: string
  ep_relay_id :: int
  ep_protocol :: int
  ep_c2r_rtt :: "int option"
  ep_relay_name :: string
  ep_address_bytes :: "bytes option"
  ep_auth_token_id :: string

record relay_data =
  rd_endpoints :: "relay_endpoint list"
  rd_participants :: "string list"
  rd_uuid :: string
  rd_self_pid :: "int option"
  rd_peer_pid :: "int option"
  rd_hbh_key :: "bytes option"

record call_state_data =
  sd_state :: call_state
  sd_connected_at :: "int option"
  sd_accepted_at :: "int option"
  sd_ended_at :: "int option"
  sd_audio_muted :: bool
  sd_video_off :: bool
  sd_silenced :: bool
  sd_end_reason :: end_reason
  sd_duration :: int

record call_info =
  ci_id :: string
  ci_peer :: string
  ci_creator :: string
  ci_direction :: call_direction
  ci_media :: call_media_type
  ci_data :: call_state_data
  ci_created_at :: int
  ci_group :: string
  ci_offline :: bool
  ci_caller_pn :: string
  ci_key :: "bytes option"
  ci_relay :: "relay_data option"
  ci_elected :: "int option"

definition new_state_data :: "call_state \<Rightarrow> call_media_type \<Rightarrow> call_state_data" where
  "new_state_data st mt =
     \<lparr>sd_state = st, sd_connected_at = None, sd_accepted_at = None, sd_ended_at = None,
      sd_audio_muted = False, sd_video_off = (mt \<noteq> CallMediaTypeVideo), sd_silenced = False,
      sd_end_reason = ReasonNone, sd_duration = 0\<rparr>"

definition NewOutgoingCall ::
    "int \<Rightarrow> string \<Rightarrow> string \<Rightarrow> string \<Rightarrow> call_media_type \<Rightarrow> call_info" where
  "NewOutgoingCall now callID peerJid ourJid mt =
     \<lparr>ci_id = callID, ci_peer = peerJid, ci_creator = ourJid,
      ci_direction = CallDirectionOutgoing, ci_media = mt,
      ci_data = new_state_data CallStateInitiating mt, ci_created_at = now,
      ci_group = [], ci_offline = False, ci_caller_pn = [], ci_key = None, ci_relay = None,
      ci_elected = None\<rparr>"

definition NewIncomingCall ::
    "int \<Rightarrow> string \<Rightarrow> string \<Rightarrow> string \<Rightarrow> string \<Rightarrow> call_media_type \<Rightarrow> call_info" where
  "NewIncomingCall now callID peerJid callCreator callerPn mt =
     \<lparr>ci_id = callID, ci_peer = peerJid, ci_creator = callCreator,
      ci_direction = CallDirectionIncoming, ci_media = mt,
      ci_data = new_state_data CallStateIncomingRinging mt, ci_created_at = now,
      ci_group = [], ci_offline = False, ci_caller_pn = callerPn, ci_key = None, ci_relay = None,
      ci_elected = None\<rparr>"

definition ci_state :: "call_info \<Rightarrow> call_state" where
  "ci_state c = sd_state (ci_data c)"

definition IsInitiator :: "call_info \<Rightarrow> bool" where
  "IsInitiator c = (ci_direction c = CallDirectionOutgoing)"

definition IsActive :: "call_info \<Rightarrow> bool" where
  "IsActive c = (ci_state c = CallStateActive)"

definition IsRinging :: "call_info \<Rightarrow> bool" where
  "IsRinging c = (ci_state c = CallStateRinging \<or> ci_state c = CallStateIncomingRinging)"

definition IsEnded :: "call_info \<Rightarrow> bool" where
  "IsEnded c = (ci_state c = CallStateEnded)"

definition CanAccept :: "call_info \<Rightarrow> bool" where
  "CanAccept c = (ci_state c = CallStateIncomingRinging)"

definition CanReject :: "call_info \<Rightarrow> bool" where
  "CanReject c = (ci_state c = CallStateIncomingRinging \<or> ci_state c = CallStateRinging \<or>
     ci_state c = CallStateInitiating)"

section \<open>Transitions\<close>

datatype transition_type =
    TransitionOfferSent | TransitionOfferReceived | TransitionLocalAccepted
  | TransitionRemoteAccepted | TransitionLocalRejected | TransitionRemoteRejected
  | TransitionMediaConnected | TransitionTerminated | TransitionHold | TransitionResume
  | TransitionAudioMuteChanged | TransitionVideoStateChanged | TransitionRingingReceived
  | TransitionUnknown string

record transition =
  tr_type :: transition_type
  tr_reason :: end_reason
  tr_muted :: bool
  tr_off :: bool
  tr_silenced :: bool

datatype invalid_transition = InvalidTransition call_state transition_type

definition simple_transition :: "transition_type \<Rightarrow> transition" where
  "simple_transition t = \<lparr>tr_type = t, tr_reason = ReasonNone, tr_muted = False, tr_off = False,
     tr_silenced = False\<rparr>"

definition reason_transition :: "transition_type \<Rightarrow> end_reason \<Rightarrow> transition" where
  "reason_transition t r = (simple_transition t)\<lparr>tr_reason := r\<rparr>"

text \<open>\<open>int(now.Sub(connected).Seconds())\<close>: whole seconds, truncated towards zero.\<close>

definition seconds_between :: "int \<Rightarrow> int \<Rightarrow> int" where
  "seconds_between now connected =
     (if now \<ge> connected then (now - connected) div 1000000000
      else - ((connected - now) div 1000000000))"

text \<open>One arm of the switch each: \<open>None\<close> is the InvalidTransition return.\<close>

definition apply_data ::
    "int \<Rightarrow> call_media_type \<Rightarrow> transition \<Rightarrow> call_state_data \<Rightarrow> call_state_data option" where
  "apply_data now mt t s =
     (case tr_type t of
        TransitionOfferSent \<Rightarrow>
          if sd_state s \<noteq> CallStateInitiating then None
          else Some (s\<lparr>sd_state := CallStateInitiating\<rparr>)
      | TransitionRingingReceived \<Rightarrow>
          if sd_state s \<noteq> CallStateInitiating then None
          else Some (s\<lparr>sd_state := CallStateRinging\<rparr>)
      | TransitionOfferReceived \<Rightarrow>
          if sd_state s \<noteq> CallStateInitiating then None
          else Some (s\<lparr>sd_state := CallStateIncomingRinging, sd_silenced := tr_silenced t\<rparr>)
      | TransitionRemoteAccepted \<Rightarrow>
          if sd_state s = CallStateConnecting then Some s
          else if sd_state s \<in> {CallStateRinging, CallStateInitiating, CallStateIncomingRinging}
          then Some (s\<lparr>sd_state := CallStateConnecting, sd_accepted_at := Some now\<rparr>)
          else None
      | TransitionLocalAccepted \<Rightarrow>
          if sd_state s \<noteq> CallStateIncomingRinging then None
          else Some (s\<lparr>sd_state := CallStateConnecting, sd_accepted_at := Some now\<rparr>)
      | TransitionRemoteRejected \<Rightarrow>
          if sd_state s \<noteq> CallStateRinging \<and> sd_state s \<noteq> CallStateInitiating then None
          else Some (s\<lparr>sd_state := CallStateEnded, sd_ended_at := Some now,
                 sd_end_reason := tr_reason t\<rparr>)
      | TransitionLocalRejected \<Rightarrow>
          if sd_state s \<noteq> CallStateIncomingRinging then None
          else Some (s\<lparr>sd_state := CallStateEnded, sd_ended_at := Some now,
                 sd_end_reason := tr_reason t\<rparr>)
      | TransitionMediaConnected \<Rightarrow>
          if sd_state s \<noteq> CallStateConnecting then None
          else Some (s\<lparr>sd_state := CallStateActive, sd_connected_at := Some now,
                 sd_video_off := (mt \<noteq> CallMediaTypeVideo)\<rparr>)
      | TransitionTerminated \<Rightarrow>
          if sd_state s = CallStateEnded then None
          else let s1 = (if sd_state s = CallStateActive \<or> sd_state s = CallStateOnHold
                         then (case sd_connected_at s of
                                 Some c \<Rightarrow> s\<lparr>sd_duration := seconds_between now c\<rparr>
                               | None \<Rightarrow> s)
                         else s)
               in Some (s1\<lparr>sd_state := CallStateEnded, sd_ended_at := Some now,
                     sd_end_reason := tr_reason t\<rparr>)
      | TransitionHold \<Rightarrow>
          if sd_state s \<noteq> CallStateActive then None
          else Some (s\<lparr>sd_state := CallStateOnHold\<rparr>)
      | TransitionResume \<Rightarrow>
          if sd_state s \<noteq> CallStateOnHold then None
          else Some (s\<lparr>sd_state := CallStateActive\<rparr>)
      | TransitionAudioMuteChanged \<Rightarrow>
          if sd_state s \<noteq> CallStateActive then None
          else Some (s\<lparr>sd_audio_muted := tr_muted t\<rparr>)
      | TransitionVideoStateChanged \<Rightarrow>
          if sd_state s \<noteq> CallStateActive then None
          else Some (s\<lparr>sd_video_off := tr_off t\<rparr>)
      | TransitionUnknown _ \<Rightarrow> None)"

definition ApplyTransition ::
    "int \<Rightarrow> call_info \<Rightarrow> transition \<Rightarrow> call_info \<times> invalid_transition option" where
  "ApplyTransition now c t =
     (case apply_data now (ci_media c) t (ci_data c) of
        None \<Rightarrow> (c, Some (InvalidTransition (ci_state c) (tr_type t)))
      | Some s \<Rightarrow> (c\<lparr>ci_data := s\<rparr>, None))"

section \<open>What every call satisfies\<close>

text \<open>
  The life cycle as the rest of the program relies on it: how far a call has come
  (\<open>call_rank\<close>), and which time stamps are set in which state.
\<close>

fun call_rank :: "call_state \<Rightarrow> nat" where
  "call_rank CallStateInitiating = 0"
| "call_rank CallStateRinging = 1"
| "call_rank CallStateIncomingRinging = 1"
| "call_rank CallStateConnecting = 2"
| "call_rank CallStateActive = 3"
| "call_rank CallStateOnHold = 3"
| "call_rank CallStateEnded = 4"

definition stamps_ok :: "int \<Rightarrow> call_state_data \<Rightarrow> bool" where
  "stamps_ok now s \<longleftrightarrow>
     (if call_rank (sd_state s) < 2 then
        sd_accepted_at s = None \<and> sd_connected_at s = None \<and> sd_ended_at s = None \<and> sd_duration s = 0
      else if call_rank (sd_state s) = 2 then
        sd_accepted_at s \<noteq> None \<and> the (sd_accepted_at s) \<le> now \<and> sd_connected_at s = None \<and>
        sd_ended_at s = None \<and> sd_duration s = 0
      else if call_rank (sd_state s) = 3 then
        sd_accepted_at s \<noteq> None \<and> sd_connected_at s \<noteq> None \<and>
        the (sd_accepted_at s) \<le> the (sd_connected_at s) \<and> the (sd_connected_at s) \<le> now \<and>
        sd_ended_at s = None \<and> sd_duration s = 0
      else
        sd_ended_at s \<noteq> None \<and> the (sd_ended_at s) \<le> now \<and>
        (if sd_connected_at s = None then sd_duration s = 0
         else sd_accepted_at s \<noteq> None \<and> the (sd_accepted_at s) \<le> the (sd_connected_at s) \<and>
           the (sd_connected_at s) \<le> the (sd_ended_at s) \<and>
           sd_duration s = (the (sd_ended_at s) - the (sd_connected_at s)) div 1000000000))"

named_theorems call_simps

lemmas [call_simps] = ApplyTransition_def apply_data_def ci_state_def Let_def

lemma apply_data_rank:
  "apply_data now mt t s = Some s' \<Longrightarrow> call_rank (sd_state s) \<le> call_rank (sd_state s')"
  by (cases "tr_type t"; cases "sd_state s")
     (auto simp: apply_data_def Let_def split: if_splits option.splits)

lemma stamps_later: "stamps_ok now s \<Longrightarrow> now \<le> later \<Longrightarrow> stamps_ok later s"
  by (auto simp: stamps_ok_def split: if_splits)

lemma apply_data_cases:
  assumes "apply_data now mt t s = Some s'"
  shows "sd_state s \<noteq> CallStateEnded \<and>
    (sd_state s' = CallStateEnded \<and> sd_ended_at s' = Some now \<and>
       sd_accepted_at s' = sd_accepted_at s \<and> sd_connected_at s' = sd_connected_at s \<and>
       (sd_duration s' = sd_duration s \<and> call_rank (sd_state s) < 3 \<or>
        call_rank (sd_state s) = 3 \<and> sd_duration s' =
          (case sd_connected_at s of None \<Rightarrow> sd_duration s | Some c \<Rightarrow> seconds_between now c)) \<or>
     sd_ended_at s' = sd_ended_at s \<and> sd_duration s' = sd_duration s \<and>
       (call_rank (sd_state s) < 2 \<and> call_rank (sd_state s') < 2 \<and>
          sd_accepted_at s' = sd_accepted_at s \<and> sd_connected_at s' = sd_connected_at s \<or>
        call_rank (sd_state s) < 2 \<and> call_rank (sd_state s') = 2 \<and>
          sd_accepted_at s' = Some now \<and> sd_connected_at s' = sd_connected_at s \<or>
        call_rank (sd_state s) = 2 \<and> call_rank (sd_state s') = 3 \<and>
          sd_accepted_at s' = sd_accepted_at s \<and> sd_connected_at s' = Some now \<or>
        call_rank (sd_state s) = call_rank (sd_state s') \<and>
          sd_accepted_at s' = sd_accepted_at s \<and> sd_connected_at s' = sd_connected_at s))"
  using assms
  by (cases "tr_type t"; cases "sd_state s"; clarsimp simp: apply_data_def Let_def split: option.splits)

lemma apply_data_stamps:
  assumes "apply_data now mt t s = Some s'" and "stamps_ok now s"
  shows "stamps_ok now s'"
  using apply_data_cases [OF assms(1)] assms(2)
  unfolding stamps_ok_def
  by (elim conjE disjE) (simp_all split: if_splits, auto simp: seconds_between_def)

section \<open>A call over time\<close>

text \<open>An event is a transition attempted some nanoseconds after the one before.\<close>

definition call_step :: "call_info \<times> int \<Rightarrow> nat \<times> transition \<Rightarrow> call_info \<times> int" where
  "call_step s e =
     (let now = snd s + int (fst e) in (fst (ApplyTransition now (fst s) (snd e)), now))"

definition call_ok :: "call_info \<times> int \<Rightarrow> bool" where
  "call_ok s = stamps_ok (snd s) (ci_data (fst s))"

lemma ApplyTransition_stamps:
  "stamps_ok now (ci_data c) \<Longrightarrow> stamps_ok now (ci_data (fst (ApplyTransition now c t)))"
  by (auto simp: ApplyTransition_def split: option.splits dest: apply_data_stamps)

interpretation call: step_machine call_step call_ok
proof unfold_locales
  fix s and e :: "nat \<times> transition" assume "call_ok s"
  then have "stamps_ok (snd s + int (fst e)) (ci_data (fst s))"
    unfolding call_ok_def by (rule stamps_later) simp
  then show "call_ok (call_step s e)"
    by (simp add: call_step_def call_ok_def Let_def ApplyTransition_stamps)
qed

lemma new_call_ok:
  "call_ok (NewOutgoingCall t0 i p oj mt, t0)" "call_ok (NewIncomingCall t0 i p cc pn mt, t0)"
  by (simp_all add: call_ok_def NewOutgoingCall_def NewIncomingCall_def new_state_data_def
      stamps_ok_def)

text \<open>C13: whatever transitions are attempted on a call, in any order, as long as the clock does
  not run backwards: the call has an end time exactly when it is ended, an active or held call
  has been accepted and connected, in this order, and the duration of an ended call is the whole
  seconds between connecting and ending, 0 if it never connected.\<close>

theorem call_life_cycle:
  assumes "c \<in> {NewOutgoingCall t0 i p oj mt, NewIncomingCall t0 i p cc pn mt}"
  shows "let (c', now) = run_steps call_step (c, t0) es; d = ci_data c' in
    (sd_ended_at d \<noteq> None \<longleftrightarrow> IsEnded c') \<and>
    (sd_state d \<in> {CallStateActive, CallStateOnHold} \<longrightarrow>
       (\<exists>a x. sd_accepted_at d = Some a \<and> sd_connected_at d = Some x \<and> a \<le> x \<and> x \<le> now)) \<and>
    (\<forall>e. sd_ended_at d = Some e \<longrightarrow> e \<le> now \<and>
       sd_duration d = (case sd_connected_at d of None \<Rightarrow> 0 | Some x \<Rightarrow> (e - x) div 1000000000) \<and>
       0 \<le> sd_duration d)"
proof -
  have "call_ok (run_steps call_step (c, t0) es)"
    using assms new_call_ok by (intro call.run_inv) auto
  then show ?thesis
    by (cases "sd_state (ci_data (fst (run_steps call_step (c, t0) es)))")
       (auto simp: call_ok_def stamps_ok_def IsEnded_def ci_state_def Let_def split_beta
        pos_imp_zdiv_nonneg_iff split: option.splits if_splits)
qed

theorem call_life_cycle_witness:
  "let (c', now) = run_steps call_step (NewIncomingCall 0 ''a'' ''b'' ''c'' [] CallMediaTypeAudio, 0)
       [(5, simple_transition TransitionLocalAccepted), (1000000000, simple_transition TransitionMediaConnected),
        (2000000000, reason_transition TransitionTerminated EndCallReasonUserEnded)] in
    IsEnded c' \<and> sd_duration (ci_data c') = 2 \<and> sd_ended_at (ci_data c') \<noteq> None"
  using call_life_cycle [of "NewIncomingCall 0 ''a'' ''b'' ''c'' [] CallMediaTypeAudio" 0 "''a''"
    "''b''" "[]" CallMediaTypeAudio "''c''" "[]"
    "[(5, simple_transition TransitionLocalAccepted), (1000000000, simple_transition TransitionMediaConnected),
        (2000000000, reason_transition TransitionTerminated EndCallReasonUserEnded)]"]
  by (simp add: call_step_def call_simps NewIncomingCall_def new_state_data_def
      simple_transition_def reason_transition_def IsEnded_def seconds_between_def)

lemma ApplyTransition_rank:
  "call_rank (ci_state c) \<le> call_rank (ci_state (fst (ApplyTransition n c t)))"
  using apply_data_rank by (auto simp: ApplyTransition_def ci_state_def split: option.splits)

lemma ApplyTransition_ended:
  "IsEnded c \<Longrightarrow>
   ApplyTransition n c t = (c, Some (InvalidTransition CallStateEnded (tr_type t)))"
  by (cases "tr_type t") (simp_all add: call_simps IsEnded_def)

lemma apply_data_keeps:
  assumes "apply_data n mt t s = Some s'" and "stamps_ok m s"
  shows "sd_accepted_at s \<in> {None, sd_accepted_at s'}" "sd_connected_at s \<in> {None, sd_connected_at s'}"
  using apply_data_cases [OF assms(1)] assms(2) unfolding stamps_ok_def
  by (elim conjE disjE; simp split: if_splits)+

lemma ApplyTransition_keeps_stamps:
  assumes "stamps_ok m (ci_data c)"
  shows "sd_accepted_at (ci_data c) \<in> {None, sd_accepted_at (ci_data (fst (ApplyTransition n c t)))}"
    and "sd_connected_at (ci_data c) \<in> {None, sd_connected_at (ci_data (fst (ApplyTransition n c t)))}"
  using apply_data_keeps [OF _ assms]
  by (auto simp: ApplyTransition_def split: option.splits)

lemma call_run_rank:
  "call_rank (ci_state c) \<le> call_rank (ci_state (fst (run_steps call_step (c, now) es)))"
proof (induction es arbitrary: c now)
  case (Cons e es)
  show ?case
    using order_trans [OF ApplyTransition_rank Cons.IH] by (simp add: call_step_def Let_def)
qed simp

lemma call_run_ended: "IsEnded c \<Longrightarrow> fst (run_steps call_step (c, now) es) = c"
  by (induction es arbitrary: now) (simp_all add: call_step_def Let_def ApplyTransition_ended)

lemma call_run_keeps:
  assumes "call_ok (c, now)"
  shows "sd_accepted_at (ci_data c) \<in>
      {None, sd_accepted_at (ci_data (fst (run_steps call_step (c, now) es)))} \<and>
    sd_connected_at (ci_data c) \<in>
      {None, sd_connected_at (ci_data (fst (run_steps call_step (c, now) es)))}"
  using assms
proof (induction es arbitrary: c now)
  case (Cons e es)
  let ?c1 = "fst (ApplyTransition (now + int (fst e)) c (snd e))"
  have "call_ok (?c1, now + int (fst e))"
    using call.step_inv [OF Cons.prems, of e] by (simp add: call_step_def Let_def)
  from Cons.IH [OF this]
    ApplyTransition_keeps_stamps [of now c "now + int (fst e)" "snd e"] Cons.prems
  show ?case by (auto simp: call_step_def Let_def call_ok_def)
qed simp

text \<open>C21: a call only moves forward (ringing, connecting, active or held, ended): in every run
  from a new call its rank never decreases; once it is ended it stays exactly as it is and
  refuses every transition with an error; and an accept or connect time, once set, is never
  overwritten.\<close>

theorem call_moves_forward:
  assumes "call_ok (c, now)"
  shows "call_ok (run_steps call_step (c, now) es) \<and>
    (let c' = fst (run_steps call_step (c, now) es) in
     call_rank (ci_state c) \<le> call_rank (ci_state c') \<and>
     (IsEnded c \<longrightarrow> c' = c \<and> ApplyTransition now c t =
        (c, Some (InvalidTransition CallStateEnded (tr_type t)))) \<and>
     (sd_accepted_at (ci_data c) \<noteq> None \<longrightarrow> sd_accepted_at (ci_data c') = sd_accepted_at (ci_data c)) \<and>
     (sd_connected_at (ci_data c) \<noteq> None \<longrightarrow> sd_connected_at (ci_data c') = sd_connected_at (ci_data c)))"
  using call.run_inv [OF assms] call_run_rank call_run_ended ApplyTransition_ended
    call_run_keeps [OF assms, of es] by (auto simp: Let_def)

theorem call_moves_forward_witness:
  "let c' = fst (run_steps call_step (NewOutgoingCall 0 ''a'' ''b'' ''c'' CallMediaTypeAudio, 0)
     [(1, simple_transition TransitionHold), (2, simple_transition TransitionRemoteAccepted)]) in
   0 \<le> call_rank (ci_state c') \<and> ci_state c' = CallStateConnecting"
  using call_moves_forward [of "NewOutgoingCall 0 ''a'' ''b'' ''c'' CallMediaTypeAudio" 0
    "[(1, simple_transition TransitionHold), (2, simple_transition TransitionRemoteAccepted)]"
    "simple_transition TransitionHold"] new_call_ok(1)
  by (simp add: call_step_def call_simps NewOutgoingCall_def new_state_data_def
      simple_transition_def)

end
