(* ===== verification/Stun.thy ===== *)
theory Stun
  imports Prelude
begin

text \<open>
  The STUN messages exchanged with the relays: src/internal/voip/transport/stun.go and
  the protobuf fragments of subscriptions.go.

  \<open>buildStunMessage\<close>, the message builders and the parser are translated with every length
  field; HMAC-SHA1 is the parameter \<open>hmac\<close>, the random transaction id and ICE tie breaker are
  arguments, and hash/crc32 is written out bit by bit.
\<close>

unbundle bit_operations_syntax

section \<open>Protobuf fragments (subscriptions.go)\<close>

lemma varint_shift_less: "\<not> (v :: u64) \<le> 127 \<Longrightarrow> unat (drop_bit 7 v) < unat v"
  by (simp add: unat_drop_bit_eq word_le_nat_alt) (simp add: drop_bit_eq_div)

function encodeVarint :: "u64 \<Rightarrow> bytes" where
  "encodeVarint v =
     (if \<not> v \<le> 127 then ucast (v AND 127 OR 128) # encodeVarint (drop_bit 7 v)
      else [ucast (v AND 127)])"
  by auto
termination by (relation "measure unat") (simp_all add: varint_shift_less)

declare encodeVarint.simps [simp del]

definition encodeProtobufVarintField :: "nat \<Rightarrow> u64 \<Rightarrow> bytes" where
  "encodeProtobufVarintField field v =
     encodeVarint (push_bit 3 (word_of_nat field)) @ encodeVarint v"

definition encodeProtobufLengthDelimited :: "nat \<Rightarrow> bytes \<Rightarrow> bytes" where
  "encodeProtobufLengthDelimited field data =
     encodeVarint (push_bit 3 (word_of_nat field) OR 2) @ encodeVarint (word_of_nat (length data)) @ data"

definition BuildSenderSubscriptions :: "u32 \<Rightarrow> bytes" where
  "BuildSenderSubscriptions ssrc =
     encodeProtobufLengthDelimited 1
       (encodeProtobufVarintField 3 (ucast ssrc) @ encodeProtobufVarintField 5 0 @
        encodeProtobufVarintField 6 0)"

definition ssrc_entry :: "int \<Rightarrow> u32 \<Rightarrow> bytes" where
  "ssrc_entry pid ssrc =
     encodeProtobufLengthDelimited 1
       (encodeProtobufVarintField 1 (word_of_int pid) @ encodeProtobufVarintField 2 1 @
        encodeProtobufVarintField 3 (ucast ssrc))"

fun ssrc_entries :: "int \<Rightarrow> u32 list \<Rightarrow> bytes list" where
  "ssrc_entries pid [] = []"
| "ssrc_entries pid (s # ss) =
     (if s = 0 then ssrc_entries pid ss else ssrc_entry pid s # ssrc_entries pid ss)"

definition BuildSSRCSubscriptionList :: "u32 list \<Rightarrow> u32 list \<Rightarrow> int \<Rightarrow> int \<Rightarrow> bytes" where
  "BuildSSRCSubscriptionList selfSsrcs peerSsrcs selfPid peerPid =
     concat (ssrc_entries selfPid selfSsrcs @ ssrc_entries peerPid peerSsrcs)"

section \<open>Building messages\<close>

definition stunMagicCookie :: u32 where "stunMagicCookie = 0x2112a442"
definition stunFingerprintXor :: u32 where "stunFingerprintXor = 0x5354554e"
definition stunBindingRequest :: u16 where "stunBindingRequest = 0x0001"
definition stunAllocateRequest :: u16 where "stunAllocateRequest = 0x0003"
definition whatsappPing :: u16 where "whatsappPing = 0x0801"
definition attrUsername :: u16 where "attrUsername = 0x0006"
definition attrMessageIntegrity :: u16 where "attrMessageIntegrity = 0x0008"
definition attrXorRelayedAddress :: u16 where "attrXorRelayedAddress = 0x0016"
definition attrPriority :: u16 where "attrPriority = 0x0024"
definition attrSenderSubscriptions :: u16 where "attrSenderSubscriptions = 0x4000"
definition attrSsrcList :: u16 where "attrSsrcList = 0x4024"
definition attrIceControlling :: u16 where "attrIceControlling = 0x802a"
definition attrFingerprint :: u16 where "attrFingerprint = 0x8028"
definition defaultICEPriority :: u32 where "defaultICEPriority = 16777215"

definition encodeAttribute :: "u16 \<Rightarrow> bytes \<Rightarrow> bytes" where
  "encodeAttribute attrType data =
     (let padding = (4 - length data mod 4) mod 4
      in put_be16 attrType @ put_be16 (word_of_nat (length data)) @ data @ replicate padding 0)"

text \<open>\<open>crc32.ChecksumIEEE\<close>: the reflected polynomial 0xedb88320, one bit at a time.\<close>

definition crc32_bit :: "u32 \<Rightarrow> u32" where
  "crc32_bit c = (if bit c 0 then drop_bit 1 c XOR 0xedb88320 else drop_bit 1 c)"

definition crc32_byte :: "u32 \<Rightarrow> u8 \<Rightarrow> u32" where
  "crc32_byte c b = (crc32_bit ^^ 8) (c XOR ucast b)"

definition crc32stun :: "bytes \<Rightarrow> u32" where
  "crc32stun data = NOT (foldl crc32_byte (NOT 0) data)"

text \<open>\<open>copy(header[8:], transactionID)\<close> into a fresh 20-byte header: 12 bytes, zero padded.\<close>

definition stun_header :: "u16 \<Rightarrow> nat \<Rightarrow> bytes \<Rightarrow> bytes" where
  "stun_header msgType len tx =
     put_be16 msgType @ put_be16 (word_of_nat len) @ put_be32 stunMagicCookie @
     take 12 (tx @ replicate 12 0)"

definition add_integrity ::
    "(bytes \<Rightarrow> bytes \<Rightarrow> bytes) \<Rightarrow> u16 \<Rightarrow> bytes \<Rightarrow> bytes option \<Rightarrow> bytes \<Rightarrow> bytes" where
  "add_integrity hmac msgType tx key attrs =
     (case key of
        None \<Rightarrow> attrs
      | Some k \<Rightarrow> attrs @ encodeAttribute attrMessageIntegrity
          (hmac k (stun_header msgType (length attrs + 24) tx @ attrs)))"

definition add_fingerprint :: "u16 \<Rightarrow> bytes \<Rightarrow> bool \<Rightarrow> bytes \<Rightarrow> bytes" where
  "add_fingerprint msgType tx fp attrs =
     (if fp then attrs @ encodeAttribute attrFingerprint
        (put_be32 (crc32stun (stun_header msgType (length attrs + 8) tx @ attrs) XOR stunFingerprintXor))
      else attrs)"

definition buildStunMessage ::
    "(bytes \<Rightarrow> bytes \<Rightarrow> bytes) \<Rightarrow> u16 \<Rightarrow> bytes \<Rightarrow> bytes \<Rightarrow> bytes option \<Rightarrow> bool \<Rightarrow> bytes" where
  "buildStunMessage hmac msgType attrs tx integrityKey includeFingerprint =
     (let attrs1 = add_integrity hmac msgType tx integrityKey attrs;
          attrs2 = add_fingerprint msgType tx includeFingerprint attrs1
      in stun_header msgType (length attrs2) tx @ attrs2)"

text \<open>
  \<open>fmt.Sscanf(ip, "%d.%d.%d.%d", \<dots>)\<close>: every number may follow blanks and a sign; scanning stops
  at the first mismatch and leaves the remaining variables 0.
\<close>

definition is_digit :: "char \<Rightarrow> bool" where
  "is_digit c \<longleftrightarrow> of_char c \<ge> (48 :: nat) \<and> of_char c \<le> (57 :: nat)"

definition digits_value :: "string \<Rightarrow> int" where
  "digits_value ds = foldl (\<lambda>a c. a * 10 + (of_char c - 48)) 0 ds"

definition scan_int :: "string \<Rightarrow> (int \<times> string) option" where
  "scan_int s0 =
     (let s1 = dropWhile (\<lambda>c. c = CHR '' '' \<or> of_char c = (9 :: nat)) s0;
          (neg, s2) = (case s1 of c # r \<Rightarrow> if c = CHR ''-'' then (True, r)
                         else if c = CHR ''+'' then (False, r) else (False, s1)
                       | [] \<Rightarrow> (False, []));
          ds = takeWhile is_digit s2;
          v = (if neg then - digits_value ds else digits_value ds)
      in if ds = [] \<or> v < - (2 ^ 63) \<or> 2 ^ 63 \<le> v then None else Some (v, dropWhile is_digit s2))"

fun scan_dotted :: "nat \<Rightarrow> string \<Rightarrow> int list" where
  "scan_dotted 0 s = []"
| "scan_dotted (Suc n) s =
     (case scan_int s of
        None \<Rightarrow> replicate (Suc n) 0
      | Some (v, r) \<Rightarrow> v # (case r of
            c # r' \<Rightarrow> if c = CHR ''.'' then scan_dotted n r' else replicate n 0
          | [] \<Rightarrow> replicate n 0))"

definition encodeXorRelayedAddress :: "string \<Rightarrow> int \<Rightarrow> bytes" where
  "encodeXorRelayedAddress ip port =
     (let p = scan_dotted 4 ip;
          ipNum = push_bit 24 (word_of_int (p ! 0)) OR push_bit 16 (word_of_int (p ! 1)) OR
                  push_bit 8 (word_of_int (p ! 2)) OR (word_of_int (p ! 3) :: u32)
      in [0, 1] @ put_be16 (word_of_int port XOR ucast (drop_bit 16 stunMagicCookie)) @
         put_be32 (ipNum XOR stunMagicCookie))"

definition BuildAllocateForRelay ::
    "(bytes \<Rightarrow> bytes \<Rightarrow> bytes) \<Rightarrow> bytes \<Rightarrow> bytes \<Rightarrow> bytes \<Rightarrow> bytes option \<Rightarrow> string \<Rightarrow> int \<Rightarrow> bytes" where
  "BuildAllocateForRelay hmac tx subs ssrcList key ip port =
     buildStunMessage hmac stunAllocateRequest
       (concat ([encodeAttribute attrSenderSubscriptions subs, encodeAttribute attrSsrcList ssrcList] @
          (if ip \<noteq> [] \<and> port \<noteq> 0
           then [encodeAttribute attrXorRelayedAddress (encodeXorRelayedAddress ip port)] else [])))
       tx key False"

definition binding_attrs :: "bytes \<Rightarrow> bytes \<Rightarrow> bytes \<Rightarrow> bool \<Rightarrow> (u16 \<times> bytes) list" where
  "binding_attrs tie username subs controlling =
     (if username \<noteq> [] then [(attrUsername, username)] else []) @
     [(attrPriority, put_be32 defaultICEPriority)] @
     (if controlling then [(attrIceControlling, tie)] else []) @
     (if subs \<noteq> [] then [(attrSenderSubscriptions, subs)] else [])"

definition BuildBindingRequestWithSubs ::
    "(bytes \<Rightarrow> bytes \<Rightarrow> bytes) \<Rightarrow> bytes \<Rightarrow> bytes \<Rightarrow> bytes \<Rightarrow> bytes \<Rightarrow> bytes \<Rightarrow> bool \<Rightarrow> bool \<Rightarrow> bytes" where
  "BuildBindingRequestWithSubs hmac tx tie username hmacKey subs controlling fingerprint =
     buildStunMessage hmac stunBindingRequest
       (concat (map (\<lambda>(t, d). encodeAttribute t d) (binding_attrs tie username subs controlling)))
       tx (if hmacKey \<noteq> [] then Some hmacKey else None) fingerprint"

definition BuildWhatsAppPing :: "bytes \<Rightarrow> bytes" where
  "BuildWhatsAppPing tx = stun_header whatsappPing 0 tx"

definition IsStunPacket :: "bytes \<Rightarrow> bool" where
  "IsStunPacket data = (2 \<le> length data \<and> byte_at data 0 AND 0xc0 = 0)"

definition IsRtpPacket :: "bytes \<Rightarrow> bool" where
  "IsRtpPacket data = (2 \<le> length data \<and> byte_at data 0 AND 0xc0 = 0x80)"

section \<open>Parsing responses\<close>

record stun_attribute =
  sa_type :: nat
  sa_name :: string
  sa_length :: nat
  sa_data :: bytes

record stun_info =
  si_raw_type :: nat
  si_method :: string
  si_class :: string
  si_success :: bool
  si_error :: bool
  si_error_code :: nat
  si_error_reason :: bytes
  si_conn_id :: u64
  si_tx :: string
  si_length :: nat
  si_attributes :: "stun_attribute list"

definition stunAttrNames :: "(nat \<times> string) list" where
  "stunAttrNames =
     [(0x0001, ''MAPPED-ADDRESS''), (0x0006, ''USERNAME''), (0x0008, ''MESSAGE-INTEGRITY''),
      (0x0009, ''ERROR-CODE''), (0x000a, ''UNKNOWN-ATTRIBUTES''), (0x0014, ''REALM''),
      (0x0015, ''NONCE''), (0x0019, ''REQUESTED-TRANSPORT''), (0x0020, ''XOR-MAPPED-ADDRESS''),
      (0x0024, ''PRIORITY''), (0x0025, ''USE-CANDIDATE''), (0x4000, ''SENDER-SUBSCRIPTIONS''),
      (0x4001, ''RECEIVER-SUBSCRIPTION''), (0x4002, ''SUBSCRIPTION-ACK''), (0x8022, ''SOFTWARE''),
      (0x8028, ''FINGERPRINT''), (0x8029, ''ICE-CONTROLLED''), (0x802a, ''ICE-CONTROLLING''),
      (0x4033, ''STABLE-ROUTING-CONN-ID'')]"

definition attr_name :: "nat \<Rightarrow> string" where
  "attr_name t = (case map_of stunAttrNames t of Some n \<Rightarrow> n | None \<Rightarrow> ''0x'' @ hex_pad 4 t)"

definition stun_method :: "nat \<Rightarrow> string" where
  "stun_method rawType =
     (if rawType = 0x0801 then ''wa-ping''
      else if rawType = 0x0802 then ''wa-pong''
      else let m = drop_bit 2 (rawType AND 0x3e00) OR drop_bit 1 (rawType AND 0x00e0) OR
                   (rawType AND 0x000f)
           in if m = 1 then ''binding'' else if m = 3 then ''allocate''
              else if m = 4 then ''refresh'' else if m = 6 then ''send''
              else if m = 7 then ''data'' else if m = 8 then ''create-permission''
              else if m = 9 then ''channel-bind'' else ''unknown'')"

definition stun_class :: "nat \<Rightarrow> string" where
  "stun_class rawType =
     [''request'', ''indication'', ''success'', ''error''] !
       (push_bit 1 (drop_bit 8 rawType AND 1) OR (drop_bit 4 rawType AND 1))"

text \<open>What the loop does with one attribute: append it, and pick out two attributes it knows.\<close>

definition note_attribute :: "nat \<Rightarrow> bytes \<Rightarrow> stun_info \<Rightarrow> stun_info" where
  "note_attribute t d info =
     (let i1 = info\<lparr>si_attributes := si_attributes info @
                 [\<lparr>sa_type = t, sa_name = attr_name t, sa_length = length d, sa_data = d\<rparr>]\<rparr>;
          i2 = (if t = 0x0009 \<and> 4 \<le> length d then
                  (let j = i1\<lparr>si_error_code := unat (byte_at d 2 AND 7) * 100 + unat (byte_at d 3)\<rparr>
                   in if 4 < length d then j\<lparr>si_error_reason := drop 4 d\<rparr> else j)
                else i1)
      in if t = 0x4033 \<and> si_class info = ''success'' \<and> length d = 8
         then i2\<lparr>si_conn_id := get_be64 d 0\<rparr> else i2)"

function stun_loop :: "bytes \<Rightarrow> nat \<Rightarrow> nat \<Rightarrow> stun_info \<Rightarrow> stun_info" where
  "stun_loop data msgLength offset info =
     (if offset + 4 \<le> 20 + msgLength \<and> offset + 4 \<le> length data then
        (let attrLength = unat (get_be16 data (offset + 2));
             attrEnd = offset + 4 + attrLength
         in if length data < attrEnd then info
            else stun_loop data msgLength (attrEnd + (4 - attrLength mod 4) mod 4)
                   (note_attribute (unat (get_be16 data offset))
                      (take attrLength (drop (offset + 4) data)) info))
      else info)"
  by auto
termination by (relation "measure (\<lambda>(data, _, offset, _). length data - offset)") auto

declare stun_loop.simps [simp del]

definition blank_info :: "nat \<Rightarrow> string \<Rightarrow> string \<Rightarrow> bytes \<Rightarrow> stun_info" where
  "blank_info rawType method cls data =
     \<lparr>si_raw_type = rawType, si_method = method, si_class = cls, si_success = (cls = ''success''),
      si_error = (cls = ''error''), si_error_code = 0, si_error_reason = [], si_conn_id = 0,
      si_tx = concat (map (\<lambda>b. hex_pad 2 (unat b)) (take 12 (drop 8 data))), si_length = length data, si_attributes = []\<rparr>"

definition ParseStunResponse :: "bytes \<Rightarrow> stun_info option" where
  "ParseStunResponse data =
     (if length data < 20 then None
      else let rawType = unat (get_be16 data 0) in
        if get_be32 data 4 \<noteq> stunMagicCookie then
          (if rawType = 0x0801 \<or> rawType = 0x0802
           then Some (blank_info rawType
                        (if rawType = 0x0802 then ''wa-pong'' else ''wa-ping'') ''indication'' data)
           else None)
        else Some (stun_loop data (unat (get_be16 data 2)) 20
                     (blank_info rawType (stun_method rawType) (stun_class rawType) data)))"

definition FormatStunResponse :: "stun_info \<Rightarrow> string" where
  "FormatStunResponse info =
     ''STUN '' @ si_method info @ '' '' @ si_class info @ '' (0x'' @ hex_pad 4 (si_raw_type info) @
     '', '' @ nat_text (si_length info) @ ''B)'' @
     (if si_error info \<and> si_error_code info \<noteq> 0
      then '' ERROR '' @ nat_text (si_error_code info) @
           (if si_error_reason info \<noteq> [] then '': '' @ map (\<lambda>b. char_of (unat b)) (si_error_reason info)
            else [])
      else []) @
     (if si_attributes info \<noteq> []
      then '' ['' @ join '', '' (map sa_name (si_attributes info)) @ '']'' else [])"

definition ClassifyPacket :: "bytes \<Rightarrow> string" where
  "ClassifyPacket data =
     (if length data < 2 then ''tiny('' @ nat_text (length data) @ ''B)''
      else let b0 = byte_at data 0; b1 = byte_at data 1; two = drop_bit 6 (b0 AND 0xc0) in
        if two = 0 then
          (case ParseStunResponse data of
             Some info \<Rightarrow> FormatStunResponse info
           | None \<Rightarrow> ''STUN? 0x'' @ hex_text (unat b0 * 256 + unat b1) @ '' ('' @ nat_text (length data) @ ''B)'')
        else if two = 2 then
          ''RTP/SRTP PT='' @ nat_text (unat (b1 AND 0x7f)) @ '' M='' @ nat_text (unat (drop_bit 7 b1 AND 1)) @
          '' seq='' @ nat_text (if 4 \<le> length data
                          then unat (byte_at data 2) * 256 + unat (byte_at data 3) else 0) @
          '' ('' @ nat_text (length data) @ ''B)''
        else if two = 1 then ''DTLS? 0x'' @ hex_text (unat b0) @ '' ('' @ nat_text (length data) @ ''B)''
        else ''unknown 0x'' @ hex_text (unat b0) @ '' ('' @ nat_text (length data) @ ''B)'')"

section \<open>Varints\<close>

text \<open>The decoder of the protobuf specification, as the reference.\<close>

fun decodeVarint :: "bytes \<Rightarrow> (u64 \<times> bytes) option" where
  "decodeVarint [] = None"
| "decodeVarint (b # bs) =
     (if b < 128 then Some (ucast b, bs)
      else map_option (\<lambda>(v, r). (push_bit 7 v OR ucast (b AND 127), r)) (decodeVarint bs))"

lemma mask_127: "(127 :: 'a :: len word) = mask 7" "(127 :: u8) = mask 7"
  by (simp_all add: mask_eq_exp_minus_1)

lemma bit_128: "bit (128 :: int) n \<longleftrightarrow> n = 7"
  using bit_exp_iff [where 'a = int, of 7 n] by auto

lemma varint_more_byte:
  fixes v :: u64
  shows "\<not> (ucast (v AND 127 OR 128) :: u8) < 128"
    and "(ucast ((ucast (v AND 127 OR 128) :: u8) AND 127) :: u64) = v AND 127"
proof -
  have "bit (ucast (v AND 127 OR 128) :: u8) 7"
    by (simp add: bit_simps)
  moreover have "\<not> bit b 7" if "b < 128" for b :: u8
  proof -
    have "b AND mask 7 = b" using that by (intro less_mask_eq) simp
    then show ?thesis by (metis bit_and_iff bit_mask_iff less_irrefl)
  qed
  ultimately show "\<not> (ucast (v AND 127 OR 128) :: u8) < 128" by blast
  show "(ucast ((ucast (v AND 127 OR 128) :: u8) AND 127) :: u64) = v AND 127"
    unfolding mask_127 by (rule bit_word_eqI) (auto simp: bit_simps bit_128)
qed

lemma varint_join: "push_bit 7 (drop_bit 7 v) OR (v AND 127) = (v :: u64)"
  unfolding mask_127 by (rule bit_word_eqI) (auto simp: bit_simps)

lemma varint_last:
  fixes v :: u64
  assumes "v \<le> 127"
  shows "(ucast (v AND 127) :: u8) < 128" and "(ucast (ucast (v AND 127) :: u8) :: u64) = v"
proof -
  have n: "unat v \<le> 127" using assms by (simp add: word_le_nat_alt)
  then have "v < 2 ^ 7" by (simp add: word_less_nat_alt)
  then have v: "v AND 127 = v" unfolding mask_127 by (rule less_mask_eq)
  show "(ucast (v AND 127) :: u8) < 128"
    unfolding v using n by (simp add: word_less_nat_alt unsigned_ucast_eq take_bit_eq_mod)
  show "(ucast (ucast (v AND 127) :: u8) :: u64) = v"
    unfolding v using n by (intro word_unat_eq_iff [THEN iffD2])
      (simp add: unsigned_ucast_eq take_bit_eq_mod unat_mod)
qed

lemma decode_encodeVarint:
  "decodeVarint (encodeVarint v @ rest) = Some (v, rest)"
proof (induction v rule: encodeVarint.induct)
  case (1 v)
  show ?case
  proof (cases "v \<le> 127")
    case True
    then show ?thesis using varint_last [OF True] by (subst encodeVarint.simps) simp
  next
    case False
    then show ?thesis
      using 1 [OF False] varint_more_byte [of v] varint_join [of v]
      by (subst encodeVarint.simps) simp
  qed
qed

section \<open>What is built is what is parsed\<close>

definition enc_attrs :: "(u16 \<times> bytes) list \<Rightarrow> bytes" where
  "enc_attrs as = concat (map (\<lambda>(t, d). encodeAttribute t d) as)"

lemma enc_attrs_simps [simp]:
  "enc_attrs [] = []" "enc_attrs ((t, d) # as) = encodeAttribute t d @ enc_attrs as"
  "enc_attrs (as @ bs) = enc_attrs as @ enc_attrs bs"
  by (simp_all add: enc_attrs_def)

lemma length_encodeAttribute:
  "length (encodeAttribute t d) = 4 + length d + (4 - length d mod 4) mod 4"
  by (simp add: encodeAttribute_def Let_def)

lemma length_stun_header [simp]: "length (stun_header t n tx) = 20"
  by (simp add: stun_header_def)

lemma unat_length_16: "n < 65536 \<Longrightarrow> unat (word_of_nat n :: u16) = n"
  by (simp add: unat_of_nat)

definition note_all :: "(u16 \<times> bytes) list \<Rightarrow> stun_info \<Rightarrow> stun_info" where
  "note_all as info = foldl (\<lambda>i (t, d). note_attribute (unat t) d i) info as"

lemma note_all_simps [simp]:
  "note_all [] info = info"
  "note_all ((t, d) # as) info = note_all as (note_attribute (unat t) d info)"
  by (simp_all add: note_all_def)

lemma stun_loop_attrs:
  assumes "length pre = off" and "\<forall>(t, d) \<in> set as. length d < 65536"
    and "20 + ml = length (pre @ enc_attrs as)"
  shows "stun_loop (pre @ enc_attrs as) ml off info = note_all as info"
  using assms
proof (induction as arbitrary: pre off info)
  case Nil
  then show ?case by (subst stun_loop.simps) simp
next
  case (Cons a as)
  obtain t d where a: "a = (t, d)" by (cases a)
  let ?pad = "(4 - length d mod 4) mod 4" and ?data = "pre @ enc_attrs (a # as)"
  have e: "?data = pre @ put_be16 t @ put_be16 (word_of_nat (length d)) @ d @ replicate ?pad 0 @ enc_attrs as"
    by (simp add: a encodeAttribute_def Let_def)
  have t: "get_be16 ?data off = t"
    unfolding e using Cons.prems(1) by (rule get_be16_at)
  have "get_be16 ((pre @ put_be16 t) @ put_be16 (word_of_nat (length d)) @ d @ replicate ?pad 0 @
      enc_attrs as) (off + 2) = word_of_nat (length d)"
    using Cons.prems(1) by (intro get_be16_at) simp
  then have l: "unat (get_be16 ?data (off + 2)) = length d"
    unfolding e using Cons.prems(2) a by (simp add: unat_length_16)
  have d: "take (length d) (drop (off + 4) ?data) = d"
    unfolding e using Cons.prems(1) by simp
  have len: "length ?data = off + 4 + length d + ?pad + length (enc_attrs as)"
    using Cons.prems(1) by (simp add: a length_encodeAttribute)
  have "stun_loop ((pre @ encodeAttribute t d) @ enc_attrs as) ml (off + 4 + length d + ?pad)
      (note_attribute (unat t) d info) = note_all as (note_attribute (unat t) d info)"
    using Cons.prems by (intro Cons.IH) (auto simp: a length_encodeAttribute)
  then have ih: "stun_loop ?data ml (off + 4 + length d + ?pad) (note_attribute (unat t) d info) =
      note_all (a # as) info"
    by (simp add: a)
  have c: "off + 4 \<le> 20 + ml \<and> off + 4 \<le> length ?data" "\<not> length ?data < off + 4 + length d"
    using Cons.prems(3) len by simp_all
  show ?case
    by (subst stun_loop.simps) (simp only: c t l d Let_def ih if_True if_False simp_thms)
qed

lemma note_attribute_keeps [simp]:
  "si_raw_type (note_attribute t d i) = si_raw_type i" "si_length (note_attribute t d i) = si_length i"
  "si_tx (note_attribute t d i) = si_tx i" "si_class (note_attribute t d i) = si_class i"
  "map (\<lambda>a. (sa_type a, sa_data a)) (si_attributes (note_attribute t d i)) =
     map (\<lambda>a. (sa_type a, sa_data a)) (si_attributes i) @ [(t, d)]"
  by (simp_all add: note_attribute_def Let_def)

lemma note_all_keeps [simp]:
  "si_raw_type (note_all as i) = si_raw_type i" "si_length (note_all as i) = si_length i"
  "si_tx (note_all as i) = si_tx i"
  "map (\<lambda>a. (sa_type a, sa_data a)) (si_attributes (note_all as i)) =
     map (\<lambda>a. (sa_type a, sa_data a)) (si_attributes i) @ map (\<lambda>(t, d). (unat t, d)) as"
  by (induction as arbitrary: i) auto

text \<open>The attributes buildStunMessage adds to those it is given.\<close>

definition sealed_attrs ::
    "(bytes \<Rightarrow> bytes \<Rightarrow> bytes) \<Rightarrow> u16 \<Rightarrow> bytes \<Rightarrow> bytes option \<Rightarrow> bool \<Rightarrow> (u16 \<times> bytes) list
     \<Rightarrow> (u16 \<times> bytes) list" where
  "sealed_attrs hmac typ tx key fp as =
     (let as1 = as @ (case key of None \<Rightarrow> [] | Some k \<Rightarrow> [(attrMessageIntegrity,
            hmac k (stun_header typ (length (enc_attrs as) + 24) tx @ enc_attrs as))])
      in as1 @ (if fp then [(attrFingerprint, put_be32 (crc32stun
            (stun_header typ (length (enc_attrs as1) + 8) tx @ enc_attrs as1) XOR stunFingerprintXor))]
          else []))"

lemma build_sealed:
  "buildStunMessage hmac typ (enc_attrs as) tx key fp =
     stun_header typ (length (enc_attrs (sealed_attrs hmac typ tx key fp as))) tx @
     enc_attrs (sealed_attrs hmac typ tx key fp as)"
  by (simp add: buildStunMessage_def sealed_attrs_def add_integrity_def add_fingerprint_def Let_def
      add.assoc split: option.split)

lemma enc_attrs_bound: "(t, d) \<in> set as \<Longrightarrow> length d \<le> length (enc_attrs as)"
  by (induction as) (auto simp: length_encodeAttribute)

text \<open>C25: a message built from attributes is parsed back into exactly these attributes, in order,
  followed by the message integrity and fingerprint the builder adds; the message type, the
  transaction id and the length come back too.  The only bound is the one the 16-bit length
  field of the format sets.\<close>

theorem stun_build_parse:
  assumes "length tx = 12" and "length (enc_attrs (sealed_attrs hmac typ tx key fp as)) < 65536"
  shows "\<exists>info. ParseStunResponse (buildStunMessage hmac typ (enc_attrs as) tx key fp) = Some info \<and>
    si_raw_type info = unat typ \<and>
    si_tx info = concat (map (\<lambda>b. hex_pad 2 (unat b)) tx) \<and>
    si_length info = length (buildStunMessage hmac typ (enc_attrs as) tx key fp) \<and>
    map (\<lambda>a. (sa_type a, sa_data a)) (si_attributes info) =
      map (\<lambda>(t, d). (unat t, d)) (sealed_attrs hmac typ tx key fp as)"
proof -
  let ?s = "sealed_attrs hmac typ tx key fp as"
  let ?n = "length (enc_attrs ?s)"
  let ?m = "stun_header typ ?n tx @ enc_attrs ?s"
  let ?b = "blank_info (unat typ) (stun_method (unat typ)) (stun_class (unat typ)) ?m"
  have t: "get_be16 ?m 0 = typ"
    unfolding stun_header_def append_assoc by (rule get_be16_put)
  have l: "unat (get_be16 ?m 2) = ?n"
    using assms(2) get_be16_at [of "put_be16 typ" 2 "word_of_nat ?n"]
    by (simp add: stun_header_def unat_length_16)
  have c: "get_be32 ?m 4 = stunMagicCookie"
    using get_be32_at [of "put_be16 typ @ put_be16 (word_of_nat ?n)" 4 stunMagicCookie]
    by (simp add: stun_header_def)
  have x: "drop 8 (stun_header typ n tx) = tx" for n
    using assms(1) by (simp add: stun_header_def)
  have "\<forall>(t, d) \<in> set ?s. length d < 65536"
    using enc_attrs_bound assms(2) by fastforce
  then have "stun_loop ?m ?n 20 ?b = note_all ?s ?b"
    by (intro stun_loop_attrs) simp_all
  then have "ParseStunResponse ?m = Some (note_all ?s ?b)"
    by (simp only: ParseStunResponse_def Let_def t l c) simp
  then show ?thesis
    unfolding build_sealed by (simp add: blank_info_def x assms(1))
qed

theorem stun_build_parse_witness:
  "\<exists>info. ParseStunResponse (buildStunMessage (\<lambda>k m. take 20 (m @ k)) stunBindingRequest
      (enc_attrs [(attrUsername, [1, 2, 3]), (attrPriority, [0, 0, 0, 9])]) (replicate 12 7) None False)
      = Some info \<and> map (\<lambda>a. (sa_type a, sa_data a)) (si_attributes info) =
      [(6, [1, 2, 3]), (0x24, [0, 0, 0, 9])]"
proof -
  let ?as = "[(attrUsername, [1, 2, 3]), (attrPriority, [0, 0, 0, 9])] :: (u16 \<times> bytes) list"
  have s: "sealed_attrs h t x None False ?as = ?as" for h t x
    by (simp add: sealed_attrs_def)
  have l: "length (enc_attrs ?as) < 65536"
    by (simp add: length_encodeAttribute)
  have m: "map (\<lambda>(t, d). (unat t, d)) ?as = [(6, [1, 2, 3]), (0x24, [0, 0, 0, 9])]"
    by (simp add: attrUsername_def attrPriority_def)
  have "length (replicate 12 (7 :: u8)) = 12" by simp
  from stun_build_parse [OF this, of "\<lambda>k m. take 20 (m @ k)" stunBindingRequest None False ?as,
      unfolded s m, OF l]
  show ?thesis by (elim exE conjE) (intro exI conjI, assumption+)
qed

section \<open>What the subscription list says\<close>

text \<open>
  The protobuf wire format as a reference: a field number with a varint (\<open>Inl\<close>) or with a
  length-delimited value (\<open>Inr\<close>).
\<close>

fun decode_fields :: "nat \<Rightarrow> bytes \<Rightarrow> (u64 \<times> (u64 + bytes)) list option" where
  "decode_fields n [] = Some []"
| "decode_fields 0 (b # bs) = None"
| "decode_fields (Suc n) (b # bs) =
     (case decodeVarint (b # bs) of
        None \<Rightarrow> None
      | Some (tag, r) \<Rightarrow>
          (case decodeVarint r of
             None \<Rightarrow> None
           | Some (v, r') \<Rightarrow>
               if tag AND 7 = 0 then map_option (Cons (drop_bit 3 tag, Inl v)) (decode_fields n r')
               else if tag AND 7 = 2 \<and> unat v \<le> length r'
               then map_option (Cons (drop_bit 3 tag, Inr (take (unat v) r')))
                      (decode_fields n (drop (unat v) r'))
               else None))"

lemma encodeVarint_not_nil [simp]: "encodeVarint v \<noteq> []"
  by (subst encodeVarint.simps) simp

lemma decode_fields_step:
  "bs \<noteq> [] \<Longrightarrow> decode_fields (Suc n) bs =
     (case decodeVarint bs of
        None \<Rightarrow> None
      | Some (tag, r) \<Rightarrow>
          (case decodeVarint r of
             None \<Rightarrow> None
           | Some (v, r') \<Rightarrow>
               if tag AND 7 = 0 then map_option (Cons (drop_bit 3 tag, Inl v)) (decode_fields n r')
               else if tag AND 7 = 2 \<and> unat v \<le> length r'
               then map_option (Cons (drop_bit 3 tag, Inr (take (unat v) r')))
                      (decode_fields n (drop (unat v) r'))
               else None))"
  by (cases bs) simp_all

lemma decode_varint_field:
  assumes "f \<in> {1, 2, 3, 5, 6}"
  shows "decode_fields (Suc n) (encodeProtobufVarintField f v @ rest) =
    map_option (Cons (word_of_nat f, Inl v)) (decode_fields n rest)"
  using assms
  by (auto simp: encodeProtobufVarintField_def decode_fields_step decode_encodeVarint)

lemma unat_drop_7: "unat (drop_bit 7 (v :: u64)) = unat v div 128"
  unfolding unat_drop_bit_eq by (simp add: drop_bit_eq_div)

lemma encodeVarint_length: "unat v < 128 ^ Suc k \<Longrightarrow> length (encodeVarint v) \<le> Suc k"
proof (induction k arbitrary: v)
  case 0
  then show ?case by (subst encodeVarint.simps) (simp add: word_le_nat_alt)
next
  case (Suc k)
  have "unat (drop_bit 7 v) < 128 ^ Suc k"
    unfolding unat_drop_7 using Suc.prems by (intro less_mult_imp_div_less) (simp add: mult.commute)
  then show ?case
    using Suc.IH by (subst encodeVarint.simps) simp
qed

lemma encodeVarint_length_10: "length (encodeVarint v) \<le> 10"
proof -
  have "unat v < 2 ^ 64" using unsigned_less [of v] by simp
  then have "unat v < 128 ^ Suc 9" by simp
  then show ?thesis using encodeVarint_length by fastforce
qed

lemma decode_delimited:
  assumes "length d < 2 ^ 64"
  shows "decode_fields (Suc n) (encodeProtobufLengthDelimited 1 d @ rest) =
    map_option (Cons (1, Inr d)) (decode_fields n rest)"
proof -
  have "unat (word_of_nat (length d) :: u64) = length d"
    using assms by (simp add: unat_of_nat)
  then show ?thesis
    by (simp add: encodeProtobufLengthDelimited_def decode_fields_step decode_encodeVarint)
qed

definition ssrc_fields :: "int \<Rightarrow> u32 \<Rightarrow> bytes" where
  "ssrc_fields pid s = encodeProtobufVarintField 1 (word_of_int pid) @
     encodeProtobufVarintField 2 1 @ encodeProtobufVarintField 3 (ucast s)"

lemma ssrc_fields_length: "length (ssrc_fields pid s) < 2 ^ 64"
proof -
  have "length (encodeProtobufVarintField f v) \<le> 20" for f v
    using encodeVarint_length_10 [of "push_bit 3 (word_of_nat f)"] encodeVarint_length_10 [of v]
    by (simp add: encodeProtobufVarintField_def)
  from this [of 1 "word_of_int pid"] this [of 2 1] this [of 3 "ucast s"]
  have "length (ssrc_fields pid s) \<le> 60" unfolding ssrc_fields_def length_append by linarith
  then show ?thesis by simp
qed

lemma decode_ssrc_fields:
  "decode_fields 3 (ssrc_fields pid s) = Some [(1, Inl (word_of_int pid)), (2, Inl 1), (3, Inl (ucast s))]"
  using decode_varint_field [of 3 0 "ucast s" "[]"]
  by (simp add: ssrc_fields_def numeral_3_eq_3 decode_varint_field)

lemma ssrc_entry_fields: "ssrc_entry pid s = encodeProtobufLengthDelimited 1 (ssrc_fields pid s)"
  by (simp only: ssrc_entry_def ssrc_fields_def)

lemma decode_entries:
  "decode_fields (length (filter (\<lambda>s. s \<noteq> 0) ss) + n) (concat (ssrc_entries pid ss) @ rest) =
     map_option ((@) (map (\<lambda>s. (1, Inr (ssrc_fields pid s))) (filter (\<lambda>s. s \<noteq> 0) ss)))
       (decode_fields n rest)"
proof (induction ss)
  case Nil
  then show ?case by (simp add: option.map_id [unfolded id_def])
next
  case (Cons s ss)
  then show ?case
    using ssrc_fields_length [of pid s]
    by (simp add: ssrc_entry_fields decode_delimited option.map_comp o_def del: One_nat_def)
qed

text \<open>C26: a protobuf reader of the subscription list sent to a relay sees one entry per non-zero
  SSRC, own ones before those of the peer and none lost or added, and every entry carries the
  participant id, the marker 1 and the SSRC.\<close>

theorem subscription_list_content:
  "decode_fields (length (filter (\<lambda>s. s \<noteq> 0) selfs) + length (filter (\<lambda>s. s \<noteq> 0) peers))
     (BuildSSRCSubscriptionList selfs peers selfPid peerPid) =
   Some (map (\<lambda>s. (1, Inr (ssrc_fields selfPid s))) (filter (\<lambda>s. s \<noteq> 0) selfs) @
         map (\<lambda>s. (1, Inr (ssrc_fields peerPid s))) (filter (\<lambda>s. s \<noteq> 0) peers)) \<and>
   decode_fields 3 (ssrc_fields pid s) =
     Some [(1, Inl (word_of_int pid)), (2, Inl 1), (3, Inl (ucast s))]"
  using decode_entries [of peers 0 peerPid "[]"] decode_ssrc_fields
  by (simp add: BuildSSRCSubscriptionList_def decode_entries)

end
