(* ===== verification/RelayMgr.thy ===== *)
theory RelayMgr
  imports Stun
begin

text \<open>
  The relay connections of a call: src/internal/voip/transport/sctprelay.go.

  A connection is a cell of a heap and the manager's map sends connection ids to cells, because
  callbacks and timers keep pointers to connections that have left the map.  pion/webrtc is not
  modelled: what its calls return (\<open>connect_outcome\<close>) and when its callbacks run are events.
  What is written to a data channel is appended to \<open>rm_sent\<close>.
\<close>

unbundle bit_operations_syntax

datatype conn_state = relayStateConnecting | relayStateOpen | relayStateClosed | relayStateFailed

record relay_config =
  rc_ip :: string
  rc_port :: int
  rc_token :: string
  rc_auth_token :: string
  rc_raw_auth_token :: "bytes option"
  rc_raw_token :: "bytes option"
  rc_key :: string
  rc_relay_id :: int
  rc_name :: string
  rc_auth_token_id :: string

record relay_conn =
  cn_state :: conn_state
  cn_pc :: bool
  cn_channel :: bool
  cn_id :: string
  cn_info :: relay_config
  cn_ufrag :: string
  cn_remote :: string        \<comment> \<open>the SDP given to SetRemoteDescription\<close>
  cn_keepalive :: bool
  cn_stopped :: bool

record relay_mgr =
  rm_heap :: "relay_conn list"
  rm_conns :: "(string, nat) gomap"
  rm_audio :: u32
  rm_sub :: u32
  rm_sent :: "(nat \<times> bytes) list"

definition NewSctpRelayManager :: relay_mgr where
  "NewSctpRelayManager = \<lparr>rm_heap = [], rm_conns = [], rm_audio = 0, rm_sub = 0, rm_sent = []\<rparr>"

definition SetSsrc :: "relay_mgr \<Rightarrow> u32 \<Rightarrow> relay_mgr" where
  "SetSsrc m s = m\<lparr>rm_audio := s\<rparr>"

definition SetSubscriptionSsrc :: "relay_mgr \<Rightarrow> u32 \<Rightarrow> relay_mgr" where
  "SetSubscriptionSsrc m s = m\<lparr>rm_sub := s\<rparr>"

definition WARelayPort :: int where "WARelayPort = 3480"

definition connID :: "string \<Rightarrow> int \<Rightarrow> string \<Rightarrow> string" where
  "connID ip port authTokenID =
     (let base = ip @ '':'' @ int_text port
      in if authTokenID \<noteq> [] then base @ ''#'' @ authTokenID else base)"

definition upd_conn :: "relay_mgr \<Rightarrow> nat \<Rightarrow> (relay_conn \<Rightarrow> relay_conn) \<Rightarrow> relay_mgr" where
  "upd_conn m p f =
     (if p < length (rm_heap m) then m\<lparr>rm_heap := (rm_heap m)[p := f (rm_heap m ! p)]\<rparr> else m)"

section \<open>Sending\<close>

definition sendRaw :: "relay_mgr \<Rightarrow> nat \<Rightarrow> bytes \<Rightarrow> relay_mgr" where
  "sendRaw m p data =
     (let c = rm_heap m ! p
      in if p < length (rm_heap m) \<and> cn_channel c \<and> cn_state c = relayStateOpen
         then m\<lparr>rm_sent := rm_sent m @ [(p, data)]\<rparr> else m)"

definition ascii :: "string \<Rightarrow> bytes" where
  "ascii s = map (\<lambda>c. word_of_nat (of_char c)) s"

text \<open>The messages of one \<open>send()\<close> of sendStunRegistration; \<open>rnd i\<close> is the randomness of message \<open>i\<close>.\<close>

definition registration_messages ::
    "(bytes \<Rightarrow> bytes \<Rightarrow> bytes) \<Rightarrow> (nat \<Rightarrow> bytes \<times> bytes) \<Rightarrow> relay_mgr \<Rightarrow> relay_conn \<Rightarrow> bytes list" where
  "registration_messages hmac rnd m c =
     (let info = cn_info c;
          remoteUfrag = (if rc_auth_token info = [] then rc_token info else rc_auth_token info);
          localUfrag = cn_ufrag c;
          key = ascii (rc_key info);
          ssrc = (if rm_sub m = 0 then rm_audio m else rm_sub m)
      in if remoteUfrag = [] \<or> cn_state c \<noteq> relayStateOpen \<or> \<not> cn_channel c \<or> ssrc = 0 then []
         else let subs = BuildSenderSubscriptions ssrc in
           (if localUfrag \<noteq> []
            then [BuildBindingRequestWithSubs hmac (fst (rnd 0)) (snd (rnd 0))
                    (ascii (remoteUfrag @ '':'' @ localUfrag)) key subs True True] else []) @
           (if rc_token info \<noteq> [] \<and> rc_token info \<noteq> remoteUfrag \<and> localUfrag \<noteq> []
            then [BuildBindingRequestWithSubs hmac (fst (rnd 1)) (snd (rnd 1))
                    (ascii (rc_token info @ '':'' @ localUfrag)) key subs True True] else []) @
           [BuildBindingRequestWithSubs hmac (fst (rnd 2)) [] [] [] subs False False] @
           (case rc_raw_token info of
              None \<Rightarrow> []
            | Some raw \<Rightarrow>
                if raw = [] then []
                else [BuildAllocateForRelay hmac (fst (rnd 3)) raw
                        (BuildSSRCSubscriptionList [rm_audio m]
                           (if rm_sub m \<noteq> 0 then [rm_sub m] else []) 0 0)
                        (Some key) (rc_ip info) (rc_port info)]))"

definition send_all :: "relay_mgr \<Rightarrow> nat \<Rightarrow> bytes list \<Rightarrow> relay_mgr" where
  "send_all m p msgs = foldl (\<lambda>m d. sendRaw m p d) m msgs"

text \<open>
  sendStunRegistration sends at once and again after 50, 150, 500 and 3000 ms; the later ones
  are \<open>ResendTimer\<close> events.
\<close>

definition sendStunRegistration ::
    "(bytes \<Rightarrow> bytes \<Rightarrow> bytes) \<Rightarrow> (nat \<Rightarrow> bytes \<times> bytes) \<Rightarrow> relay_mgr \<Rightarrow> nat \<Rightarrow> relay_mgr" where
  "sendStunRegistration hmac rnd m p = send_all m p (registration_messages hmac rnd m (rm_heap m ! p))"

definition startKeepalive :: "bytes \<Rightarrow> relay_mgr \<Rightarrow> nat \<Rightarrow> relay_mgr" where
  "startKeepalive tx m p =
     upd_conn (sendRaw m p (BuildWhatsAppPing tx)) p (\<lambda>c. c\<lparr>cn_keepalive := True\<rparr>)"

definition open_conns :: "relay_mgr \<Rightarrow> nat list" where
  "open_conns m = filter (\<lambda>p. cn_state (rm_heap m ! p) = relayStateOpen) (map snd (rm_conns m))"

definition Broadcast :: "relay_mgr \<Rightarrow> bytes \<Rightarrow> relay_mgr" where
  "Broadcast m data = foldl (\<lambda>m p. sendRaw m p data) m (map snd (rm_conns m))"

definition ResendSubscriptions ::
    "(bytes \<Rightarrow> bytes \<Rightarrow> bytes) \<Rightarrow> (nat \<Rightarrow> bytes \<times> bytes) \<Rightarrow> relay_mgr \<Rightarrow> relay_mgr" where
  "ResendSubscriptions hmac rnd m =
     foldl (\<lambda>m p. if cn_state (rm_heap m ! p) = relayStateOpen \<and> cn_channel (rm_heap m ! p)
                  then sendStunRegistration hmac rnd m p else m) m (map snd (rm_conns m))"

definition HasConnection :: "relay_mgr \<Rightarrow> bool" where
  "HasConnection m = (\<exists>(k, p) \<in> set (rm_conns m). cn_state (rm_heap m ! p) = relayStateOpen)"

definition ConnectedCount :: "relay_mgr \<Rightarrow> nat" where
  "ConnectedCount m = length (open_conns m)"

section \<open>Ending connections\<close>

text \<open>Closing the channel and the peer connection is left to pion; it may call back later.\<close>

definition teardown :: "relay_mgr \<Rightarrow> nat \<Rightarrow> relay_mgr" where
  "teardown m p = upd_conn m p (\<lambda>c. c\<lparr>cn_stopped := True, cn_keepalive := False\<rparr>)"

definition failConnection :: "relay_mgr \<Rightarrow> nat \<Rightarrow> relay_mgr" where
  "failConnection m p =
     (if cn_state (rm_heap m ! p) = relayStateFailed then m
      else let m1 = upd_conn m p (\<lambda>c. c\<lparr>cn_state := relayStateFailed\<rparr>);
               m2 = m1\<lparr>rm_conns := gm_del (cn_id (rm_heap m ! p)) (rm_conns m1)\<rparr>
           in teardown m2 p)"

definition closeConnection :: "relay_mgr \<Rightarrow> string \<Rightarrow> relay_mgr" where
  "closeConnection m i =
     (case gm_get (rm_conns m) i of
        None \<Rightarrow> m
      | Some p \<Rightarrow>
          (let m1 = upd_conn m p (\<lambda>c. c\<lparr>cn_state := relayStateClosed\<rparr>);
               m2 = m1\<lparr>rm_conns := gm_del i (rm_conns m1)\<rparr>
           in teardown m2 p))"

definition relay_cleanup :: "relay_mgr \<Rightarrow> relay_mgr" where
  "relay_cleanup m =
     (let m1 = m\<lparr>rm_conns := [], rm_audio := 0, rm_sub := 0\<rparr>
      in foldl teardown m1 (map snd (rm_conns m)))"

section \<open>The munged session description\<close>

text \<open>
  regexp.ReplaceAllString for the patterns of this file: a literal prefix, followed by a
  nonempty run of characters other than CR and LF, and perhaps by a line end.  A matcher
  returns the length of the match at the start of the text.  A \<open>$\<close> in a replacement, which
  regexp would expand, is taken literally.
\<close>

definition eol :: "char \<Rightarrow> bool" where
  "eol c \<longleftrightarrow> of_char c = (10 :: nat) \<or> of_char c = (13 :: nat)"

definition match_lit :: "string \<Rightarrow> string \<Rightarrow> nat option" where
  "match_lit p s = (if take (length p) s = p then Some (length p) else None)"

definition match_line :: "string \<Rightarrow> string \<Rightarrow> nat option" where
  "match_line p s =
     (let run = takeWhile (\<lambda>c. \<not> eol c) (drop (length p) s)
      in if take (length p) s = p \<and> run \<noteq> [] then Some (length p + length run) else None)"

definition crlf_length :: "string \<Rightarrow> nat" where
  "crlf_length s =
     (case s of [] \<Rightarrow> 0
      | c # r \<Rightarrow> if of_char c = (10 :: nat) then 1
                 else if of_char c = (13 :: nat) \<and> r \<noteq> [] \<and> of_char (hd r) = (10 :: nat) then 2 else 0)"

definition match_line_nl :: "string \<Rightarrow> string \<Rightarrow> nat option" where
  "match_line_nl p s =
     (case match_line p s of
        None \<Rightarrow> None
      | Some n \<Rightarrow> if crlf_length (drop n s) = 0 then None else Some (n + crlf_length (drop n s)))"

definition match_end_candidates :: "string \<Rightarrow> nat option" where
  "match_end_candidates s =
     (case match_lit ''a=end-of-candidates'' s of
        None \<Rightarrow> None
      | Some n \<Rightarrow>
          (let r = drop n s;
               cr = (if r \<noteq> [] \<and> of_char (hd r) = (13 :: nat) then 1 else 0);
               lf = (if drop cr r \<noteq> [] \<and> of_char (hd (drop cr r)) = (10 :: nat) then 1 else 0)
           in Some (n + cr + lf)))"

function replace_all :: "(string \<Rightarrow> nat option) \<Rightarrow> string \<Rightarrow> string \<Rightarrow> string" where
  "replace_all m repl [] = []"
| "replace_all m repl (c # s) =
     (case m (c # s) of
        None \<Rightarrow> c # replace_all m repl s
      | Some n \<Rightarrow> repl @ replace_all m repl (drop (n - 1) s))"
  by pat_completeness auto
termination by (relation "measure (\<lambda>(_, _, s). length s)") auto

text \<open>\<open>extractFirst(reUfrag, sdp)\<close>: the text after the first \<open>a=ice-ufrag:\<close> that has any.\<close>

fun extract_ufrag :: "string \<Rightarrow> string" where
  "extract_ufrag [] = []"
| "extract_ufrag (c # s) =
     (case match_line ''a=ice-ufrag:'' (c # s) of
        None \<Rightarrow> extract_ufrag s
      | Some n \<Rightarrow> drop (length ''a=ice-ufrag:'') (take n (c # s)))"

definition WADTLSFingerprint :: string where
  "WADTLSFingerprint = ''sha-256 F9:CA:0C:98:A3:CC:71:D6:42:CE:5A:E2:53:D2:15:20:D3:1B:BA:D8:57:A4:F0:AF:BE:0B:FB:F3:6B:0C:A0:68''"

definition crlf :: string where "crlf = [char_of (13 :: nat), char_of (10 :: nat)]"

definition relay_candidate :: "relay_config \<Rightarrow> string" where
  "relay_candidate info = ''a=candidate:2 1 udp 2122262783 '' @ rc_ip info @ '' '' @
     int_text (rc_port info) @ '' typ host generation 0 network-cost 5''"

definition modifySdpForRelay :: "string \<Rightarrow> relay_config \<Rightarrow> string" where
  "modifySdpForRelay sdp info =
     (let iceUfrag = (if rc_auth_token info = [] then rc_token info else rc_auth_token info);
          o1 = replace_all (match_lit ''a=setup:actpass'') ''a=setup:passive'' sdp;
          o2 = replace_all (match_line ''a=ice-ufrag:'') (''a=ice-ufrag:'' @ iceUfrag) o1;
          o3 = replace_all (match_line ''a=ice-pwd:'') (''a=ice-pwd:'' @ rc_key info) o2;
          o4 = replace_all (match_line ''a=fingerprint:'') (''a=fingerprint:'' @ WADTLSFingerprint) o3;
          o5 = replace_all (match_line ''a=max-message-size:'') ''a=max-message-size:1500'' o4;
          o6 = replace_all (match_line_nl ''a=ice-options:'') [] o5;
          o7 = replace_all (match_line_nl ''a=candidate:'') [] o6;
          o8 = replace_all match_end_candidates [] o7
      in o8 @ relay_candidate info @ crlf @ ''a=end-of-candidates'' @ crlf)"

section \<open>Connecting\<close>

text \<open>How far pion lets connectToRelay come; the last two carry the SDP of the local offer.\<close>

datatype connect_outcome =
    PeerConnectionFails | DataChannelFails | OfferFails | RemoteDescriptionFails string
  | Offered string

definition connectToRelay :: "relay_mgr \<Rightarrow> relay_config \<Rightarrow> connect_outcome \<Rightarrow> relay_mgr" where
  "connectToRelay m info out =
     (let i = connID (rc_ip info) (rc_port info) (rc_auth_token_id info);
          p = length (rm_heap m);
          c = \<lparr>cn_state = relayStateConnecting, cn_pc = False, cn_channel = False, cn_id = i,
               cn_info = info, cn_ufrag = [], cn_remote = [], cn_keepalive = False, cn_stopped = False\<rparr>;
          m1 = m\<lparr>rm_heap := rm_heap m @ [c], rm_conns := gm_put i p (rm_conns m)\<rparr>;
          pc = (\<lambda>m. upd_conn m p (\<lambda>c. c\<lparr>cn_pc := True\<rparr>));
          ch = (\<lambda>m. upd_conn m p (\<lambda>c. c\<lparr>cn_channel := True\<rparr>));
          uf = (\<lambda>sdp m. upd_conn m p (\<lambda>c. c\<lparr>cn_ufrag := extract_ufrag sdp,
                  cn_remote := modifySdpForRelay sdp info\<rparr>))
      in case out of
           PeerConnectionFails \<Rightarrow> failConnection m1 p
         | DataChannelFails \<Rightarrow> failConnection (pc m1) p
         | OfferFails \<Rightarrow> failConnection (ch (pc m1)) p
         | RemoteDescriptionFails sdp \<Rightarrow> failConnection (uf sdp (ch (pc m1))) p
         | Offered sdp \<Rightarrow> uf sdp (ch (pc m1)))"

definition with_port :: "relay_config \<Rightarrow> relay_config" where
  "with_port r = (if rc_port r = 0 then r\<lparr>rc_port := WARelayPort\<rparr> else r)"

text \<open>
  ConfigureRelays starts one goroutine per relay whose id is not registered and waits for them.
  Run one after the other here; the event machine below also lets them interleave.
\<close>

definition ConfigureRelays :: "relay_mgr \<Rightarrow> (relay_config \<times> connect_outcome) list \<Rightarrow> relay_mgr" where
  "ConfigureRelays m rs =
     foldl (\<lambda>m (r0, out).
       let r = with_port r0
       in if gm_has (rm_conns m) (connID (rc_ip r) (rc_port r) (rc_auth_token_id r)) then m
          else connectToRelay m r out) m rs"

section \<open>Callbacks and timers\<close>

datatype relay_event =
    EvConfigure "(relay_config \<times> connect_outcome) list"
  | EvConnect relay_config connect_outcome         \<comment> \<open>one goroutine of ConfigureRelays\<close>
  | EvOpen nat "nat \<Rightarrow> bytes \<times> bytes" bytes      \<comment> \<open>channel.OnOpen\<close>
  | EvClose nat                                     \<comment> \<open>channel.OnClose\<close>
  | EvIceFailed nat                                 \<comment> \<open>ICE failed or disconnected\<close>
  | EvTimeout nat                                   \<comment> \<open>relayConnectionTimeout\<close>
  | EvResendTimer nat "nat \<Rightarrow> bytes \<times> bytes"
  | EvKeepalive nat bytes
  | EvBroadcast bytes
  | EvResendSubscriptions "nat \<Rightarrow> bytes \<times> bytes"
  | EvSetSsrc u32
  | EvSetSubscriptionSsrc u32
  | EvCleanup

definition on_open ::
    "(bytes \<Rightarrow> bytes \<Rightarrow> bytes) \<Rightarrow> relay_mgr \<Rightarrow> nat \<Rightarrow> (nat \<Rightarrow> bytes \<times> bytes) \<Rightarrow> bytes \<Rightarrow> relay_mgr" where
  "on_open hmac m p rnd tx =
     (let m1 = upd_conn m p (\<lambda>c. c\<lparr>cn_state := relayStateOpen\<rparr>)
      in startKeepalive tx (sendStunRegistration hmac rnd m1 p) p)"

definition relay_step :: "(bytes \<Rightarrow> bytes \<Rightarrow> bytes) \<Rightarrow> relay_mgr \<Rightarrow> relay_event \<Rightarrow> relay_mgr" where
  "relay_step hmac m e =
     (case e of
        EvConfigure rs \<Rightarrow> ConfigureRelays m rs
      | EvConnect r out \<Rightarrow> connectToRelay m r out
      | EvOpen p rnd tx \<Rightarrow>
          if p < length (rm_heap m) \<and> cn_channel (rm_heap m ! p) then on_open hmac m p rnd tx else m
      | EvClose p \<Rightarrow>
          if p < length (rm_heap m) \<and> cn_channel (rm_heap m ! p)
          then closeConnection m (cn_id (rm_heap m ! p)) else m
      | EvIceFailed p \<Rightarrow>
          if p < length (rm_heap m) \<and> cn_pc (rm_heap m ! p) then failConnection m p else m
      | EvTimeout p \<Rightarrow>
          if p < length (rm_heap m) \<and> \<not> cn_stopped (rm_heap m ! p) \<and>
             cn_state (rm_heap m ! p) = relayStateConnecting then failConnection m p else m
      | EvResendTimer p rnd \<Rightarrow>
          if p < length (rm_heap m) \<and> \<not> cn_stopped (rm_heap m ! p)
          then sendStunRegistration hmac rnd m p else m
      | EvKeepalive p tx \<Rightarrow>
          if p < length (rm_heap m) \<and> cn_keepalive (rm_heap m ! p) \<and> \<not> cn_stopped (rm_heap m ! p)
          then sendRaw m p (BuildWhatsAppPing tx) else m
      | EvBroadcast d \<Rightarrow> Broadcast m d
      | EvResendSubscriptions rnd \<Rightarrow> ResendSubscriptions hmac rnd m
      | EvSetSsrc s \<Rightarrow> SetSsrc m s
      | EvSetSubscriptionSsrc s \<Rightarrow> SetSubscriptionSsrc m s
      | EvCleanup \<Rightarrow> relay_cleanup m)"

section \<open>The registered connections\<close>

definition conn_ok :: "string \<Rightarrow> relay_conn \<Rightarrow> bool" where
  "conn_ok k c \<longleftrightarrow> cn_id c = k \<and> cn_state c \<in> {relayStateConnecting, relayStateOpen} \<and>
     \<not> cn_stopped c \<and> (cn_state c = relayStateOpen \<longrightarrow> cn_channel c)"

definition relay_ok :: "relay_mgr \<Rightarrow> bool" where
  "relay_ok m \<longleftrightarrow> gm_wf (rm_conns m) \<and>
     (\<forall>(k, p) \<in> set (rm_conns m). p < length (rm_heap m) \<and> conn_ok k (rm_heap m ! p))"

lemma relay_okD:
  "relay_ok m \<Longrightarrow> (k, p) \<in> set (rm_conns m) \<Longrightarrow> p < length (rm_heap m) \<and> conn_ok k (rm_heap m ! p)"
  by (auto simp: relay_ok_def)

lemma relay_ok_pointers: "relay_ok m \<Longrightarrow> distinct (map snd (rm_conns m))"
proof -
  assume r: "relay_ok m"
  have "inj_on snd (set (rm_conns m))"
  proof (rule inj_onI, clarify)
    fix k p k' q assume "(k, p) \<in> set (rm_conns m)" "(k', q) \<in> set (rm_conns m)" "snd (k, p) = snd (k', q)"
    then show "k = k' \<and> p = q"
      using relay_okD [OF r, of k p] relay_okD [OF r, of k' q] by (auto simp: conn_ok_def)
  qed
  moreover have "distinct (rm_conns m)"
    using r by (auto simp: relay_ok_def gm_wf_def distinct_map)
  ultimately show ?thesis by (simp add: distinct_map)
qed

lemma upd_conn_simps [simp]:
  "rm_conns (upd_conn m p f) = rm_conns m" "length (rm_heap (upd_conn m p f)) = length (rm_heap m)"
  "rm_audio (upd_conn m p f) = rm_audio m" "rm_sub (upd_conn m p f) = rm_sub m"
  "rm_sent (upd_conn m p f) = rm_sent m"
  by (simp_all add: upd_conn_def)

lemma upd_conn_nth:
  "rm_heap (upd_conn m p f) ! q =
     (if q = p \<and> p < length (rm_heap m) then f (rm_heap m ! p) else rm_heap m ! q)"
  by (auto simp: upd_conn_def)

lemma relay_ok_upd:
  assumes "relay_ok m" and "\<And>k. (k, p) \<in> set (rm_conns m) \<Longrightarrow> conn_ok k (f (rm_heap m ! p))"
  shows "relay_ok (upd_conn m p f)"
  using assms by (auto simp: relay_ok_def upd_conn_nth)

lemma sendRaw_simps [simp]:
  "rm_heap (sendRaw m p d) = rm_heap m" "rm_conns (sendRaw m p d) = rm_conns m"
  "rm_audio (sendRaw m p d) = rm_audio m" "rm_sub (sendRaw m p d) = rm_sub m"
  by (simp_all add: sendRaw_def Let_def)

lemma foldl_sendRaw_simps [simp]:
  "rm_heap (foldl (\<lambda>m x. sendRaw m (f x) (g x)) m xs) = rm_heap m"
  "rm_conns (foldl (\<lambda>m x. sendRaw m (f x) (g x)) m xs) = rm_conns m"
  by (induction xs arbitrary: m) simp_all

lemma registration_simps [simp]:
  "rm_heap (sendStunRegistration h r m p) = rm_heap m"
  "rm_conns (sendStunRegistration h r m p) = rm_conns m"
  by (simp_all add: sendStunRegistration_def send_all_def)

lemma resend_simps [simp]:
  "rm_heap (ResendSubscriptions h r m) = rm_heap m" "rm_conns (ResendSubscriptions h r m) = rm_conns m"
proof -
  have "rm_heap (foldl (\<lambda>m p. if cn_state (rm_heap m ! p) = relayStateOpen \<and> cn_channel (rm_heap m ! p)
      then sendStunRegistration h r m p else m) m ps) = rm_heap m \<and>
    rm_conns (foldl (\<lambda>m p. if cn_state (rm_heap m ! p) = relayStateOpen \<and> cn_channel (rm_heap m ! p)
      then sendStunRegistration h r m p else m) m ps) = rm_conns m" for ps
    by (induction ps arbitrary: m) simp_all
  then show "rm_heap (ResendSubscriptions h r m) = rm_heap m"
    "rm_conns (ResendSubscriptions h r m) = rm_conns m"
    by (simp_all add: ResendSubscriptions_def)
qed

lemma relay_ok_same:
  "relay_ok m \<Longrightarrow> rm_heap m' = rm_heap m \<Longrightarrow> rm_conns m' = rm_conns m \<Longrightarrow> relay_ok m'"
  by (simp add: relay_ok_def)

lemma relay_ok_del: "relay_ok m \<Longrightarrow> relay_ok (m\<lparr>rm_conns := gm_del k (rm_conns m)\<rparr>)"
  by (auto simp: relay_ok_def gm_in_del)

lemma not_registered_after_del:
  assumes "relay_ok m" and "cn_id (rm_heap m ! p) = k"
  shows "(k', p) \<notin> set (gm_del k (rm_conns m))"
proof
  assume a: "(k', p) \<in> set (gm_del k (rm_conns m))"
  then have "(k', p) \<in> set (rm_conns m)" and "k' \<noteq> k"
    by (auto simp: gm_in_del)
  then show False
    using relay_okD [OF assms(1)] assms(2) by (auto simp: conn_ok_def)
qed

lemma relay_ok_retire:
  assumes "relay_ok m" and "cn_id (rm_heap m ! p) = k"
  shows "relay_ok (teardown (upd_conn m p f\<lparr>rm_conns := gm_del k (rm_conns m)\<rparr>) p)"
proof -
  have del: "relay_ok (m\<lparr>rm_conns := gm_del k (rm_conns m)\<rparr>)"
    using assms(1) by (rule relay_ok_del)
  have "upd_conn m p f\<lparr>rm_conns := gm_del k (rm_conns m)\<rparr> =
      upd_conn (m\<lparr>rm_conns := gm_del k (rm_conns m)\<rparr>) p f"
    by (simp add: upd_conn_def)
  moreover have "relay_ok (upd_conn (m\<lparr>rm_conns := gm_del k (rm_conns m)\<rparr>) p f)"
    using del by (rule relay_ok_upd) (use not_registered_after_del [OF assms] in simp)
  ultimately have "relay_ok (upd_conn m p f\<lparr>rm_conns := gm_del k (rm_conns m)\<rparr>)"
    by (simp only:)
  then show ?thesis
    unfolding teardown_def
    by (rule relay_ok_upd) (use not_registered_after_del [OF assms] in simp)
qed

lemma relay_ok_fail: "relay_ok m \<Longrightarrow> relay_ok (failConnection m p)"
  by (simp add: failConnection_def Let_def relay_ok_retire)

lemma relay_ok_close: "relay_ok m \<Longrightarrow> relay_ok (closeConnection m i)"
  using relay_okD [of m i] gm_get_in [of "rm_conns m" i]
  by (auto simp: closeConnection_def Let_def conn_ok_def split: option.split intro!: relay_ok_retire)

lemma relay_ok_register:
  assumes "relay_ok m" and "conn_ok k c"
  shows "relay_ok (m\<lparr>rm_heap := rm_heap m @ [c], rm_conns := gm_put k (length (rm_heap m)) (rm_conns m)\<rparr>)"
proof -
  have wf: "gm_wf (rm_conns m)" using assms(1) by (simp add: relay_ok_def)
  have "p < length (rm_heap m @ [c]) \<and> conn_ok k' ((rm_heap m @ [c]) ! p)"
    if "(k', p) \<in> set (gm_put k (length (rm_heap m)) (rm_conns m))" for k' p
  proof -
    have "gm_get (gm_put k (length (rm_heap m)) (rm_conns m)) k' = Some p"
      using that wf by (simp add: gm_get_Some_iff)
    then have "k' = k \<and> p = length (rm_heap m) \<or> gm_get (rm_conns m) k' = Some p"
      by (auto simp: gm_get_put split: if_splits)
    then show ?thesis
      using assms(2) relay_okD [OF assms(1)] by (auto dest: gm_get_in simp: nth_append)
  qed
  then show ?thesis using wf by (auto simp: relay_ok_def)
qed

lemma relay_ok_upd_all:
  "relay_ok m \<Longrightarrow> (\<And>k c. conn_ok k c \<Longrightarrow> conn_ok k (f c)) \<Longrightarrow> relay_ok (upd_conn m p f)"
  by (rule relay_ok_upd) (auto dest: relay_okD)

lemma relay_ok_connect:
  assumes "relay_ok m" shows "relay_ok (connectToRelay m info out)"
proof -
  let ?i = "connID (rc_ip info) (rc_port info) (rc_auth_token_id info)"
  let ?c = "\<lparr>cn_state = relayStateConnecting, cn_pc = False, cn_channel = False, cn_id = ?i,
    cn_info = info, cn_ufrag = [], cn_remote = [], cn_keepalive = False, cn_stopped = False\<rparr>"
  have "relay_ok (m\<lparr>rm_heap := rm_heap m @ [?c], rm_conns := gm_put ?i (length (rm_heap m)) (rm_conns m)\<rparr>)"
    using assms by (rule relay_ok_register) (simp add: conn_ok_def)
  moreover have "relay_ok (upd_conn m p (\<lambda>c. c\<lparr>cn_pc := True\<rparr>))"
    "relay_ok (upd_conn m p (\<lambda>c. c\<lparr>cn_channel := True\<rparr>))"
    "relay_ok (upd_conn m p (\<lambda>c. c\<lparr>cn_ufrag := u, cn_remote := v\<rparr>))" if "relay_ok m" for m p u v
    using that by (auto intro!: relay_ok_upd_all simp: conn_ok_def)
  ultimately show ?thesis
    by (cases out) (simp_all add: connectToRelay_def Let_def relay_ok_fail)
qed

lemma relay_ok_configure: "relay_ok m \<Longrightarrow> relay_ok (ConfigureRelays m rs)"
  unfolding ConfigureRelays_def
  by (induction rs arbitrary: m) (auto simp: Let_def relay_ok_connect split: prod.split)

lemma teardown_simps [simp]: "rm_conns (teardown m p) = rm_conns m"
  "rm_sent (teardown m p) = rm_sent m" "length (rm_heap (teardown m p)) = length (rm_heap m)"
  by (simp_all add: teardown_def)

lemma foldl_teardown_simps [simp]:
  "rm_conns (foldl teardown m ps) = rm_conns m" "rm_sent (foldl teardown m ps) = rm_sent m"
  "length (rm_heap (foldl teardown m ps)) = length (rm_heap m)"
  by (induction ps arbitrary: m) simp_all

lemma relay_ok_open:
  assumes "relay_ok m" and "cn_channel (rm_heap m ! p)"
  shows "relay_ok (on_open h m p rnd tx)"
proof -
  have "relay_ok (upd_conn m p (\<lambda>c. c\<lparr>cn_state := relayStateOpen\<rparr>))"
    using assms(1) by (rule relay_ok_upd)
      (use assms relay_okD [OF assms(1)] in \<open>fastforce simp: conn_ok_def\<close>)
  then have "relay_ok (sendRaw (sendStunRegistration h rnd (upd_conn m p
      (\<lambda>c. c\<lparr>cn_state := relayStateOpen\<rparr>)) p) p (BuildWhatsAppPing tx))"
    by (rule relay_ok_same) simp_all
  then show ?thesis
    unfolding on_open_def startKeepalive_def Let_def
    by (rule relay_ok_upd_all) (simp add: conn_ok_def)
qed

lemma relay_ok_ssrc [simp]:
  "relay_ok (m\<lparr>rm_audio := a\<rparr>) = relay_ok m" "relay_ok (m\<lparr>rm_sub := a\<rparr>) = relay_ok m"
  by (simp_all add: relay_ok_def)

lemma relay_step_ok: "relay_ok m \<Longrightarrow> relay_ok (relay_step h m e)"
  by (cases e)
     (auto simp: relay_step_def relay_ok_configure relay_ok_connect relay_ok_open relay_ok_close
       relay_ok_fail Broadcast_def relay_cleanup_def SetSsrc_def SetSubscriptionSsrc_def
       relay_ok_def [of "foldl teardown _ _"]
       intro: relay_ok_same [of m])

interpretation relay: step_machine "relay_step h" relay_ok
  by unfold_locales (rule relay_step_ok)

lemma broadcast_list_sent:
  "\<forall>p \<in> set ps. p < length (rm_heap m) \<and>
      (cn_state (rm_heap m ! p) = relayStateOpen \<longrightarrow> cn_channel (rm_heap m ! p)) \<Longrightarrow>
   rm_sent (foldl (\<lambda>m p. sendRaw m p d) m ps) =
     rm_sent m @ map (\<lambda>p. (p, d)) (filter (\<lambda>p. cn_state (rm_heap m ! p) = relayStateOpen) ps)"
proof (induction ps arbitrary: m)
  case (Cons p ps)
  then show ?case by (simp add: Cons.IH) (auto simp: sendRaw_def Let_def)
qed simp

lemma Broadcast_sent:
  assumes "relay_ok m"
  shows "rm_sent (Broadcast m d) = rm_sent m @ map (\<lambda>p. (p, d)) (open_conns m)"
  unfolding Broadcast_def open_conns_def
  by (rule broadcast_list_sent) (use relay_okD [OF assms] in \<open>auto simp: conn_ok_def\<close>)

lemma HasConnection_open: "HasConnection m \<longleftrightarrow> open_conns m \<noteq> []"
  by (force simp: HasConnection_def open_conns_def filter_empty_conv)

text \<open>
  What the call manager needs from its relays (the interface RelayTransport of
  src/internal/voip/call/callmanager_relay.go): \<open>sent\<close> is what has left on the wire.
\<close>

locale relay_transport =
  fixes has_connection :: "'m \<Rightarrow> bool" and connected_count :: "'m \<Rightarrow> nat"
    and broadcast :: "'m \<Rightarrow> bytes \<Rightarrow> 'm" and cleanup :: "'m \<Rightarrow> 'm"
    and sent :: "'m \<Rightarrow> (nat \<times> bytes) list" and ok :: "'m \<Rightarrow> bool"
  assumes count_iff: "ok m \<Longrightarrow> has_connection m \<longleftrightarrow> 0 < connected_count m"
    and broadcast_count: "ok m \<Longrightarrow> length (sent (broadcast m d)) = length (sent m) + connected_count m"
    and broadcast_ok: "ok m \<Longrightarrow> ok (broadcast m d)"
    and broadcast_keeps: "ok m \<Longrightarrow> connected_count (broadcast m d) = connected_count m"
    and cleanup_ok: "ok m \<Longrightarrow> ok (cleanup m)"
    and cleanup_gone: "ok m \<Longrightarrow> \<not> has_connection (cleanup m)"
    and cleanup_silent: "ok m \<Longrightarrow> sent (cleanup m) = sent m"
begin

lemma broadcast_all_ok:
  "ok m \<Longrightarrow> ok (foldl broadcast m ds) \<and> connected_count (foldl broadcast m ds) = connected_count m"
  by (induction ds arbitrary: m) (simp_all add: broadcast_ok broadcast_keeps)

lemma broadcast_all_count:
  "ok m \<Longrightarrow> length (sent (foldl broadcast m ds)) =
     length (sent m) + length ds * connected_count m"
  by (induction ds arbitrary: m) (simp_all add: broadcast_ok broadcast_keeps broadcast_count)

lemma silent_after_cleanup:
  assumes "ok m"
  shows "length (sent (foldl broadcast (cleanup m) ds)) = length (sent m)"
proof -
  have "connected_count (cleanup m) = 0"
    using count_iff [OF cleanup_ok [OF assms]] cleanup_gone [OF assms] by simp
  then show ?thesis
    using broadcast_all_count [OF cleanup_ok [OF assms]] cleanup_silent [OF assms] by simp
qed

end

lemma relay_cleanup_simps [simp]:
  "rm_conns (relay_cleanup m) = []" "rm_sent (relay_cleanup m) = rm_sent m"
  by (simp_all add: relay_cleanup_def)

lemma Broadcast_simps [simp]:
  "rm_conns (Broadcast m d) = rm_conns m" "rm_heap (Broadcast m d) = rm_heap m"
  by (simp_all add: Broadcast_def)

interpretation sctp: relay_transport HasConnection ConnectedCount Broadcast relay_cleanup rm_sent relay_ok
proof unfold_locales
  fix m d assume ok: "relay_ok m"
  show "HasConnection m \<longleftrightarrow> 0 < ConnectedCount m"
    by (simp add: HasConnection_open ConnectedCount_def)
  show "length (rm_sent (Broadcast m d)) = length (rm_sent m) + ConnectedCount m"
    using Broadcast_sent [OF ok] by (simp add: ConnectedCount_def)
  show "relay_ok (Broadcast m d)"
    using ok by (rule relay_ok_same) simp_all
  show "ConnectedCount (Broadcast m d) = ConnectedCount m"
    by (simp add: ConnectedCount_def open_conns_def)
  show "relay_ok (relay_cleanup m)" "\<not> HasConnection (relay_cleanup m)"
    "rm_sent (relay_cleanup m) = rm_sent m"
    by (simp_all add: relay_ok_def HasConnection_def)
qed

text \<open>C14: whatever order the relays' callbacks, timers and the manager's calls come in: a
  broadcast goes exactly once to every open registered connection and to nobody else, each of
  them has a channel and has not been torn down, HasConnection and ConnectedCount agree, and
  after Cleanup no broadcast reaches anyone.\<close>

theorem relay_broadcast_reaches_open:
  "let m = run_steps (relay_step hmac) NewSctpRelayManager es in
   rm_sent (Broadcast m d) = rm_sent m @ map (\<lambda>p. (p, d)) (open_conns m) \<and>
   distinct (open_conns m) \<and>
   (\<forall>p \<in> set (open_conns m). cn_channel (rm_heap m ! p) \<and> \<not> cn_stopped (rm_heap m ! p)) \<and>
   (HasConnection m \<longleftrightarrow> 0 < ConnectedCount m) \<and>
   length (rm_sent (foldl Broadcast (relay_cleanup m) ds)) = length (rm_sent m)"
proof -
  define m where "m = run_steps (relay_step hmac) NewSctpRelayManager es"
  have ok: "relay_ok m"
    unfolding m_def by (rule relay.run_inv) (simp add: relay_ok_def NewSctpRelayManager_def)
  show ?thesis
    unfolding m_def [symmetric] Let_def
    using Broadcast_sent [OF ok] relay_ok_pointers [OF ok] sctp.count_iff [OF ok]
      sctp.silent_after_cleanup [OF ok] relay_okD [OF ok]
    by (auto simp: open_conns_def conn_ok_def)
qed

theorem relay_broadcast_reaches_open_witness:
  "let m = run_steps (relay_step (\<lambda>k x. x)) NewSctpRelayManager [EvSetSsrc 7] in
   HasConnection m \<longleftrightarrow> 0 < ConnectedCount m"
  using relay_broadcast_reaches_open [of "\<lambda>k x. x" "[EvSetSsrc 7]" "[]" "[]"]
  by (simp add: Let_def)


end
