(* ===== verification/Wanode.thy ===== *)
theory Wanode
  imports CallState Stun
begin

text \<open>
  The stanza tree of whatsmeow as the program reads it (src/internal/voip/wanode) and the JID
  helpers of src/internal/voip/call/helpers.go.

  A node has a tag, an attribute map and either children, bytes or nothing.  An attribute value
  is a string, a JID (printed by its String method, kept here in printed form), an integer, a
  boolean or nil.  JIDs are handled in their printed form throughout.
\<close>

datatype attr_val = AStr string | AJid string | AInt int | ABool bool | ANil

datatype node = Node (node_tag: string) (node_attrs: "(string \<times> attr_val) list")
    (node_content: content)
  and content = CNone | CNodes "node list" | CBytes bytes

fun NodeChildren :: "node \<Rightarrow> node list" where
  "NodeChildren (Node t a (CNodes cs)) = cs"
| "NodeChildren (Node t a CNone) = []"
| "NodeChildren (Node t a (CBytes b)) = []"

fun NodeBytes :: "node \<Rightarrow> bytes option" where
  "NodeBytes (Node t a (CBytes b)) = Some b"
| "NodeBytes (Node t a CNone) = None"
| "NodeBytes (Node t a (CNodes cs)) = None"

definition AttrString :: "(string \<times> attr_val) list \<Rightarrow> string \<Rightarrow> string" where
  "AttrString attrs key =
     (case gm_get attrs key of
        None \<Rightarrow> []
      | Some ANil \<Rightarrow> []
      | Some (AStr s) \<Rightarrow> s
      | Some (AJid s) \<Rightarrow> s
      | Some (AInt i) \<Rightarrow> int_text i
      | Some (ABool b) \<Rightarrow> (if b then ''true'' else ''false''))"

text \<open>\<open>strconv.Atoi\<close>: an optional sign, at least one digit, nothing else, within 64 bits.\<close>

definition atoi :: "string \<Rightarrow> int option" where
  "atoi s =
     (let (neg, ds) = (case s of c # r \<Rightarrow> if c = CHR ''-'' then (True, r)
                         else if c = CHR ''+'' then (False, r) else (False, s)
                       | [] \<Rightarrow> (False, []));
          v = (if neg then - digits_value ds else digits_value ds)
      in if ds = [] \<or> \<not> list_all is_digit ds \<or> v < - (2 ^ 63) \<or> 2 ^ 63 \<le> v then None else Some v)"

definition AttrInt :: "(string \<times> attr_val) list \<Rightarrow> string \<Rightarrow> int \<Rightarrow> int" where
  "AttrInt attrs key fallback =
     (let s = AttrString attrs key
      in if s = [] then fallback else case atoi s of None \<Rightarrow> fallback | Some n \<Rightarrow> n)"

definition HasAttr :: "(string \<times> attr_val) list \<Rightarrow> string \<Rightarrow> bool" where
  "HasAttr attrs key = (AttrString attrs key \<noteq> [])"

section \<open>JIDs\<close>

text \<open>\<open>strings.Index\<close> for one character.\<close>

fun str_index :: "char \<Rightarrow> string \<Rightarrow> nat option" where
  "str_index c [] = None"
| "str_index c (x # xs) = (if x = c then Some 0 else map_option Suc (str_index c xs))"

definition CleanJID :: "string \<Rightarrow> string" where
  "CleanJID jid =
     (case str_index (CHR '':'') jid of
        None \<Rightarrow> jid
      | Some i \<Rightarrow> (case str_index (CHR ''@'') jid of
          None \<Rightarrow> jid
        | Some at \<Rightarrow> if i < at then take i jid @ drop at jid else jid))"

fun replace_first_at :: "string \<Rightarrow> string" where
  "replace_first_at [] = []"
| "replace_first_at (c # s) = (if c = CHR ''@'' then '':0@'' @ s else c # replace_first_at s)"

definition ensureDeviceJid :: "string \<Rightarrow> string" where
  "ensureDeviceJid jid =
     (case (str_index (CHR '':'') jid, str_index (CHR ''@'') jid) of
        (Some i, Some at) \<Rightarrow> if i < at then jid else replace_first_at jid
      | _ \<Rightarrow> replace_first_at jid)"

definition findOurDevice :: "string list \<Rightarrow> string \<Rightarrow> string \<Rightarrow> string" where
  "findOurDevice participants ourBase fallback =
     (case find (\<lambda>j. CleanJID j = ourBase \<and> CHR '':'' \<in> set j) participants of
        Some j \<Rightarrow> j | None \<Rightarrow> fallback)"

definition firstPeerDevice :: "string list \<Rightarrow> string \<Rightarrow> string" where
  "firstPeerDevice participants ourBase =
     (case find (\<lambda>j. CleanJID j \<noteq> ourBase) participants of Some j \<Rightarrow> j | None \<Rightarrow> [])"

definition firstSsrc :: "u32 list \<Rightarrow> u32" where
  "firstSsrc s = (case s of [] \<Rightarrow> 0 | x # _ \<Rightarrow> x)"

definition containsSsrc :: "u32 list \<Rightarrow> u32 \<Rightarrow> bool" where
  "containsSsrc s v = (v \<in> set s)"

definition hasChildTag :: "node \<Rightarrow> string \<Rightarrow> bool" where
  "hasChildTag n tag = (\<exists>c \<in> set (NodeChildren n). node_tag c = tag)"

definition ChildTagSummary :: "node \<Rightarrow> string" where
  "ChildTagSummary n = join '' '' (map (\<lambda>c.
     if NodeChildren c = [] then node_tag c
     else node_tag c @ ''['' @ join '','' (map node_tag (NodeChildren c)) @ '']'') (NodeChildren n))"

definition relayEndpointCount :: "relay_data option \<Rightarrow> nat" where
  "relayEndpointCount rd = (case rd of None \<Rightarrow> 0 | Some d \<Rightarrow> length (rd_endpoints d))"

lemma str_index_None: "str_index c s = None \<longleftrightarrow> c \<notin> set s"
  by (induction s) auto

lemma str_index_append:
  "str_index c (u @ v) = (case str_index c u of Some i \<Rightarrow> Some i
     | None \<Rightarrow> map_option ((+) (length u)) (str_index c v))"
  by (cases "str_index c v"; induction u) (auto split: option.splits)

lemma replace_first_at_absent: "CHR ''@'' \<notin> set s \<Longrightarrow> replace_first_at s = s"
  by (induction s) auto

lemma replace_first_at_split: "CHR ''@'' \<notin> set u \<Longrightarrow> replace_first_at (u @ CHR ''@'' # v) = u @ '':0@'' @ v"
  by (induction u) auto

text \<open>The three shapes of a JID: no server, a user with a device, a user without.\<close>

lemma jid_cases:
  obtains (no_server) "CHR ''@'' \<notin> set j" |
    (device) u d v where "j = u @ CHR '':'' # d @ CHR ''@'' # v" "CHR '':'' \<notin> set u"
      "CHR ''@'' \<notin> set u" "CHR ''@'' \<notin> set d" |
    (plain) u v where "j = u @ CHR ''@'' # v" "CHR '':'' \<notin> set u" "CHR ''@'' \<notin> set u"
proof (cases "CHR ''@'' \<in> set j")
  case True
  then obtain u v where j: "j = u @ CHR ''@'' # v" "CHR ''@'' \<notin> set u"
    by (meson split_list_first)
  show ?thesis
  proof (cases "CHR '':'' \<in> set u")
    case True
    then obtain a b where "u = a @ CHR '':'' # b" "CHR '':'' \<notin> set a"
      by (meson split_list_first)
    with j show ?thesis by (intro device [of a b v]) auto
  next
    case False
    with j show ?thesis by (intro plain [of u v])
  qed
qed (rule no_server)

lemma jid_simps:
  "CHR ''@'' \<notin> set j \<Longrightarrow> CleanJID j = j \<and> ensureDeviceJid j = j"
  "\<lbrakk>CHR '':'' \<notin> set u; CHR ''@'' \<notin> set u; CHR ''@'' \<notin> set d\<rbrakk> \<Longrightarrow>
     CleanJID (u @ CHR '':'' # d @ CHR ''@'' # v) = u @ CHR ''@'' # v \<and>
     ensureDeviceJid (u @ CHR '':'' # d @ CHR ''@'' # v) = u @ CHR '':'' # d @ CHR ''@'' # v"
  "\<lbrakk>CHR '':'' \<notin> set u; CHR ''@'' \<notin> set u\<rbrakk> \<Longrightarrow>
     CleanJID (u @ CHR ''@'' # v) = u @ CHR ''@'' # v \<and>
     ensureDeviceJid (u @ CHR ''@'' # v) = u @ '':0@'' @ v"
proof -
  assume j: "CHR ''@'' \<notin> set j"
  then have "str_index (CHR ''@'') j = None" by (simp add: str_index_None)
  with j show "CleanJID j = j \<and> ensureDeviceJid j = j"
    by (simp add: CleanJID_def ensureDeviceJid_def replace_first_at_absent split: option.split)
next
  assume u: "CHR '':'' \<notin> set u" "CHR ''@'' \<notin> set u"
  then have n: "str_index (CHR '':'') u = None" "str_index (CHR ''@'') u = None"
    by (simp_all add: str_index_None)
  show "CleanJID (u @ CHR ''@'' # v) = u @ CHR ''@'' # v \<and>
     ensureDeviceJid (u @ CHR ''@'' # v) = u @ '':0@'' @ v"
    using u n by (simp add: CleanJID_def ensureDeviceJid_def str_index_append
        replace_first_at_split split: option.split)
  assume d: "CHR ''@'' \<notin> set d"
  then have "str_index (CHR ''@'') d = None" by (simp add: str_index_None)
  then show "CleanJID (u @ CHR '':'' # d @ CHR ''@'' # v) = u @ CHR ''@'' # v \<and>
     ensureDeviceJid (u @ CHR '':'' # d @ CHR ''@'' # v) = u @ CHR '':'' # d @ CHR ''@'' # v"
    using n by (simp add: CleanJID_def ensureDeviceJid_def str_index_append split: option.split)
qed

text \<open>Adding the device part to a JID is idempotent and loses nothing: removing the device
  again gives the same account, so a device JID and its account JID are never confused with
  those of another account.\<close>

theorem device_jid_of_account:
  "ensureDeviceJid (ensureDeviceJid j) = ensureDeviceJid j \<and>
   CleanJID (ensureDeviceJid j) = CleanJID j \<and> CleanJID (CleanJID j) = CleanJID j"
proof (rule jid_cases [of j])
  fix u v assume j: "j = u @ CHR ''@'' # v" and u: "CHR '':'' \<notin> set u" "CHR ''@'' \<notin> set u"
  have "u @ '':0@'' @ v = u @ CHR '':'' # ''0'' @ CHR ''@'' # v" by simp
  then show ?thesis
    using jid_simps(3) [OF u, of v] jid_simps(2) [OF u, of "''0''" v] j by simp
next
  fix u d v assume "j = u @ CHR '':'' # d @ CHR ''@'' # v" "CHR '':'' \<notin> set u"
    "CHR ''@'' \<notin> set u" "CHR ''@'' \<notin> set d"
  then show ?thesis
    using jid_simps(2) [of u d v] jid_simps(3) [of u v] by simp
qed (use jid_simps(1) in simp)

end
