(* ===== verification/Signaling.thy ===== *)
theory Signaling
  imports Wanode RelayMgr "HOL-Library.Multiset"
begin

text \<open>
  Reading and building the call stanzas: src/internal/voip/signaling (relayack.go,
  signaling_parse.go, callkey.go, signaling_build.go).

  Protobuf marshalling and the session store of whatsmeow are arguments; base64 and the stable
  sort of the standard library are written out.
\<close>

unbundle bit_operations_syntax

section \<open>base64.StdEncoding\<close>

definition b64_char :: "u8 \<Rightarrow> char" where
  "b64_char b =
     (let v = unat b in
      char_of (if v < 26 then 65 + v else if v < 52 then 71 + v else if v < 62 then v - 4
               else if v = 62 then 43 else 47))"

fun b64_encode :: "bytes \<Rightarrow> string" where
  "b64_encode [] = []"
| "b64_encode [a] = [b64_char (drop_bit 2 a), b64_char (push_bit 4 (a AND 3)), CHR ''='', CHR ''='']"
| "b64_encode [a, b] = [b64_char (drop_bit 2 a), b64_char (push_bit 4 (a AND 3) OR drop_bit 4 b),
     b64_char (push_bit 2 (b AND 15)), CHR ''='']"
| "b64_encode (a # b # c # r) = [b64_char (drop_bit 2 a), b64_char (push_bit 4 (a AND 3) OR drop_bit 4 b),
     b64_char (push_bit 2 (b AND 15) OR drop_bit 6 c), b64_char (c AND 63)] @ b64_encode r"

definition b64_value :: "char \<Rightarrow> u8 option" where
  "b64_value ch =
     (let v = of_char ch :: nat in
      if 65 \<le> v \<and> v \<le> 90 then Some (word_of_nat (v - 65))
      else if 97 \<le> v \<and> v \<le> 122 then Some (word_of_nat (v - 71))
      else if 48 \<le> v \<and> v \<le> 57 then Some (word_of_nat (v + 4))
      else if v = 43 then Some 62 else if v = 47 then Some 63 else None)"

text \<open>\<open>DecodeString\<close> skips line ends; the padding may only end the text.\<close>

fun b64_quads :: "string \<Rightarrow> bytes option" where
  "b64_quads [] = Some []"
| "b64_quads (p # q # r # t # rest) =
     (case (b64_value p, b64_value q) of
        (Some a, Some b) \<Rightarrow>
          (let b1 = push_bit 2 a OR drop_bit 4 b in
           if r = CHR ''='' then (if t = CHR ''='' \<and> rest = [] then Some [b1] else None)
           else (case b64_value r of
               None \<Rightarrow> None
             | Some c \<Rightarrow>
                 (let b2 = push_bit 4 b OR drop_bit 2 c in
                  if t = CHR ''='' then (if rest = [] then Some [b1, b2] else None)
                  else (case b64_value t of
                      None \<Rightarrow> None
                    | Some d \<Rightarrow> map_option (\<lambda>bs. b1 # b2 # (push_bit 6 c OR d) # bs) (b64_quads rest)))))
      | _ \<Rightarrow> None)"
| "b64_quads _ = None"

definition b64_decode :: "string \<Rightarrow> bytes option" where
  "b64_decode s = b64_quads (filter (\<lambda>c. \<not> eol c) s)"

section \<open>Relay endpoints\<close>

definition bytes_string :: "bytes \<Rightarrow> string" where
  "bytes_string bs = map (\<lambda>b. char_of (unat b)) bs"

text \<open>\<open>sort.SliceStable\<close> with a strict weak order: insert each element after its equals.\<close>

fun stable_insert :: "('a \<Rightarrow> 'a \<Rightarrow> bool) \<Rightarrow> 'a \<Rightarrow> 'a list \<Rightarrow> 'a list" where
  "stable_insert lt x [] = [x]"
| "stable_insert lt x (y # ys) = (if lt y x then y # stable_insert lt x ys else x # y # ys)"

definition stable_sort :: "('a \<Rightarrow> 'a \<Rightarrow> bool) \<Rightarrow> 'a list \<Rightarrow> 'a list" where
  "stable_sort lt xs = foldr (stable_insert lt) xs []"

definition rtt_less :: "relay_endpoint \<Rightarrow> relay_endpoint \<Rightarrow> bool" where
  "rtt_less a b =
     (case (ep_c2r_rtt a, ep_c2r_rtt b) of
        (None, None) \<Rightarrow> False
      | (None, Some _) \<Rightarrow> False
      | (Some _, None) \<Rightarrow> True
      | (Some x, Some y) \<Rightarrow> x < y)"

definition sortRelaysByRtt :: "relay_endpoint list \<Rightarrow> relay_endpoint list" where
  "sortRelaysByRtt relays = stable_sort rtt_less relays"

definition attrStringOr :: "(string \<times> attr_val) list \<Rightarrow> string \<Rightarrow> string \<Rightarrow> string" where
  "attrStringOr attrs key fallback =
     (let s = AttrString attrs key in if s \<noteq> [] then s else fallback)"

definition ipv4String :: "bytes \<Rightarrow> string" where
  "ipv4String b = join ''.'' (map (\<lambda>i. nat_text (unat (byte_at b i))) [0, 1, 2, 3])"

definition opt_int_attr :: "(string \<times> attr_val) list \<Rightarrow> string \<Rightarrow> int option \<Rightarrow> int option" where
  "opt_int_attr attrs key old = (if HasAttr attrs key then Some (AttrInt attrs key 0) else old)"

record parsed_ack =
  pa_relays :: "relay_endpoint list"
  pa_participants :: "string list"
  pa_uuid :: string
  pa_self_pid :: "int option"
  pa_peer_pid :: "int option"
  pa_hbh_key :: "bytes option"

definition add_participant :: "parsed_ack \<Rightarrow> string \<Rightarrow> parsed_ack" where
  "add_participant r jid =
     (if jid \<noteq> [] \<and> jid \<notin> set (pa_participants r)
      then r\<lparr>pa_participants := pa_participants r @ [jid]\<rparr> else r)"

text \<open>The tables one \<open>relay\<close> node fills before its \<open>te2\<close> children are read.\<close>

record relay_tables =
  rt_key :: string
  rt_tokens :: "(string \<times> bytes) list"
  rt_auth :: "(string \<times> bytes) list"
  rt_hbh :: "bytes option"

definition scan_relay_child :: "relay_tables \<Rightarrow> node \<Rightarrow> relay_tables" where
  "scan_relay_child t rc =
     (case NodeBytes rc of
        None \<Rightarrow> t
      | Some b \<Rightarrow>
          (if node_tag rc = ''key'' then t\<lparr>rt_key := bytes_string b\<rparr>
           else if node_tag rc = ''hbh_key'' then
             (if length b = 30 then t\<lparr>rt_hbh := Some b\<rparr>
              else if 30 < length b then
                (case b64_decode (bytes_string b) of
                   Some d \<Rightarrow> (if length d = 30 then t\<lparr>rt_hbh := Some d\<rparr> else t)
                 | None \<Rightarrow> t)
              else t)
           else if node_tag rc = ''token''
             then t\<lparr>rt_tokens := gm_put (attrStringOr (node_attrs rc) ''id'' ''0'') b (rt_tokens t)\<rparr>
           else if node_tag rc = ''auth_token''
             then t\<lparr>rt_auth := gm_put (attrStringOr (node_attrs rc) ''id'' ''0'') b (rt_auth t)\<rparr>
           else t))"

definition token_text :: "(string \<times> bytes) list \<Rightarrow> string \<Rightarrow> string" where
  "token_text m k = (case gm_get m k of None \<Rightarrow> [] | Some b \<Rightarrow> b64_encode b)"

definition te2_endpoint :: "relay_tables \<Rightarrow> node \<Rightarrow> relay_endpoint option" where
  "te2_endpoint t rc =
     (let at = node_attrs rc;
          addr = (case NodeBytes rc of None \<Rightarrow> [] | Some b \<Rightarrow> b);
          tokenID = attrStringOr at ''token_id'' ''0'';
          authID = AttrString at ''auth_token_id''
      in if node_tag rc \<noteq> ''te2'' \<or> length addr < 6 \<or> length addr \<noteq> 6 then None
         else Some \<lparr>ep_ip = ipv4String (take 4 addr),
                    ep_port = int (unat (byte_at addr 4) * 256 + unat (byte_at addr 5)),
                    ep_token = token_text (rt_tokens t) tokenID,
                    ep_auth_token = (if authID \<noteq> [] then token_text (rt_auth t) authID else []),
                    ep_raw_auth_token = (if authID \<noteq> [] then gm_get (rt_auth t) authID else None),
                    ep_raw_token = gm_get (rt_tokens t) tokenID,
                    ep_key = rt_key t, ep_relay_id = AttrInt at ''relay_id'' 0,
                    ep_protocol = AttrInt at ''protocol'' 0,
                    ep_c2r_rtt = opt_int_attr at ''c2r_rtt'' None,
                    ep_relay_name = AttrString at ''relay_name'', ep_address_bytes = Some addr,
                    ep_auth_token_id = (if authID \<noteq> [] then authID else tokenID)\<rparr>)"

definition ack_child :: "parsed_ack \<Rightarrow> node \<Rightarrow> parsed_ack" where
  "ack_child r0 child =
     (let r1 = (if node_tag child = ''user'' then
                  foldl (\<lambda>r d. if node_tag d = ''device'' \<and> HasAttr (node_attrs d) ''jid''
                               then add_participant r (AttrString (node_attrs d) ''jid'') else r)
                    r0 (NodeChildren child)
                else r0)
      in if node_tag child \<noteq> ''relay'' then r1
         else let at = node_attrs child; cs = NodeChildren child;
                  r2 = r1\<lparr>pa_uuid := AttrString at ''uuid'',
                          pa_self_pid := opt_int_attr at ''self_pid'' (pa_self_pid r1),
                          pa_peer_pid := opt_int_attr at ''peer_pid'' (pa_peer_pid r1)\<rparr>;
                  r3 = foldl (\<lambda>r c. if node_tag c = ''participant'' \<and> HasAttr (node_attrs c) ''jid''
                                   then add_participant r (AttrString (node_attrs c) ''jid'') else r) r2 cs;
                  t = foldl scan_relay_child
                        \<lparr>rt_key = [], rt_tokens = [], rt_auth = [], rt_hbh = pa_hbh_key r3\<rparr> cs
              in r3\<lparr>pa_hbh_key := rt_hbh t,
                     pa_relays := pa_relays r3 @ List.map_filter (te2_endpoint t) cs\<rparr>)"

definition ParseRelayFromAck :: "node \<Rightarrow> parsed_ack" where
  "ParseRelayFromAck ackNode =
     (let r = foldl ack_child \<lparr>pa_relays = [], pa_participants = [], pa_uuid = [], pa_self_pid = None,
                pa_peer_pid = None, pa_hbh_key = None\<rparr> (NodeChildren ackNode)
      in r\<lparr>pa_relays := sortRelaysByRtt (pa_relays r)\<rparr>)"

section \<open>Reading call stanzas (signaling_parse.go)\<close>

record node_info =
  ni_tag :: string
  ni_peer :: string
  ni_call_id :: string
  ni_platform :: string
  ni_version :: string
  ni_epoch :: string
  ni_timestamp :: string
  ni_inner :: node

definition ExtractNodeInfo :: "node \<Rightarrow> node_info option" where
  "ExtractNodeInfo node =
     (case NodeChildren node of
        [] \<Rightarrow> None
      | inner # _ \<Rightarrow> Some \<lparr>ni_tag = node_tag inner, ni_peer = AttrString (node_attrs node) ''from'',
          ni_call_id = AttrString (node_attrs inner) ''call-id'',
          ni_platform = AttrString (node_attrs node) ''platform'',
          ni_version = AttrString (node_attrs node) ''version'',
          ni_epoch = AttrString (node_attrs inner) ''e'',
          ni_timestamp = AttrString (node_attrs inner) ''t'', ni_inner = inner\<rparr>)"

definition parse_relay :: "node \<Rightarrow> relay_endpoint option" where
  "parse_relay n =
     (let at = node_attrs n; ip = AttrString at ''ip''; token = AttrString at ''token'';
          key = (let k = AttrString at ''relay-key'' in if k = [] then AttrString at ''key'' else k)
      in if ip = [] \<or> token = [] then None
         else Some \<lparr>ep_ip = ip, ep_port = AttrInt at ''port'' WARelayPort, ep_token = token,
                    ep_auth_token = [], ep_raw_auth_token = None, ep_raw_token = None, ep_key = key,
                    ep_relay_id = AttrInt at ''relay-id'' 0, ep_protocol = 0,
                    ep_c2r_rtt = opt_int_attr at ''c2r-rtt'' None, ep_relay_name = [],
                    ep_address_bytes = None, ep_auth_token_id = []\<rparr>)"

definition ExtractRelayEndpoints :: "node \<Rightarrow> relay_endpoint list" where
  "ExtractRelayEndpoints node =
     sortRelaysByRtt (concat (map (\<lambda>child.
       if node_tag child = ''relay'' then List.map_filter parse_relay [child]
       else if node_tag child = ''relays''
       then List.map_filter parse_relay (filter (\<lambda>rn. node_tag rn = ''relay'') (NodeChildren child))
       else []) (NodeChildren node)))"

definition is_enc :: "node \<Rightarrow> bool" where
  "is_enc c = (node_tag c = ''enc'' \<and> HasAttr (node_attrs c) ''type'')"

definition findEncNode :: "node \<Rightarrow> node option" where
  "findEncNode inner =
     (case find is_enc (NodeChildren inner) of
        Some c \<Rightarrow> Some c
      | None \<Rightarrow> find is_enc (concat (map NodeChildren
          (filter (\<lambda>t. node_tag t = ''to'') (concat (map NodeChildren
            (filter (\<lambda>c. node_tag c = ''destination'') (NodeChildren inner))))))))"

section \<open>Call keys (callkey.go)\<close>

definition NeedsDecryption :: "string \<Rightarrow> bool" where
  "NeedsDecryption tag = (tag = ''preaccept'' \<or> tag = ''accept'')"

definition upper :: "char \<Rightarrow> char" where
  "upper c = (if 97 \<le> (of_char c :: nat) \<and> of_char c \<le> (122 :: nat) then char_of (of_char c - 32 :: nat) else c)"

text \<open>\<open>GenerateCallID\<close> and \<open>GenerateCallStanzaID\<close> from 16 random bytes.\<close>

definition GenerateCallID :: "bytes \<Rightarrow> string" where
  "GenerateCallID r = map upper (concat (map (\<lambda>b. hex_pad 2 (unat b)) r))"

definition padRandomMax16 :: "u8 \<Rightarrow> bytes \<Rightarrow> bytes" where
  "padRandomMax16 r msg =
     (let padLen = unat (r AND 15) + 1 in msg @ replicate padLen (word_of_nat padLen))"

definition unpadRandomMax16 :: "bytes \<Rightarrow> bytes option" where
  "unpadRandomMax16 b =
     (if b = [] then None
      else let pad = unat (last b)
           in if length b < pad then None else Some (take (length b - pad) b))"

definition DecodeCallKeyPlaintext :: "(bytes \<Rightarrow> bytes option) \<Rightarrow> bytes \<Rightarrow> bytes option" where
  "DecodeCallKeyPlaintext unmarshal plaintext =
     (case unmarshal plaintext of
        None \<Rightarrow> None
      | Some key \<Rightarrow> (if length key = 32 then Some key else None))"

text \<open>\<open>decrypt\<close> is the socket's DecryptCallKey: \<open>Inl\<close> its error.  No enc node is no key, no error.\<close>

definition DecryptCallKeyInNode ::
    "(string \<Rightarrow> node \<Rightarrow> string + bytes) \<Rightarrow> node \<Rightarrow> string \<Rightarrow> string + bytes option" where
  "DecryptCallKeyInNode decrypt inner peerJid =
     (case findEncNode inner of
        None \<Rightarrow> Inr None
      | Some e \<Rightarrow> (case decrypt peerJid e of Inl err \<Rightarrow> Inl err | Inr k \<Rightarrow> Inr (Some k)))"

section \<open>Building call stanzas (signaling_build.go)\<close>

definition capabilityOffer :: bytes where
  "capabilityOffer = [0x01, 0x05, 0xf7, 0x09, 0xe4, 0xbb, 0x07]"

definition capabilityPreaccept :: bytes where
  "capabilityPreaccept = [0x01, 0x05, 0xff, 0x09, 0xe4, 0xbb, 0x07]"

definition leaf :: "string \<Rightarrow> (string \<times> string) list \<Rightarrow> node" where
  "leaf tag attrs = Node tag (map (\<lambda>(k, v). (k, AStr v)) attrs) CNone"

definition call_attrs :: "string \<Rightarrow> string \<Rightarrow> (string \<times> attr_val) list" where
  "call_attrs callID creator = [(''call-id'', AStr callID), (''call-creator'', AJid creator)]"

text \<open>\<open>sid\<close> is the stanza id that GenerateCallStanzaID draws.\<close>

definition call_stanza :: "string \<Rightarrow> string \<Rightarrow> node list \<Rightarrow> node" where
  "call_stanza dest sid inner = Node ''call'' [(''to'', AJid dest), (''id'', AStr sid)] (CNodes inner)"

text \<open>
  \<open>own_lid\<close>, \<open>own_pn\<close> and \<open>identity\<close> stand for what the socket returns; \<open>participants\<close> is the
  outcome of GetUSyncDevices, AssertSessions and CreateParticipantNodes: \<open>Inl\<close> the error.
\<close>

definition creator_of :: "string \<Rightarrow> string \<Rightarrow> string" where
  "creator_of own_lid own_pn = (if own_lid = [] then own_pn else own_lid)"

definition offer_content ::
    "node option \<Rightarrow> node list \<Rightarrow> bool \<Rightarrow> bytes option \<Rightarrow> bool \<Rightarrow> node list" where
  "offer_content identity destinations includeIdentity tctoken isVideo =
     (case tctoken of None \<Rightarrow> [] | Some tk \<Rightarrow> if tk = [] then [] else [Node ''privacy'' [] (CBytes tk)]) @
     [leaf ''audio'' [(''enc'', ''opus''), (''rate'', ''8000'')],
      leaf ''audio'' [(''enc'', ''opus''), (''rate'', ''16000'')]] @
     (if isVideo then [leaf ''video'' [(''enc'', ''vp8''), (''dec'', ''vp8''), (''orientation'', ''0''),
        (''screen_width'', ''1920''), (''screen_height'', ''1080''), (''device_orientation'', ''0'')]] else []) @
     [leaf ''net'' [(''medium'', ''3'')],
      Node ''capability'' [(''ver'', AStr ''1'')] (CBytes capabilityOffer),
      Node ''destination'' [] (CNodes destinations),
      leaf ''encopt'' [(''keygen'', ''2'')]] @
     (if includeIdentity then case identity of Some di \<Rightarrow> [di] | None \<Rightarrow> [] else [])"

definition BuildOfferStanza ::
    "string \<Rightarrow> string \<Rightarrow> node option \<Rightarrow> string + node list \<times> bool \<Rightarrow> bytes option \<Rightarrow> string \<Rightarrow> string
     \<Rightarrow> string \<Rightarrow> bool \<Rightarrow> string + node" where
  "BuildOfferStanza own_lid own_pn identity participants tctoken sid callID peerJid isVideo =
     (case participants of
        Inl e \<Rightarrow> Inl e
      | Inr (destinations, includeIdentity) \<Rightarrow>
          Inr (call_stanza peerJid sid [Node ''offer'' (call_attrs callID (creator_of own_lid own_pn))
            (CNodes (offer_content identity destinations includeIdentity tctoken isVideo))]))"

definition extractEncFromParticipant :: "node list \<Rightarrow> node option" where
  "extractEncFromParticipant nodes =
     find (\<lambda>c. node_tag c = ''enc'')
       (concat (map (\<lambda>n. if node_tag n = ''enc'' then [n] else NodeChildren n) nodes))"

text \<open>\<open>must_jid\<close> is MustJID: parse and print again, the empty JID when parsing fails.\<close>

definition BuildAcceptStanza ::
    "(string \<Rightarrow> string) \<Rightarrow> node option \<Rightarrow> string + node list \<times> bool \<Rightarrow> string \<Rightarrow> string \<Rightarrow> string
     \<Rightarrow> string \<Rightarrow> bool \<Rightarrow> string + node" where
  "BuildAcceptStanza must_jid identity participants sid callID peerJid callCreator isVideo =
     (case participants of
        Inl e \<Rightarrow> Inl e
      | Inr (nodes, includeIdentity) \<Rightarrow>
          (case extractEncFromParticipant nodes of
             None \<Rightarrow> Inl ''no enc node produced for accept''
           | Some enc \<Rightarrow> Inr (call_stanza (must_jid (CleanJID peerJid)) sid
               [Node ''accept'' (call_attrs callID callCreator)
                 (CNodes ([leaf ''audio'' [(''enc'', ''opus''), (''rate'', ''16000'')],
                           leaf ''net'' [(''medium'', ''3'')], enc, leaf ''encopt'' [(''keygen'', ''2'')]] @
                    (if includeIdentity then case identity of Some di \<Rightarrow> [di] | None \<Rightarrow> [] else []) @
                    (if isVideo then [leaf ''video'' [(''enc'', ''vp8'')]] else [])))])))"

definition BuildTerminateStanza :: "string \<Rightarrow> string \<Rightarrow> string \<Rightarrow> string \<Rightarrow> node" where
  "BuildTerminateStanza sid peerJid callID callCreator =
     call_stanza peerJid sid [Node ''terminate'' (call_attrs callID callCreator) CNone]"

definition BuildRejectStanza :: "string \<Rightarrow> string \<Rightarrow> string \<Rightarrow> string \<Rightarrow> node" where
  "BuildRejectStanza sid peerJid callID callCreator =
     call_stanza peerJid sid [Node ''reject'' (call_attrs callID callCreator) CNone]"

definition BuildPreacceptStanza :: "string \<Rightarrow> string \<Rightarrow> string \<Rightarrow> string \<Rightarrow> node" where
  "BuildPreacceptStanza sid peerJid callID callCreator =
     call_stanza peerJid sid [Node ''preaccept'' (call_attrs callID callCreator)
       (CNodes [leaf ''audio'' [(''enc'', ''opus''), (''rate'', ''16000'')],
                leaf ''encopt'' [(''keygen'', ''2'')],
                Node ''capability'' [(''ver'', AStr ''1'')] (CBytes capabilityPreaccept)])]"

definition CreateCallAck :: "string \<Rightarrow> string \<Rightarrow> string \<Rightarrow> node" where
  "CreateCallAck nodeID peerJid typ =
     Node ''ack'' [(''id'', AStr nodeID), (''to'', AJid peerJid), (''class'', AStr ''call''),
       (''type'', AStr typ)] CNone"

record latency_entry =
  le_relay :: string
  le_latency :: int
  le_address :: bytes

fun te_nodes :: "string list \<Rightarrow> latency_entry list \<Rightarrow> node list" where
  "te_nodes seen [] = []"
| "te_nodes seen (r # rs) =
     (if le_relay r = [] \<or> le_relay r \<in> set seen then te_nodes seen rs
      else Node ''te'' [(''latency'', AStr (int_text (0x2000000 + le_latency r))),
                        (''relay_name'', AStr (le_relay r))]
             (if le_address r \<noteq> [] then CBytes (le_address r) else CNone)
           # te_nodes (le_relay r # seen) rs)"

definition BuildRelayLatencyStanza ::
    "(string \<Rightarrow> string) \<Rightarrow> string \<Rightarrow> string \<Rightarrow> string \<Rightarrow> string \<Rightarrow> latency_entry list \<Rightarrow> string list \<Rightarrow> node" where
  "BuildRelayLatencyStanza must_jid sid peerJid callID callCreator relays dests =
     call_stanza (must_jid (CleanJID peerJid)) sid
       [Node ''relaylatency'' (call_attrs callID callCreator)
         (CNodes (te_nodes [] relays @
           (if dests \<noteq> [] then [Node ''destination'' []
              (CNodes (map (\<lambda>j. Node ''to'' [(''jid'', AJid j)] CNone) dests))] else [])))]"

definition BuildTransportStanza ::
    "(string \<Rightarrow> string) \<Rightarrow> string \<Rightarrow> string \<Rightarrow> string \<Rightarrow> string \<Rightarrow> node" where
  "BuildTransportStanza must_jid sid peerJid callID callCreator =
     call_stanza (must_jid (CleanJID peerJid)) sid
       [Node ''transport'' (call_attrs callID callCreator @
           [(''transport-message-type'', AStr ''0''), (''p2p-cand-round'', AStr ''0'')])
         (CNodes [leaf ''net'' [(''medium'', ''2''), (''protocol'', ''0'')]])]"

definition BuildMuteV2Stanza :: "string \<Rightarrow> string \<Rightarrow> string \<Rightarrow> string \<Rightarrow> int \<Rightarrow> node" where
  "BuildMuteV2Stanza sid peerDeviceJid callID callCreator muteState =
     call_stanza peerDeviceJid sid [Node ''mute_v2'' (call_attrs callID callCreator @
       [(''mute-state'', AStr (int_text muteState))]) CNone]"

definition BuildAcceptReceiptStanza :: "string \<Rightarrow> string \<Rightarrow> string \<Rightarrow> string \<Rightarrow> string \<Rightarrow> node" where
  "BuildAcceptReceiptStanza peerDeviceJid acceptMsgID callID callCreator ourJid =
     Node ''receipt'' [(''to'', AJid peerDeviceJid), (''id'', AStr acceptMsgID), (''from'', AJid ourJid)]
       (CNodes [Node ''accept'' (call_attrs callID callCreator) CNone])"

section \<open>Sorting by round trip time\<close>

lemma stable_insert_mset [simp]: "mset (stable_insert lt x ys) = add_mset x (mset ys)"
  by (induction ys) auto

lemma stable_sort_mset: "mset (stable_sort lt xs) = mset xs"
  by (induction xs) (simp_all add: stable_sort_def)

definition rtt_le :: "relay_endpoint \<Rightarrow> relay_endpoint \<Rightarrow> bool" where
  "rtt_le a b \<longleftrightarrow> \<not> rtt_less b a"

lemma rtt_le_trans: "rtt_le a b \<Longrightarrow> rtt_le b c \<Longrightarrow> rtt_le a c"
  by (auto simp: rtt_le_def rtt_less_def split: option.splits)

lemma stable_insert_sorted:
  "sorted_wrt rtt_le ys \<Longrightarrow> sorted_wrt rtt_le (stable_insert rtt_less x ys)"
proof (induction ys)
  case (Cons y ys)
  have set: "set (stable_insert rtt_less x ys) = insert x (set ys)"
    by (metis mset_eq_setD set_mset_add_mset_insert set_mset_mset stable_insert_mset)
  show ?case
  proof (cases "rtt_less y x")
    case True
    then have "rtt_le y x" by (auto simp: rtt_le_def rtt_less_def split: option.splits)
    with True Cons set show ?thesis by auto
  next
    case False
    then have "rtt_le x y" by (simp add: rtt_le_def)
    with False Cons.prems show ?thesis by (auto intro: rtt_le_trans)
  qed
qed simp

lemma stable_insert_filter:
  "filter (\<lambda>e. ep_c2r_rtt e = k) (stable_insert rtt_less x ys) =
     filter (\<lambda>e. ep_c2r_rtt e = k) (x # ys)"
  by (induction ys) (auto simp: rtt_less_def split: option.splits)

lemma sortRelaysByRtt_props:
  "mset (sortRelaysByRtt rs) = mset rs" "sorted_wrt rtt_le (sortRelaysByRtt rs)"
  "filter (\<lambda>e. ep_c2r_rtt e = k) (sortRelaysByRtt rs) = filter (\<lambda>e. ep_c2r_rtt e = k) rs"
  by (induction rs)
     (simp_all add: sortRelaysByRtt_def stable_sort_def stable_insert_sorted stable_insert_filter)

text \<open>C24: the relays of an offer acknowledgement come out as a permutation of those that were
  read, the fastest known round trip first, relays of unknown round trip last, and relays of equal
  round trip in the order of the stanza.  No participant is listed twice.\<close>

theorem ack_relays_sorted:
  "let r = ParseRelayFromAck n;
       raw = foldl ack_child \<lparr>pa_relays = [], pa_participants = [], pa_uuid = [], pa_self_pid = None,
               pa_peer_pid = None, pa_hbh_key = None\<rparr> (NodeChildren n) in
   mset (pa_relays r) = mset (pa_relays raw) \<and>
   sorted_wrt (\<lambda>a b. \<not> rtt_less b a) (pa_relays r) \<and>
   filter (\<lambda>e. ep_c2r_rtt e = k) (pa_relays r) = filter (\<lambda>e. ep_c2r_rtt e = k) (pa_relays raw) \<and>
   distinct (pa_participants r)"
proof -
  have add: "distinct (pa_participants (add_participant r j))" if "distinct (pa_participants r)" for r j
    using that by (simp add: add_participant_def)
  have scan: "distinct (pa_participants (foldl (\<lambda>r d. if P d then add_participant r (f d) else r) r ds))"
    if "distinct (pa_participants r)" for r P f and ds :: "node list"
    using that by (induction ds arbitrary: r) (simp_all add: add)
  have child: "distinct (pa_participants (ack_child r c))" if "distinct (pa_participants r)" for r c
    using that by (auto simp: ack_child_def Let_def intro!: scan)
  have "distinct (pa_participants (foldl ack_child r cs))" if "distinct (pa_participants r)" for r cs
    using that by (induction cs arbitrary: r) (simp_all add: child)
  moreover have "rtt_le = (\<lambda>a b. \<not> rtt_less b a)"
    by (intro ext) (simp add: rtt_le_def)
  ultimately show ?thesis
    using sortRelaysByRtt_props by (simp add: ParseRelayFromAck_def Let_def)
qed

section \<open>The call key on the wire\<close>

lemma unpad_padRandomMax16:
  "unpadRandomMax16 (padRandomMax16 r msg) = Some msg \<and>
   length (padRandomMax16 r msg) \<le> length msg + 16"
proof -
  have n: "unat (r AND 15) + 1 \<le> 16"
  proof -
    have "unat (r AND 15) \<le> 15" using word_and_le1 [of r 15] by (simp add: word_le_nat_alt)
    then show ?thesis by simp
  qed
  then have u: "unat (word_of_nat (unat (r AND 15) + 1) :: u8) = unat (r AND 15) + 1"
    by (simp only: unat_of_nat) simp
  show ?thesis
    using n u by (simp add: padRandomMax16_def unpadRandomMax16_def Let_def del: of_nat_add)
qed

lemma call_attrs_get [simp]:
  "AttrString (call_attrs i c) ''call-id'' = i" "AttrString (call_attrs i c) ''call-creator'' = c"
  by (simp_all add: call_attrs_def AttrString_def gm_get_def)

lemma is_enc_simps [simp]:
  "\<not> is_enc (leaf ''audio'' a)" "\<not> is_enc (leaf ''video'' a)" "\<not> is_enc (leaf ''net'' a)"
  "\<not> is_enc (leaf ''encopt'' a)" "\<not> is_enc (Node ''privacy'' at ct)"
  "\<not> is_enc (Node ''capability'' at ct)" "\<not> is_enc (Node ''destination'' at ct)"
  by (simp_all add: is_enc_def leaf_def)

lemma leaf_tag [simp]: "node_tag (leaf t a) = t"
  by (simp add: leaf_def)

lemma offer_content_no_enc:
  assumes "\<forall>d. identity = Some d \<longrightarrow> node_tag d = ''device-identity''"
  shows "find is_enc (offer_content identity dests incl tok video) = None"
proof -
  have "\<not> is_enc d" if "identity = Some d" for d
    using assms that by (simp add: is_enc_def)
  then show ?thesis
    unfolding offer_content_def
    by (cases identity; cases tok; cases video; cases incl) simp_all
qed

lemma offer_content_dest:
  assumes "\<forall>d. identity = Some d \<longrightarrow> node_tag d = ''device-identity''"
  shows "filter (\<lambda>c. node_tag c = ''destination'') (offer_content identity dests incl tok video) =
    [Node ''destination'' [] (CNodes dests)]"
  using assms unfolding offer_content_def
  by (cases identity; cases tok; cases video; cases incl) simp_all



end
