(* ===== verification/RxPath.thy ===== *)
theory RxPath
  imports Complex_Main Srtp Stun "HOL-Library.List_Lexorder" "HOL-Library.Char_ord"
begin

text \<open>
  The state of the receiving path of a call: the telemetry of
  src/internal/voip/call/rxstats.go, the window that drops relay copies and the lock on the
  peer's stream of callmanager_media.go.

  A PCM sample is an exact rational: the float32 rounding of the codec is not modelled.
  Instants are nanoseconds.
\<close>

unbundle bit_operations_syntax

type_synonym pcm = "rat list"

section \<open>Telemetry (rxstats.go)\<close>

record rx_stats =
  st_packets :: int
  st_gaps :: int
  st_max_gap :: int
  st_undecodable :: int
  st_relocks :: int
  st_last_ns :: int
  st_last_speech :: bool
  st_by_relay :: "(string, int) gomap"

definition rx_stats_zero :: rx_stats where
  "rx_stats_zero = \<lparr>st_packets = 0, st_gaps = 0, st_max_gap = 0, st_undecodable = 0, st_relocks = 0,
     st_last_ns = 0, st_last_speech = False, st_by_relay = []\<rparr>"

definition rxSpeechGap :: int where "rxSpeechGap = 600000000"

definition isSpeech :: "pcm \<Rightarrow> bool" where
  "isSpeech p \<longleftrightarrow> p \<noteq> [] \<and>
     sum_list (map (\<lambda>v. v * v) p) / of_nat (length p) > (1 / 100) * (1 / 100)"

definition rx_decoded :: "rx_stats \<Rightarrow> int \<Rightarrow> pcm \<Rightarrow> string \<Rightarrow> rx_stats" where
  "rx_decoded s arrivalNs p relay =
     (let speech = isSpeech p;
          n = (case gm_get (st_by_relay s) relay of None \<Rightarrow> 0 | Some n \<Rightarrow> n);
          s1 = s\<lparr>st_packets := st_packets s + 1, st_by_relay := gm_put relay (n + 1) (st_by_relay s)\<rparr>
      in if st_last_ns s < arrivalNs then
           (let gap = arrivalNs - st_last_ns s;
                s2 = (if speech \<and> st_last_speech s \<and> rxSpeechGap < gap
                      then s1\<lparr>st_gaps := st_gaps s1 + 1, st_max_gap := max (st_max_gap s1) gap\<rparr>
                      else s1)
            in s2\<lparr>st_last_ns := arrivalNs, st_last_speech := speech\<rparr>)
         else s1)"

definition rx_dropped :: "rx_stats \<Rightarrow> rx_stats" where
  "rx_dropped s = s\<lparr>st_undecodable := st_undecodable s + 1\<rparr>"

definition rx_relocked :: "rx_stats \<Rightarrow> rx_stats" where
  "rx_relocked s = s\<lparr>st_relocks := st_relocks s + 1\<rparr>"

record rx_report =
  rp_packets :: int
  rp_speech_gaps :: int
  rp_max_gap :: int
  rp_undecodable :: int
  rp_relocks :: int
  rp_relay :: string

definition rx_snapshot :: "rx_stats \<Rightarrow> rx_report" where
  "rx_snapshot s =
     \<lparr>rp_packets = st_packets s, rp_speech_gaps = st_gaps s, rp_max_gap = st_max_gap s,
      rp_undecodable = st_undecodable s, rp_relocks = st_relocks s,
      rp_relay = snd (foldl (\<lambda>(best, r) name.
        let n = the (gm_get (st_by_relay s) name) in if best < n then (n, name) else (best, r))
        (0, []) (sort (gm_keys (st_by_relay s))))\<rparr>"

section \<open>The window of relay copies\<close>

definition rxWindow :: nat where "rxWindow = 512"

record rx_window =
  rw_set :: "u64 list"      \<comment> \<open>rxDedup, a set\<close>
  rw_ring :: "u64 list"     \<comment> \<open>rxDedupRing\<close>
  rw_idx :: nat
  rw_filled :: bool

definition rx_window_zero :: rx_window where
  "rx_window_zero = \<lparr>rw_set = [], rw_ring = replicate rxWindow 0, rw_idx = 0, rw_filled = False\<rparr>"

definition rx_window_reset :: "rx_window \<Rightarrow> rx_window" where
  "rx_window_reset w = w\<lparr>rw_set := [], rw_idx := 0, rw_filled := False\<rparr>"

definition dedup_key :: "u32 \<Rightarrow> u16 \<Rightarrow> u64" where
  "dedup_key ssrc sq = push_bit 16 (ucast ssrc) OR ucast sq"

text \<open>\<open>None\<close>: the packet is a copy.\<close>

definition dedup_step :: "rx_window \<Rightarrow> u64 \<Rightarrow> rx_window option" where
  "dedup_step w k =
     (if k \<in> set (rw_set w) then None
      else let set1 = (if rw_filled w then removeAll (rw_ring w ! rw_idx w) (rw_set w) else rw_set w);
               idx1 = rw_idx w + 1
           in Some \<lparr>rw_set = k # set1, rw_ring = (rw_ring w)[rw_idx w := k],
                    rw_idx = (if idx1 = length (rw_ring w) then 0 else idx1),
                    rw_filled = (rw_filled w \<or> idx1 = length (rw_ring w))\<rparr>)"

fun dedup_run :: "rx_window \<Rightarrow> u64 list \<Rightarrow> bool list" where
  "dedup_run w [] = []"
| "dedup_run w (k # ks) =
     (case dedup_step w k of
        None \<Rightarrow> False # dedup_run w ks
      | Some w' \<Rightarrow> True # dedup_run w' ks)"

text \<open>The specification: a key is refused exactly when it is among the last \<open>n\<close> accepted ones.\<close>

fun window_run :: "nat \<Rightarrow> 'k list \<Rightarrow> 'k list \<Rightarrow> bool list" where
  "window_run n seen [] = []"
| "window_run n seen (k # ks) =
     (if k \<in> set seen then False # window_run n seen ks
      else True # window_run n (drop (Suc (length seen) - n) (seen @ [k])) ks)"

text \<open>The keys in the window, oldest first, and what relates the ring to the set.\<close>

definition window_keys :: "rx_window \<Rightarrow> u64 list" where
  "window_keys w = (if rw_filled w then drop (rw_idx w) (rw_ring w) else []) @ take (rw_idx w) (rw_ring w)"

definition window_ok :: "rx_window \<Rightarrow> bool" where
  "window_ok w \<longleftrightarrow> length (rw_ring w) = rxWindow \<and> rw_idx w < rxWindow \<and>
     distinct (window_keys w) \<and> set (rw_set w) = set (window_keys w)"

lemma rxWindow_pos [simp]: "0 < rxWindow"
  by (simp add: rxWindow_def)

lemma ring_split:
  assumes "i < length r"
  shows "r = take i r @ r ! i # drop (Suc i) r"
  using assms by (simp add: id_take_nth_drop)

lemma dedup_step_window:
  assumes ok: "window_ok w" and new: "k \<notin> set (rw_set w)"
  obtains w' where "dedup_step w k = Some w'" "window_ok w'"
    "window_keys w' = drop (Suc (length (window_keys w)) - rxWindow) (window_keys w @ [k])"
proof -
  let ?r = "rw_ring w" and ?i = "rw_idx w"
  let ?a = "take ?i ?r" and ?b = "drop (Suc ?i) ?r" and ?x = "?r ! ?i"
  have i: "?i < length ?r" and len: "length ?r = rxWindow"
    using ok by (simp_all add: window_ok_def)
  have r: "?r = ?a @ ?x # ?b" using i by (rule ring_split)
  have upd: "?r[?i := k] = ?a @ k # ?b"
    using i by (simp add: upd_conv_take_nth_drop)
  have la: "length ?a = ?i" "length ?b = rxWindow - Suc ?i"
    using i len by simp_all
  define set1 where "set1 = (if rw_filled w then removeAll ?x (rw_set w) else rw_set w)"
  define w' where "w' = \<lparr>rw_set = k # set1, rw_ring = ?a @ k # ?b,
      rw_idx = (if ?i + 1 = rxWindow then 0 else ?i + 1),
      rw_filled = (rw_filled w \<or> ?i + 1 = rxWindow)\<rparr>"
  have step: "dedup_step w k = Some w'"
    using new len by (simp add: dedup_step_def Let_def w'_def set1_def upd)
  have keys: "window_keys w = (if rw_filled w then ?x # ?b else []) @ ?a"
    using i by (simp add: window_keys_def Cons_nth_drop_Suc)
  have keys': "window_keys w' = (if rw_filled w then ?b else []) @ ?a @ [k]"
    using la i len by (auto simp: window_keys_def w'_def)
  have "set (rw_set w) = set (window_keys w)" "distinct (window_keys w)"
    using ok by (simp_all add: window_ok_def)
  then have "set (k # set1) = set (window_keys w')" "distinct (window_keys w')"
    using new unfolding keys keys' by (auto simp: set1_def)
  moreover have "length (?a @ k # ?b) = rxWindow"
    using la i len by simp
  ultimately have ok': "window_ok w'"
    unfolding window_ok_def using i len by (simp add: w'_def)
  have "Suc (length (window_keys w)) - rxWindow = (if rw_filled w then 1 else 0)"
    using la i len by (simp add: keys)
  then have "window_keys w' = drop (Suc (length (window_keys w)) - rxWindow) (window_keys w @ [k])"
    by (simp add: keys keys')
  with step ok' show ?thesis by (rule that)
qed

lemma dedup_run_window:
  "window_ok w \<Longrightarrow> dedup_run w ks = window_run rxWindow (window_keys w) ks"
proof (induction ks arbitrary: w)
  case (Cons k ks)
  show ?case
  proof (cases "k \<in> set (rw_set w)")
    case True
    then have "dedup_step w k = None" "k \<in> set (window_keys w)"
      using Cons.prems by (simp_all add: dedup_step_def window_ok_def)
    then show ?thesis using Cons by simp
  next
    case False
    then obtain w' where "dedup_step w k = Some w'" "window_ok w'"
      "window_keys w' = drop (Suc (length (window_keys w)) - rxWindow) (window_keys w @ [k])"
      using dedup_step_window Cons.prems by blast
    moreover have "k \<notin> set (window_keys w)"
      using False Cons.prems by (simp add: window_ok_def)
    ultimately show ?thesis using Cons.IH [of w'] by simp
  qed
qed simp

lemma window_ok_start [simp]: "window_ok rx_window_zero" "window_keys rx_window_zero = []"
  by (simp_all add: window_ok_def rx_window_zero_def window_keys_def)

lemma window_reset [simp]: "window_ok w \<Longrightarrow> window_ok (rx_window_reset w)"
    "window_keys (rx_window_reset w) = []"
  by (simp_all add: window_ok_def rx_window_reset_def window_keys_def)

definition dedup_keep :: "rx_window \<Rightarrow> u64 \<Rightarrow> rx_window" where
  "dedup_keep w k = (case dedup_step w k of None \<Rightarrow> w | Some w' \<Rightarrow> w')"

lemma dedup_keep_ok:
  assumes "window_ok w" shows "window_ok (dedup_keep w k)"
proof (cases "k \<in> set (rw_set w)")
  case True
  then show ?thesis using assms by (simp add: dedup_keep_def dedup_step_def)
next
  case False
  obtain w' where "dedup_step w k = Some w'" "window_ok w'"
    using dedup_step_window [OF assms False] .
  then show ?thesis by (simp add: dedup_keep_def)
qed

interpretation window: step_machine dedup_keep window_ok
  by unfold_locales (rule dedup_keep_ok)

text \<open>C12: the ring buffer with its hash set implements the sliding window: after any sequence of
  packets and a reset, or from the start, a packet is refused exactly when its SSRC and sequence
  number are among the last 512 accepted ones.\<close>

theorem dedup_is_sliding_window:
  "dedup_run (rx_window_reset (run_steps dedup_keep rx_window_zero before)) ks = window_run 512 [] ks \<and>
   dedup_run rx_window_zero ks = window_run 512 [] ks"
proof -
  have "window_ok (run_steps dedup_keep rx_window_zero before)"
    by (rule window.run_inv) simp
  then show ?thesis
    using dedup_run_window [OF window_reset(1)] dedup_run_window [of rx_window_zero]
    by (simp add: rxWindow_def)
qed

section \<open>The lock on the peer's stream (onRelayData)\<close>

definition rxFailoverSilence :: int where "rxFailoverSilence = 2000000000"

record rx_lock =
  rl_ssrc :: u32
  rl_last_ns :: int

text \<open>C1: \<open>None\<close> drops the packet; otherwise the touched lock and whether this is a failover try.\<close>

definition lock_admit :: "rx_lock \<Rightarrow> u32 \<Rightarrow> int \<Rightarrow> (rx_lock \<times> bool) option" where
  "lock_admit l ssrc now =
     (if rl_ssrc l \<noteq> 0 \<and> ssrc \<noteq> rl_ssrc l then
        (if rxFailoverSilence < now - rl_last_ns l then Some (l, True) else None)
      else if ssrc = rl_ssrc l then Some (l\<lparr>rl_last_ns := now\<rparr>, False)
      else Some (l, False))"

text \<open>C2, after the packet decoded: take the lock or let a failover take it over.\<close>

definition lock_commit :: "rx_lock \<Rightarrow> u32 \<Rightarrow> int \<Rightarrow> bool \<Rightarrow> rx_lock \<times> bool" where
  "lock_commit l ssrc now failoverTry =
     (if rl_ssrc l = 0 \<or> failoverTry then
        (if rl_ssrc l = 0 then (\<lparr>rl_ssrc = ssrc, rl_last_ns = now\<rparr>, False)
         else if failoverTry \<and> ssrc \<noteq> rl_ssrc l \<and> rxFailoverSilence < now - rl_last_ns l
         then (\<lparr>rl_ssrc = ssrc, rl_last_ns = now\<rparr>, True)
         else (l, False))
      else (l, False))"

lemma lock_commit_admitted:
  assumes "lock_admit l ssrc now = Some (l1, f)"
  shows "rl_ssrc (fst (lock_commit l1 ssrc now f)) = ssrc"
  using assms by (auto simp: lock_admit_def lock_commit_def split: if_splits)

end
