(* ===== verification/CallManager.thy ===== *)
theory CallManager
  imports RxPath Signaling RelayMgr
begin

text \<open>
  One call end to end: src/internal/voip/call/callmanager.go, callmanager_signaling.go,
  callmanager_media.go, callmanager_relay.go, callmanager_srtp.go and callmanager_hold.go.

  Every handler is one function from the manager's state to its new state, run to its end (the
  Go handlers drop the mutex between sections; what another handler could do in between is not
  modelled, except that relay callbacks are events of their own).  Effects on the outside are
  appended to \<open>cm_out\<close>; what the outside answers in a handler is in \<open>draws\<close>.
\<close>

unbundle bit_operations_syntax

section \<open>State\<close>

text \<open>What does not change during a call: the crypto primitives, the account, the codec.\<close>

record voip_env =
  ev_aes :: "bytes \<Rightarrow> bytes \<Rightarrow> bytes"
  ev_hmac :: "bytes \<Rightarrow> bytes \<Rightarrow> bytes"
  ev_hkdf :: "bytes \<Rightarrow> bytes \<Rightarrow> string \<Rightarrow> nat \<Rightarrow> bytes option"
  ev_own_lid :: string
  ev_own_pn :: string
  ev_must_jid :: "string \<Rightarrow> string"
  ev_decrypt :: "string \<Rightarrow> node \<Rightarrow> string + bytes"
  ev_encode :: "nat \<Rightarrow> pcm \<Rightarrow> bytes option"    \<comment> \<open>result of the n-th Encode\<close>
  ev_decode :: "nat \<Rightarrow> bytes \<Rightarrow> pcm option"    \<comment> \<open>result of the n-th Decode\<close>
  ev_hold_pcm :: pcm
  ev_transfer_pcm :: pcm

text \<open>Clock, randomness and answers of the outside within one handler.\<close>

record draws =
  dr_now :: int
  dr_key :: bytes
  dr_seq :: u16
  dr_ts :: u32
  dr_ids :: "nat \<Rightarrow> string"
  dr_stun :: "nat \<Rightarrow> bytes \<times> bytes"
  dr_resolved :: string
  dr_participants :: "string + node list \<times> bool"
  dr_identity :: "node option"
  dr_tctoken :: "bytes option"
  dr_query :: "string + node option"
  dr_send :: "nat \<Rightarrow> bool"
  dr_connect :: "relay_config \<Rightarrow> connect_outcome"

datatype cm_output =
    OutSend node
  | OutQuery node
  | OutState call_info
  | OutIncoming call_info
  | OutEnded call_info
  | OutAudio pcm
  | OutRelayConnected

datatype call_error = CallError string | SendError | StanzaError string

record call_mgr =
  cm_call :: "call_info option"
  cm_rtp :: "rtp_session option"
  cm_srtp :: "srtp_session option"
  cm_codec :: bool
  cm_relay :: relay_mgr
  cm_self :: u32
  cm_peers :: "u32 list option"
  cm_actual_peer :: bool
  cm_first_sent :: bool
  cm_initial_transport :: bool
  cm_preaccept_sent :: bool
  cm_accepted_by :: string
  cm_debe :: bool
  cm_buf :: pcm
  cm_last_capture :: int
  cm_keepalive :: bool
  cm_hold :: bool
  cm_hold_loop :: "(pcm \<times> nat) option"
  cm_lock :: rx_lock
  cm_window :: rx_window
  cm_rx :: rx_stats
  cm_encoded :: nat
  cm_decoded :: nat
  cm_out :: "cm_output list"

definition NewCallManager :: call_mgr where
  "NewCallManager =
     \<lparr>cm_call = None, cm_rtp = None, cm_srtp = None, cm_codec = False,
      cm_relay = NewSctpRelayManager, cm_self = 0, cm_peers = None, cm_actual_peer = False,
      cm_first_sent = False, cm_initial_transport = False, cm_preaccept_sent = False,
      cm_accepted_by = [], cm_debe = True, cm_buf = [], cm_last_capture = 0, cm_keepalive = False,
      cm_hold = False, cm_hold_loop = None, cm_lock = \<lparr>rl_ssrc = 0, rl_last_ns = 0\<rparr>,
      cm_window = rx_window_zero, cm_rx = rx_stats_zero, cm_encoded = 0, cm_decoded = 0, cm_out = []\<rparr>"

definition emit :: "call_mgr \<Rightarrow> cm_output \<Rightarrow> call_mgr" where
  "emit m x = m\<lparr>cm_out := cm_out m @ [x]\<rparr>"

definition emitState :: "call_mgr \<Rightarrow> call_mgr" where
  "emitState m = (case cm_call m of None \<Rightarrow> m | Some c \<Rightarrow> emit m (OutState c))"

text \<open>\<open>_ = call.ApplyTransition(t)\<close> on the current call; the flag tells whether it succeeded.\<close>

definition transit :: "int \<Rightarrow> call_mgr \<Rightarrow> transition \<Rightarrow> call_mgr \<times> bool" where
  "transit now m t =
     (case cm_call m of
        None \<Rightarrow> (m, False)
      | Some c \<Rightarrow> (let (c', e) = ApplyTransition now c t in (m\<lparr>cm_call := Some c'\<rparr>, e = None)))"

definition ownCredJid :: "voip_env \<Rightarrow> string" where
  "ownCredJid env = creator_of (ev_own_lid env) (ev_own_pn env)"

text \<open>hkdf.Key fails only for outputs far longer than four bytes; the code panics then.\<close>

definition ssrc_for :: "voip_env \<Rightarrow> string \<Rightarrow> string \<Rightarrow> u32" where
  "ssrc_for env callID jid =
     (case GenerateSecureSsrc (ev_hkdf env) callID jid 0 of None \<Rightarrow> 0 | Some s \<Rightarrow> s)"

definition frameSize :: nat where "frameSize = 960"

definition peer_list :: "call_mgr \<Rightarrow> u32 list" where
  "peer_list m = (case cm_peers m of None \<Rightarrow> [] | Some s \<Rightarrow> s)"

definition set_subscription :: "call_mgr \<Rightarrow> call_mgr" where
  "set_subscription m = m\<lparr>cm_relay := SetSubscriptionSsrc (cm_relay m) (firstSsrc (peer_list m))\<rparr>"

section \<open>Keys (callmanager_srtp.go)\<close>

definition participants_of :: "call_info \<Rightarrow> string list" where
  "participants_of c = (case ci_relay c of None \<Rightarrow> [] | Some rd \<Rightarrow> rd_participants rd)"

definition our_device :: "voip_env \<Rightarrow> string list \<Rightarrow> string" where
  "our_device env ps =
     ensureDeviceJid (findOurDevice ps (CleanJID (ownCredJid env)) (ownCredJid env))"

definition peer_device :: "voip_env \<Rightarrow> call_mgr \<Rightarrow> call_info \<Rightarrow> string" where
  "peer_device env m c =
     ensureDeviceJid
       (if cm_accepted_by m \<noteq> [] then cm_accepted_by m
        else let p = firstPeerDevice (participants_of c) (CleanJID (ownCredJid env))
             in if p \<noteq> [] then p else ci_peer c)"

definition derive_session :: "voip_env \<Rightarrow> bytes \<Rightarrow> string \<Rightarrow> bytes \<Rightarrow> string \<Rightarrow> srtp_session option" where
  "derive_session env sendKey sendJid recvKey recvJid =
     (case (DerivePerJidSrtpKey (ev_hkdf env) sendKey sendJid,
            DerivePerJidSrtpKey (ev_hkdf env) recvKey recvJid) of
        (Some sk, Some rk) \<Rightarrow>
          (case NewSrtpSession (ev_aes env) sk rk 4 4 of Inl _ \<Rightarrow> None | Inr s \<Rightarrow> Some s)
      | _ \<Rightarrow> None)"

definition initSrtpKeys :: "voip_env \<Rightarrow> call_mgr \<Rightarrow> call_mgr" where
  "initSrtpKeys env m =
     (case cm_call m of
        None \<Rightarrow> m
      | Some c \<Rightarrow> (case ci_key c of
          None \<Rightarrow> m
        | Some k \<Rightarrow>
            (case derive_session env k (our_device env (participants_of c)) k (peer_device env m c) of
               None \<Rightarrow> m
             | Some s \<Rightarrow> m\<lparr>cm_srtp := Some s\<rparr>)))"

definition reinitSrtp :: "voip_env \<Rightarrow> call_mgr \<Rightarrow> bytes \<Rightarrow> string \<Rightarrow> call_mgr" where
  "reinitSrtp env m peerKey peerJid =
     (case cm_call m of
        None \<Rightarrow> m
      | Some c \<Rightarrow> (case ci_key c of
          None \<Rightarrow> m
        | Some k \<Rightarrow>
            (case derive_session env k (our_device env (participants_of c)) peerKey peerJid of
               None \<Rightarrow> m
             | Some s \<Rightarrow> m\<lparr>cm_srtp := Some s\<rparr>)))"

section \<open>Media (callmanager_media.go)\<close>

definition initCodec :: "call_mgr \<Rightarrow> call_mgr" where
  "initCodec m = m\<lparr>cm_codec := True\<rparr>"

definition sendOpusFrame :: "voip_env \<Rightarrow> call_mgr \<Rightarrow> bytes \<Rightarrow> call_mgr" where
  "sendOpusFrame env m opus =
     (case (cm_rtp m, cm_srtp m) of
        (Some rtp, Some srtp) \<Rightarrow>
          (let (pkt, rtp') = CreatePacketWithDuration rtp opus (int frameSize) (\<not> cm_first_sent m);
               pkt' = (if cm_debe m then pkt\<lparr>rp_header := (rp_header pkt)\<lparr>rh_extension := True,
                         rh_ext_profile := 0xbede, rh_ext_data := []\<rparr>\<rparr> else pkt);
               (srtp', r) = srtp_session_protect (ev_aes env) (ev_hmac env) srtp pkt';
               m1 = m\<lparr>cm_rtp := Some rtp', cm_srtp := Some srtp', cm_first_sent := True\<rparr>
           in (case r of
                 Inl _ \<Rightarrow> m1
               | Inr bs \<Rightarrow> m1\<lparr>cm_relay := Broadcast (cm_relay m1) bs\<rparr>))
      | _ \<Rightarrow> m)"

definition encode_and_send :: "voip_env \<Rightarrow> call_mgr \<Rightarrow> pcm \<Rightarrow> call_mgr" where
  "encode_and_send env m frame =
     (let m1 = m\<lparr>cm_encoded := cm_encoded m + 1\<rparr> in
      case ev_encode env (cm_encoded m) frame of
        None \<Rightarrow> m1 | Some opus \<Rightarrow> sendOpusFrame env m1 opus)"

definition media_ready :: "call_mgr \<Rightarrow> bool" where
  "media_ready m \<longleftrightarrow> cm_codec m \<and> cm_rtp m \<noteq> None \<and> cm_srtp m \<noteq> None \<and> HasConnection (cm_relay m)"

text \<open>The capture loop: fill the frame buffer, send every full frame, keep the rest.\<close>

function feed_loop :: "voip_env \<Rightarrow> call_mgr \<Rightarrow> pcm \<Rightarrow> pcm \<Rightarrow> call_mgr" where
  "feed_loop env m buf data =
     (if data = [] then m\<lparr>cm_buf := buf\<rparr>
      else let toCopy = min (length data) (frameSize - length buf);
               buf' = buf @ take toCopy data
           in if length buf' < frameSize then m\<lparr>cm_buf := buf'\<rparr>
              else feed_loop env (encode_and_send env (m\<lparr>cm_buf := []\<rparr>) buf') [] (drop toCopy data))"
  by auto
termination
  by (relation "measures [\<lambda>(_, _, _, data). length data, \<lambda>(_, _, buf, _). length buf]")
     (auto simp: frameSize_def)

declare feed_loop.simps [simp del]

definition FeedCapturedPCM :: "voip_env \<Rightarrow> int \<Rightarrow> call_mgr \<Rightarrow> pcm \<Rightarrow> call_mgr" where
  "FeedCapturedPCM env now m data =
     (if cm_hold m \<or> \<not> media_ready m then m
      else feed_loop env (m\<lparr>cm_last_capture := now\<rparr>) (cm_buf m) data)"

definition startSilenceKeepalive :: "call_mgr \<Rightarrow> call_mgr" where
  "startSilenceKeepalive m =
     (if cm_keepalive m \<or> \<not> cm_codec m then m else m\<lparr>cm_keepalive := True\<rparr>)"

text \<open>One tick of the 60 ms keepalive ticker.\<close>

definition keepalive_tick :: "voip_env \<Rightarrow> int \<Rightarrow> call_mgr \<Rightarrow> call_mgr" where
  "keepalive_tick env now m =
     (if cm_keepalive m \<and> \<not> cm_hold m \<and> media_ready m \<and> 120000000 < now - cm_last_capture m
      then encode_and_send env m (replicate frameSize 0) else m)"

definition NormalizeFrame :: "pcm \<Rightarrow> nat \<Rightarrow> pcm" where
  "NormalizeFrame p n = (if length p = n then p else take n (p @ replicate n 0))"

definition rtp_pt :: "bytes \<Rightarrow> u8" where
  "rtp_pt data = byte_at data 1 AND 0x7f"

text \<open>The end of onRelayData: decode outside the lock, commit the lock, deliver.\<close>

definition deliver ::
    "voip_env \<Rightarrow> int \<Rightarrow> call_mgr \<Rightarrow> u32 \<Rightarrow> bool \<Rightarrow> bytes \<Rightarrow> string \<Rightarrow> call_mgr" where
  "deliver env now m ssrc failoverTry data relay =
     (case cm_srtp m of
        None \<Rightarrow> m
      | Some srtp \<Rightarrow>
          (let (srtp', r) = srtp_session_unprotect (ev_aes env) srtp data;
               m1 = m\<lparr>cm_srtp := Some srtp'\<rparr>
           in case r of
                Inl _ \<Rightarrow> m1\<lparr>cm_rx := rx_dropped (cm_rx m1)\<rparr>
              | Inr pkt \<Rightarrow>
                  (if rp_payload pkt = [] then m1
                   else let m2 = m1\<lparr>cm_decoded := cm_decoded m1 + 1\<rparr> in
                     case ev_decode env (cm_decoded m1) (rp_payload pkt) of
                       None \<Rightarrow> m2\<lparr>cm_rx := rx_dropped (cm_rx m2)\<rparr>
                     | Some p \<Rightarrow>
                         (let (l, relock) = lock_commit (cm_lock m2) ssrc now failoverTry;
                              rx1 = (if relock then rx_relocked (cm_rx m2) else cm_rx m2);
                              frame = NormalizeFrame p frameSize
                          in emit (m2\<lparr>cm_lock := l, cm_rx := rx_decoded rx1 now frame relay\<rparr>)
                               (OutAudio frame)))))"

text \<open>The early returns, and what the first packet of an unknown peer changes.\<close>

definition rx_passes :: "call_mgr \<Rightarrow> bytes \<Rightarrow> bool" where
  "rx_passes m data \<longleftrightarrow> \<not> IsStunPacket data \<and> IsRtpPacket data \<and> 12 \<le> length data \<and>
     rtp_pt data = PayloadTypeWhatsAppOpus \<and> cm_srtp m \<noteq> None \<and> cm_codec m"

definition rx_learn_peer :: "voip_env \<Rightarrow> draws \<Rightarrow> call_mgr \<Rightarrow> u32 \<Rightarrow> call_mgr" where
  "rx_learn_peer env d m ssrc =
     (if cm_actual_peer m then m
      else let m' = m\<lparr>cm_actual_peer := True\<rparr> in
        if containsSsrc (peer_list m') ssrc then m'
        else m'\<lparr>cm_peers := Some [ssrc], cm_relay := ResendSubscriptions (ev_hmac env) (dr_stun d)
               (SetSubscriptionSsrc (cm_relay m') ssrc)\<rparr>)"

definition onRelayData ::
    "voip_env \<Rightarrow> draws \<Rightarrow> call_mgr \<Rightarrow> bytes \<Rightarrow> string \<Rightarrow> call_mgr" where
  "onRelayData env d m data relay =
     (if \<not> rx_passes m data \<or> get_be32 data 8 = cm_self m then m
      else (case lock_admit (cm_lock m) (get_be32 data 8) (dr_now d) of
          None \<Rightarrow> m
        | Some (l, failoverTry) \<Rightarrow>
            (case dedup_step (cm_window m) (dedup_key (get_be32 data 8) (get_be16 data 2)) of
               None \<Rightarrow> m\<lparr>cm_lock := l\<rparr>
             | Some w \<Rightarrow> deliver env (dr_now d)
                 (rx_learn_peer env d (m\<lparr>cm_lock := l, cm_window := w\<rparr>) (get_be32 data 8))
                 (get_be32 data 8) failoverTry data relay)))"

section \<open>Relays (callmanager_relay.go)\<close>

definition onRelayConnected :: "int \<Rightarrow> call_mgr \<Rightarrow> call_mgr" where
  "onRelayConnected now m =
     (let m1 = (case cm_call m of
                  None \<Rightarrow> m
                | Some c \<Rightarrow>
                    (if ci_state c = CallStateConnecting then
                       (let (m', ok) = transit now m (simple_transition TransitionMediaConnected)
                        in if ok then startSilenceKeepalive (emitState m') else m')
                     else m))
      in emit m1 OutRelayConnected)"

definition relay_config_of :: "relay_endpoint \<Rightarrow> relay_config" where
  "relay_config_of ep =
     \<lparr>rc_ip = ep_ip ep, rc_port = 3478, rc_token = ep_token ep, rc_auth_token = ep_auth_token ep,
      rc_raw_auth_token = ep_raw_auth_token ep, rc_raw_token = ep_raw_token ep, rc_key = ep_key ep,
      rc_relay_id = ep_relay_id ep,
      rc_name = (if ep_relay_name ep = [] then ep_ip ep else ep_relay_name ep),
      rc_auth_token_id = ep_auth_token_id ep\<rparr>"

fun relay_configs :: "string list \<Rightarrow> relay_endpoint list \<Rightarrow> relay_config list" where
  "relay_configs seen [] = []"
| "relay_configs seen (ep # eps) =
     (if ep_protocol ep \<noteq> 0 \<or> ep_key ep = [] \<or> ep_raw_token ep = None \<or> ep_ip ep \<in> set seen
      then relay_configs seen eps
      else relay_config_of ep # relay_configs (ep_ip ep # seen) eps)"

definition buildRelayConfigs :: "relay_endpoint list \<Rightarrow> relay_config list" where
  "buildRelayConfigs eps = relay_configs [] eps"

definition connectRelays :: "draws \<Rightarrow> call_mgr \<Rightarrow> relay_endpoint list \<Rightarrow> call_mgr" where
  "connectRelays d m eps =
     (let relays = buildRelayConfigs eps in
      if relays = [] then m
      else let m1 = set_subscription (m\<lparr>cm_relay := SetSsrc (cm_relay m) (cm_self m)\<rparr>)
           in m1\<lparr>cm_relay := ConfigureRelays (cm_relay m1) (map (\<lambda>r. (r, dr_connect d r)) relays)\<rparr>)"

definition cleanupMedia :: "call_mgr \<Rightarrow> call_mgr" where
  "cleanupMedia m =
     m\<lparr>cm_codec := False, cm_keepalive := False, cm_hold_loop := None, cm_hold := False,
       cm_rtp := None, cm_srtp := None, cm_first_sent := False, cm_initial_transport := False,
       cm_preaccept_sent := False, cm_actual_peer := False, cm_buf := [],
       cm_lock := \<lparr>rl_ssrc = 0, rl_last_ns = 0\<rparr>, cm_window := rx_window_reset (cm_window m),
       cm_relay := relay_cleanup (cm_relay m)\<rparr>"

section \<open>Local operations (callmanager.go)\<close>

definition send_node :: "call_mgr \<Rightarrow> node \<Rightarrow> call_mgr" where
  "send_node m n = emit m (OutSend n)"

text \<open>The media state both StartCall and HandleCallOffer set up.\<close>

definition init_media :: "voip_env \<Rightarrow> draws \<Rightarrow> call_mgr \<Rightarrow> string \<Rightarrow> string \<Rightarrow> call_mgr" where
  "init_media env d m callID peer =
     (let self = ssrc_for env callID (ownCredJid env) in
      initCodec (m\<lparr>cm_self := self,
        cm_rtp := Some (NewWhatsAppOpusSession (dr_seq d) (dr_ts d) self),
        cm_peers := Some [ssrc_for env callID peer]\<rparr>))"

text \<open>
  The result is the offer's answer on success: StartCall hands it to HandleCallAck in a
  goroutine, which is an event of its own here.
\<close>

definition StartCall ::
    "voip_env \<Rightarrow> draws \<Rightarrow> call_mgr \<Rightarrow> string \<Rightarrow> bool \<Rightarrow> call_mgr \<times> (call_error + node option)" where
  "StartCall env d m callID isVideo =
     (if (case cm_call m of Some c \<Rightarrow> \<not> IsEnded c | None \<Rightarrow> False)
      then (m, Inl (CallError ''a call is already in progress''))
      else let mt = (if isVideo then CallMediaTypeVideo else CallMediaTypeAudio);
               call = (NewOutgoingCall (dr_now d) callID (dr_resolved d) (ownCredJid env) mt)
                        \<lparr>ci_key := Some (dr_key d)\<rparr>;
               m1 = m\<lparr>cm_call := Some call, cm_initial_transport := False, cm_preaccept_sent := False\<rparr>;
               m2 = emitState (init_media env d m1 callID (dr_resolved d))
           in case BuildOfferStanza (ev_own_lid env) (ev_own_pn env) (dr_identity d)
                     (dr_participants d) (dr_tctoken d) (dr_ids d 0) callID (dr_resolved d) isVideo of
                Inl e \<Rightarrow> (m2, Inl (StanzaError e))
              | Inr offer \<Rightarrow>
                  (let m3 = emit m2 (OutQuery offer) in
                   case dr_query d of
                     Inl e \<Rightarrow> (m3, Inl (StanzaError e))
                   | Inr ack \<Rightarrow>
                       (emitState (fst (transit (dr_now d) m3 (simple_transition TransitionOfferSent))),
                        Inr ack)))"

definition setupIncomingMedia :: "voip_env \<Rightarrow> draws \<Rightarrow> call_mgr \<Rightarrow> call_info \<Rightarrow> relay_data \<Rightarrow> call_mgr" where
  "setupIncomingMedia env d m call rd =
     (let m1 = (if rd_participants rd = [] then m
                else let self = ssrc_for env (ci_id call) (our_device env (rd_participants rd));
                         m' = (if self \<noteq> cm_self m then m\<lparr>cm_self := self,
                                 cm_rtp := Some (NewWhatsAppOpusSession (dr_seq d) (dr_ts d) self)\<rparr>
                               else m);
                         peer = firstPeerDevice (rd_participants rd) (CleanJID (ownCredJid env))
                     in if peer = [] then m'
                        else m'\<lparr>cm_peers := Some [ssrc_for env (ci_id call) (ensureDeviceJid peer)],
                               cm_actual_peer := True\<rparr>)
      in initSrtpKeys env (set_subscription m1))"

definition AcceptCall ::
    "voip_env \<Rightarrow> draws \<Rightarrow> call_mgr \<Rightarrow> string \<Rightarrow> call_mgr \<times> call_error option" where
  "AcceptCall env d m callID =
     (case cm_call m of
        None \<Rightarrow> (m, Some (CallError (''no incoming call with id '' @ callID)))
      | Some call \<Rightarrow>
          if ci_id call \<noteq> callID then (m, Some (CallError (''no incoming call with id '' @ callID)))
          else if \<not> CanAccept call then (m, Some (CallError ''call cannot be accepted''))
          else let m1 = emitState (fst (transit (dr_now d) m (simple_transition TransitionLocalAccepted)));
                   peer = ev_must_jid env (ci_peer call);
                   creator = ev_must_jid env (ci_creator call);
                   m2 = (case ci_key call of
                           None \<Rightarrow> m1
                         | Some k \<Rightarrow>
                             (case BuildAcceptStanza (ev_must_jid env) (dr_identity d) (dr_participants d)
                                     (dr_ids d 0) callID peer creator
                                     (ci_media call = CallMediaTypeVideo) of
                                Inl _ \<Rightarrow> m1 | Inr n \<Rightarrow> send_node m1 n))
               in (case ci_relay call of
                     None \<Rightarrow> m2
                   | Some rd \<Rightarrow> connectRelays d (setupIncomingMedia env d m2 call rd) (rd_endpoints rd),
                   None))"

text \<open>Two attempts, half a second apart; the error of the second is returned.\<close>

definition send_twice :: "draws \<Rightarrow> call_mgr \<Rightarrow> node \<Rightarrow> call_mgr \<times> call_error option" where
  "send_twice d m n =
     (let m1 = send_node m n in
      if dr_send d 0 then (m1, None)
      else (send_node m1 n, if dr_send d 1 then None else Some SendError))"

definition RejectCall ::
    "voip_env \<Rightarrow> draws \<Rightarrow> call_mgr \<Rightarrow> string \<Rightarrow> end_reason \<Rightarrow> call_mgr \<times> call_error option" where
  "RejectCall env d m callID reason =
     (case cm_call m of
        None \<Rightarrow> (m, Some (CallError (''no call with id '' @ callID)))
      | Some call \<Rightarrow>
          if ci_id call \<noteq> callID then (m, Some (CallError (''no call with id '' @ callID)))
          else let m1 = emitState (fst (transit (dr_now d) m (reason_transition TransitionLocalRejected reason)));
                   n = BuildRejectStanza (dr_ids d 0) (ev_must_jid env (ci_peer call)) (ci_id call)
                         (ev_must_jid env (ci_creator call));
                   (m2, e) = send_twice d m1 n
               in (cleanupMedia m2, e))"

definition EndCall ::
    "voip_env \<Rightarrow> draws \<Rightarrow> call_mgr \<Rightarrow> end_reason \<Rightarrow> call_mgr \<times> call_error option" where
  "EndCall env d m reason =
     (case cm_call m of
        None \<Rightarrow> (m, None)
      | Some call \<Rightarrow>
          if IsEnded call then (m, None)
          else let m1 = fst (transit (dr_now d) m (reason_transition TransitionTerminated reason));
                   ended = the (cm_call m1);
                   n = BuildTerminateStanza (dr_ids d 0) (ev_must_jid env (ci_peer call)) (ci_id call)
                         (ev_must_jid env (ci_creator call));
                   (m2, e) = send_twice d (emitState m1) n
               in (cleanupMedia (emit m2 (OutEnded ended)), e))"

section \<open>Messages from the peer (callmanager_signaling.go)\<close>

definition offer_relays :: "node \<Rightarrow> relay_data option" where
  "offer_relays inner =
     (let relays = ExtractRelayEndpoints inner; p = ParseRelayFromAck inner in
      if relays \<noteq> [] then Some \<lparr>rd_endpoints = relays, rd_participants = [], rd_uuid = [],
        rd_self_pid = None, rd_peer_pid = None, rd_hbh_key = None\<rparr>
      else if pa_relays p \<noteq> [] then Some \<lparr>rd_endpoints = pa_relays p,
        rd_participants = pa_participants p, rd_uuid = pa_uuid p, rd_self_pid = pa_self_pid p,
        rd_peer_pid = pa_peer_pid p, rd_hbh_key = pa_hbh_key p\<rparr>
      else None)"

definition HandleCallOffer ::
    "voip_env \<Rightarrow> draws \<Rightarrow> call_mgr \<Rightarrow> node \<Rightarrow> string \<Rightarrow> call_mgr \<times> bool" where
  "HandleCallOffer env d m node peerJid =
     (case ExtractNodeInfo node of
        None \<Rightarrow> (m, False)
      | Some info \<Rightarrow>
          (let callID = ni_call_id info; inner = ni_inner info;
               cr = AttrString (node_attrs inner) ''call-creator'';
               creator = (if cr = [] then peerJid else cr);
               mt = (if hasChildTag inner ''video'' then CallMediaTypeVideo else CallMediaTypeAudio);
               key = (case DecryptCallKeyInNode (ev_decrypt env) inner peerJid of
                        Inl _ \<Rightarrow> None | Inr k \<Rightarrow> k);
               call = (NewIncomingCall (dr_now d) callID peerJid creator [] mt)
                        \<lparr>ci_key := key, ci_relay := offer_relays inner\<rparr>;
               m1 = init_media env d (m\<lparr>cm_call := Some call, cm_initial_transport := False\<rparr>) callID peerJid;
               m2 = send_node m1 (BuildPreacceptStanza (dr_ids d 0) peerJid callID (ev_must_jid env creator))
           in (emitState (emit m2 (OutIncoming call)), True)))"

definition transport_node :: "string \<Rightarrow> string \<Rightarrow> string \<Rightarrow> string \<Rightarrow> node" where
  "transport_node sid peerJid callID creator =
     call_stanza peerJid sid [Node ''transport'' (call_attrs callID creator @
         [(''transport-message-type'', AStr ''1''), (''p2p-cand-round'', AStr ''1'')])
       (CNodes [leaf ''net'' [(''medium'', ''2''), (''protocol'', ''0'')]])]"

text \<open>The three parts of HandleCallAccept: keys, replies, and the media path.\<close>

definition accept_new_key ::
    "voip_env \<Rightarrow> call_mgr \<Rightarrow> node \<Rightarrow> string \<Rightarrow> call_info \<Rightarrow> call_mgr" where
  "accept_new_key env m node peerJid call =
     (case ExtractNodeInfo node of
        None \<Rightarrow> m
      | Some info \<Rightarrow>
          (if NeedsDecryption (ni_tag info) then
             (case DecryptCallKeyInNode (ev_decrypt env) (ni_inner info) peerJid of
                Inr (Some k) \<Rightarrow>
                  (if ci_key call \<noteq> None \<and> ci_key call \<noteq> Some k then reinitSrtp env m k peerJid else m)
              | _ \<Rightarrow> m)
           else m))"

definition accept_keys ::
    "voip_env \<Rightarrow> draws \<Rightarrow> call_mgr \<Rightarrow> string \<Rightarrow> call_info \<Rightarrow> call_mgr" where
  "accept_keys env d m1 peerJid call =
     (let m2 = emitState (fst (transit (dr_now d) m1 (simple_transition TransitionRemoteAccepted)));
          m3 = m2\<lparr>cm_accepted_by := peerJid\<rparr>;
          m4 = (if cm_peers m3 = None \<or> \<not> cm_actual_peer m3
                then m3\<lparr>cm_peers := Some [ssrc_for env (ci_id call) (ensureDeviceJid peerJid)]\<rparr> else m3)
      in initSrtpKeys env (set_subscription m4))"

definition accept_replies ::
    "voip_env \<Rightarrow> draws \<Rightarrow> call_mgr \<Rightarrow> node \<Rightarrow> string \<Rightarrow> call_info \<Rightarrow> call_mgr" where
  "accept_replies env d m5 node peerJid call =
     (let m6 = m5\<lparr>cm_relay := ResendSubscriptions (ev_hmac env) (dr_stun d) (cm_relay m5)\<rparr>;
          creator = ev_must_jid env (ci_creator call);
          m7 = send_node m6 (transport_node (dr_ids d 0) peerJid (ci_id call) creator);
          m8 = send_node m7 (BuildMuteV2Stanza (dr_ids d 1) peerJid (ci_id call) creator 0);
          msgID = AttrString (node_attrs node) ''id''
      in if msgID \<noteq> [] then send_node m8 (BuildAcceptReceiptStanza peerJid msgID (ci_id call)
                       creator (ownCredJid env)) else m8)"

definition HandleCallAccept ::
    "voip_env \<Rightarrow> draws \<Rightarrow> call_mgr \<Rightarrow> node \<Rightarrow> string \<Rightarrow> call_mgr" where
  "HandleCallAccept env d m node peerJid =
     (case cm_call m of
        None \<Rightarrow> m
      | Some call \<Rightarrow>
          (let m5 = accept_keys env d (accept_new_key env m node peerJid call) peerJid call;
               hasConn = HasConnection (cm_relay m5);
               m9 = accept_replies env d m5 node peerJid call
           in if hasConn then
                (let (m10, ok) = transit (dr_now d) m9 (simple_transition TransitionMediaConnected)
                 in if ok then startSilenceKeepalive (emitState m10) else m10)
              else (case ci_relay call of
                      None \<Rightarrow> m9 | Some rd \<Rightarrow> connectRelays d m9 (rd_endpoints rd))))"

definition HandleCallTransport ::
    "voip_env \<Rightarrow> draws \<Rightarrow> call_mgr \<Rightarrow> node \<Rightarrow> call_mgr" where
  "HandleCallTransport env d m node =
     (case cm_call m of
        None \<Rightarrow> m
      | Some call \<Rightarrow> (case ExtractNodeInfo node of
          None \<Rightarrow> m
        | Some info \<Rightarrow>
            (let relays = ExtractRelayEndpoints (ni_inner info) in
             if relays \<noteq> [] \<and> \<not> HasConnection (cm_relay m) then
               (let rd = (case ci_relay call of Some rd \<Rightarrow> rd
                          | None \<Rightarrow> \<lparr>rd_endpoints = [], rd_participants = [], rd_uuid = [],
                              rd_self_pid = None, rd_peer_pid = None, rd_hbh_key = None\<rparr>)
                in connectRelays d (m\<lparr>cm_call := Some (call\<lparr>ci_relay :=
                     Some (rd\<lparr>rd_endpoints := relays\<rparr>)\<rparr>)\<rparr>) relays)
             else m)))"

definition HandleCallAck ::
    "voip_env \<Rightarrow> draws \<Rightarrow> call_mgr \<Rightarrow> node \<Rightarrow> call_mgr" where
  "HandleCallAck env d m node =
     (let p = ParseRelayFromAck node in
      if AttrString (node_attrs node) ''type'' \<noteq> ''offer'' then m
      else if AttrString (node_attrs node) ''error'' \<noteq> [] then m
      else if pa_relays p = [] then m
      else case cm_call m of
        None \<Rightarrow> m
      | Some call0 \<Rightarrow>
          (let ps = pa_participants p;
               call = call0\<lparr>ci_relay := Some \<lparr>rd_endpoints = pa_relays p, rd_participants = ps,
                        rd_uuid = pa_uuid p, rd_self_pid = pa_self_pid p, rd_peer_pid = pa_peer_pid p,
                        rd_hbh_key = pa_hbh_key p\<rparr>\<rparr>;
               m1 = m\<lparr>cm_call := Some call\<rparr>;
               m2 = (if ps = [] then m1
                     else let self = ssrc_for env (ci_id call) (our_device env ps);
                              m' = (if self \<noteq> cm_self m1 then m1\<lparr>cm_self := self,
                                      cm_rtp := Some (NewWhatsAppOpusSession (dr_seq d) (dr_ts d) self)\<rparr>
                                    else m1);
                              peer = firstPeerDevice ps (CleanJID (ownCredJid env));
                              m'' = (if peer = [] then m'
                                     else m'\<lparr>cm_peers := Some [ssrc_for env (ci_id call) (ensureDeviceJid peer)]\<rparr>)
                          in initSrtpKeys env m'');
               sendPreaccept = (IsInitiator call \<and> \<not> cm_preaccept_sent m2);
               m3 = (if sendPreaccept then
                       send_node (m2\<lparr>cm_preaccept_sent := True\<rparr>)
                         (BuildPreacceptStanza (dr_ids d 0) (ev_must_jid env (ci_peer call)) (ci_id call)
                           (ev_must_jid env (ci_creator call)))
                     else m2)
           in connectRelays d m3 (pa_relays p)))"

definition reason_of :: "string \<Rightarrow> end_reason" where
  "reason_of r =
     (if r = ''user_ended'' then EndCallReasonUserEnded else if r = ''declined'' then EndCallReasonDeclined
      else if r = ''timeout'' then EndCallReasonTimeout else if r = ''busy'' then EndCallReasonBusy
      else if r = ''cancelled'' then EndCallReasonCancelled else if r = ''failed'' then EndCallReasonFailed
      else if r = ''do_not_disturb'' then EndCallReasonDoNotDisturb
      else if r = ''unknown'' then EndCallReasonUnknown else ReasonOther r)"

definition HandleCallTerminate :: "draws \<Rightarrow> call_mgr \<Rightarrow> node \<Rightarrow> call_mgr" where
  "HandleCallTerminate d m node =
     (case cm_call m of
        None \<Rightarrow> m
      | Some call \<Rightarrow>
          (let reason = (case ExtractNodeInfo node of
                           None \<Rightarrow> EndCallReasonUserEnded
                         | Some info \<Rightarrow>
                             (let r = AttrString (node_attrs (ni_inner info)) ''reason''
                              in if r = [] then EndCallReasonUserEnded else reason_of r));
               m1 = fst (transit (dr_now d) m (reason_transition TransitionTerminated reason))
           in cleanupMedia (emit (emitState m1) (OutEnded (the (cm_call m1))))))"

definition HandleCallRinging :: "draws \<Rightarrow> call_mgr \<Rightarrow> call_mgr" where
  "HandleCallRinging d m =
     (let (m1, ok) = transit (dr_now d) m (simple_transition TransitionRingingReceived)
      in if ok then emitState m1 else m)"

section \<open>Hold (callmanager_hold.go)\<close>

definition pcmBytesToFloat32 :: "bytes \<Rightarrow> pcm" where
  "pcmBytesToFloat32 data =
     map (\<lambda>i. of_int (sint (get_le16 data (i * 2))) / 32768) [0..<length data div 2]"

definition SetHold :: "voip_env \<Rightarrow> int \<Rightarrow> call_mgr \<Rightarrow> bool \<Rightarrow> string option \<Rightarrow> call_mgr" where
  "SetHold env now m hold mode =
     (let target = (case mode of None \<Rightarrow> ''hold''
                    | Some s \<Rightarrow> (if trim_space s = [] then ''hold'' else map lower (trim_space s)))
      in if cm_hold m = hold then m
         else if hold then
           (let samples = (if target = ''transfer'' \<and> ev_transfer_pcm env \<noteq> [] then ev_transfer_pcm env
                           else ev_hold_pcm env)
            in m\<lparr>cm_hold := True,
                 cm_hold_loop := (if \<not> cm_codec m \<or> samples = [] then None else Some (samples, 0))\<rparr>)
         else m\<lparr>cm_hold := False, cm_hold_loop := None, cm_last_capture := now\<rparr>)"

text \<open>One tick of runHoldAudioLoop: the samples, then three seconds of silence, over and over.\<close>

definition hold_frame :: "pcm \<Rightarrow> nat \<Rightarrow> pcm" where
  "hold_frame samples idx =
     map (\<lambda>i. let j = (idx + i) mod (length samples + 3 * 16000)
              in if j < length samples then samples ! j else 0) [0..<frameSize]"

definition hold_tick :: "voip_env \<Rightarrow> call_mgr \<Rightarrow> call_mgr" where
  "hold_tick env m =
     (case cm_hold_loop m of
        None \<Rightarrow> m
      | Some (samples, idx) \<Rightarrow>
          (if cm_hold m \<and> media_ready m
           then encode_and_send env (m\<lparr>cm_hold_loop := Some (samples, idx + frameSize)\<rparr>)
                  (hold_frame samples idx)
           else m))"

section \<open>Relays of a transport message\<close>

lemma relay_configs_raw: "\<forall>e \<in> set eps. ep_raw_token e = None \<Longrightarrow> relay_configs seen eps = []"
  by (induction eps arbitrary: seen) auto

lemma parse_relay_raw: "parse_relay n = Some e \<Longrightarrow> ep_raw_token e = None"
  by (auto simp: parse_relay_def Let_def split: if_splits)

lemma sortRelays_set: "set (sortRelaysByRtt rs) = set rs"
  using sortRelaysByRtt_props(1) [of rs] by (rule mset_eq_setD)

lemma extracted_raw: "e \<in> set (ExtractRelayEndpoints n) \<Longrightarrow> ep_raw_token e = None"
  by (auto simp: ExtractRelayEndpoints_def sortRelays_set List.map_filter_def parse_relay_raw
      split: if_splits)

text \<open>C27: the relays that ExtractRelayEndpoints reads from a transport message (and from the
  attribute form of an offer) never carry a raw token, and buildRelayConfigs skips every relay
  without one.  So HandleCallTransport never configures a relay: whatever the message says, the
  relay manager stays as it was.\<close>

theorem transport_relays_never_used:
  "buildRelayConfigs (ExtractRelayEndpoints n) = [] \<and>
   cm_relay (HandleCallTransport env d m node) = cm_relay m"
proof -
  have b: "buildRelayConfigs (ExtractRelayEndpoints n) = []" for n
    unfolding buildRelayConfigs_def by (rule relay_configs_raw) (use extracted_raw in blast)
  then show ?thesis
    by (simp add: HandleCallTransport_def Let_def connectRelays_def split: option.split)
qed

section \<open>After the call\<close>

definition media_clear :: "call_mgr \<Rightarrow> bool" where
  "media_clear m \<longleftrightarrow> \<not> cm_codec m \<and> cm_rtp m = None \<and> cm_srtp m = None \<and> \<not> cm_keepalive m \<and>
     \<not> cm_hold m \<and> cm_hold_loop m = None \<and> \<not> HasConnection (cm_relay m)"

lemma cleanup_clear: "media_clear (cleanupMedia m)"
  by (simp add: media_clear_def cleanupMedia_def HasConnection_def)

lemma clear_quiet:
  assumes "media_clear m"
  shows "FeedCapturedPCM env t m x = m" "keepalive_tick env t m = m" "hold_tick env m = m"
    "onRelayData env d m data r = m"
  using assms by (simp_all add: media_clear_def FeedCapturedPCM_def media_ready_def keepalive_tick_def
      hold_tick_def onRelayData_def rx_passes_def)


definition demo_draws :: draws where
  "demo_draws = \<lparr>dr_now = 5, dr_key = replicate 32 1, dr_seq = 0, dr_ts = 0, dr_ids = (\<lambda>i. ''S''),
     dr_stun = (\<lambda>i. (replicate 12 0, replicate 8 0)), dr_resolved = ''b@lid'',
     dr_participants = Inr ([], False), dr_identity = None, dr_tctoken = None, dr_query = Inr None,
     dr_send = (\<lambda>i. False), dr_connect = (\<lambda>r. Offered [])\<rparr>"

definition demo_env :: voip_env where
  "demo_env = \<lparr>ev_aes = (\<lambda>k b. b), ev_hmac = (\<lambda>k m. take 20 (m @ replicate 20 0)),
     ev_hkdf = (\<lambda>k s i n. Some (take n (k @ replicate n (word_of_nat (length i))))),
     ev_own_lid = ''a@lid'', ev_own_pn = [], ev_must_jid = (\<lambda>s. s), ev_decrypt = (\<lambda>j n. Inl []),
     ev_encode = (\<lambda>n f. Some [1]), ev_decode = (\<lambda>n b. Some [0]), ev_hold_pcm = [], ev_transfer_pcm = []\<rparr>"

definition demo_call :: "call_state \<Rightarrow> call_info" where
  "demo_call st = (let c = NewOutgoingCall 0 ''C1'' ''b@lid'' ''a@lid'' CallMediaTypeAudio
     in c\<lparr>ci_data := (ci_data c)\<lparr>sd_state := st\<rparr>\<rparr>)"


section \<open>The peer's stream\<close>

lemma emit_simps [simp]:
  "cm_lock (emit m x) = cm_lock m" "cm_out (emit m x) = cm_out m @ [x]" "cm_call (emit m x) = cm_call m"
  "cm_relay (emit m x) = cm_relay m" "cm_window (emit m x) = cm_window m" "cm_codec (emit m x) = cm_codec m"
  "cm_buf (emit m x) = cm_buf m" "cm_hold (emit m x) = cm_hold m" "cm_hold_loop (emit m x) = cm_hold_loop m"
  "cm_srtp (emit m x) = cm_srtp m" "cm_peers (emit m x) = cm_peers m"
  "cm_actual_peer (emit m x) = cm_actual_peer m" "cm_self (emit m x) = cm_self m"
  by (simp_all add: emit_def)

lemma length_NormalizeFrame [simp]: "length (NormalizeFrame p n) = n"
  by (simp add: NormalizeFrame_def min_def)

definition audio_outcome :: "call_mgr \<Rightarrow> call_mgr \<Rightarrow> u32 \<Rightarrow> bool" where
  "audio_outcome m m' ssrc \<longleftrightarrow>
     (cm_out m' = cm_out m \<and> rl_ssrc (cm_lock m') = rl_ssrc (cm_lock m)) \<or>
     (\<exists>f. cm_out m' = cm_out m @ [OutAudio f] \<and> length f = frameSize \<and>
        rl_ssrc (cm_lock m') = ssrc)"

lemma deliver_outcome:
  assumes "lock_admit l ssrc now = Some (cm_lock m, fo)"
  shows "audio_outcome m (deliver env now m ssrc fo data relay) ssrc"
  using lock_commit_admitted [OF assms]
  by (auto simp: deliver_def audio_outcome_def Let_def split: option.split sum.split prod.split)

lemma rx_learn_peer_simps [simp]:
  "cm_lock (rx_learn_peer env d m s) = cm_lock m" "cm_out (rx_learn_peer env d m s) = cm_out m"
  "cm_srtp (rx_learn_peer env d m s) = cm_srtp m" "cm_decoded (rx_learn_peer env d m s) = cm_decoded m"
  by (simp_all add: rx_learn_peer_def Let_def)

lemma audio_outcome_same:
  "audio_outcome m1 m' s \<Longrightarrow> cm_out m1 = cm_out m \<Longrightarrow> rl_ssrc (cm_lock m1) = rl_ssrc (cm_lock m) \<Longrightarrow>
   audio_outcome m m' s"
  by (simp add: audio_outcome_def)

lemma lock_admit_keeps: "lock_admit l ssrc now = Some (l', fo) \<Longrightarrow> rl_ssrc l' = rl_ssrc l"
  by (auto simp: lock_admit_def split: if_splits)



section \<open>Both ends derive the same keys\<close>

text \<open>
  \<open>two_devices ps a b\<close>: the participants both ends were told are the device JIDs \<open>a\<close> and \<open>b\<close>, of
  different accounts, in either order.
\<close>

definition two_devices :: "string list \<Rightarrow> string \<Rightarrow> string \<Rightarrow> bool" where
  "two_devices ps a b \<longleftrightarrow> (ps = [a, b] \<or> ps = [b, a]) \<and> CleanJID a \<noteq> CleanJID b \<and>
     ensureDeviceJid a = a \<and> ensureDeviceJid b = b \<and> a \<noteq> [] \<and> b \<noteq> [] \<and>
     CHR '':'' \<in> set a \<and> CHR '':'' \<in> set b"

lemma two_devices_sym: "two_devices ps a b \<Longrightarrow> two_devices ps b a"
  by (auto simp: two_devices_def)

lemma two_devices_find:
  assumes "two_devices ps a b" and "CleanJID (ownCredJid env) = CleanJID a"
  shows "our_device env ps = a" and "firstPeerDevice ps (CleanJID (ownCredJid env)) = b"
  using assms by (auto simp: two_devices_def our_device_def findOurDevice_def firstPeerDevice_def)

lemma initSrtpKeys_devices:
  assumes "two_devices ps a b" and "CleanJID (ownCredJid env) = CleanJID a"
    and "cm_call m = Some c" and "ci_key c = Some k" and "participants_of c = ps"
    and "cm_accepted_by m \<in> {[], b}"
    and "derive_session env k a k b = Some s"
  shows "cm_srtp (initSrtpKeys env m) = Some s"
proof -
  have "peer_device env m c = b"
    using assms(1,5,6) two_devices_find [OF assms(1,2)]
    by (auto simp: peer_device_def two_devices_def)
  then show ?thesis
    using assms two_devices_find(1) [OF assms(1,2)] by (simp add: initSrtpKeys_def)
qed

lemma derive_session_swap:
  assumes "derive_session env k a k b = Some s"
    and "ev_aes env' = ev_aes env" and "ev_hkdf env' = ev_hkdf env"
  shows "\<exists>s'. derive_session env' k b k a = Some s' \<and> ss_recv s' = ss_send s \<and> ss_send s' = ss_recv s \<and>
    (\<exists>km. NewSrtpContext (ev_aes env) km 4 = Inr (ss_send s)) "
  using assms
  by (auto simp: derive_session_def NewSrtpSession_def split: option.splits sum.splits)

text \<open>C5: the caller and the callee of a call, who hold the same call key and were told the same two
  participant devices, set up mirrored SRTP sessions: what one sends under is what the other
  receives under, whether or not the caller already knows who accepted.  So any packets the
  caller numbers and protects, delivered with losses as in srtp_lossy_stream, are recovered by
  the callee exactly.\<close>

theorem call_keys_mirrored:
  assumes "two_devices ps a b"
    and "CleanJID (ownCredJid envA) = CleanJID a" and "CleanJID (ownCredJid envB) = CleanJID b"
    and "ev_aes envB = ev_aes envA" and "ev_hkdf envB = ev_hkdf envA"
    and "cm_call mA = Some cA" and "ci_key cA = Some k" and "participants_of cA = ps"
    and "cm_call mB = Some cB" and "ci_key cB = Some k" and "participants_of cB = ps"
    and "cm_accepted_by mA \<in> {[], b}" and "cm_accepted_by mB = []"
    and "derive_session envA k a k b = Some sA"
    and "numbered n pkts" and "n + g < 65536" and "short_gaps g delivered"
  shows "\<exists>sB. cm_srtp (initSrtpKeys envA mA) = Some sA \<and> cm_srtp (initSrtpKeys envB mB) = Some sB \<and>
    ss_recv sB = ss_send sA \<and> ss_send sB = ss_recv sA \<and>
    unprotect_all (ev_aes envA) (ss_recv sB)
      (received delivered (protect_all (ev_aes envA) (ev_hmac envA) (ss_send sA) pkts)) =
    map Inr (received delivered pkts)"
proof -
  obtain sB km where sB: "derive_session envB k b k a = Some sB" "ss_recv sB = ss_send sA"
    "ss_send sB = ss_recv sA" "NewSrtpContext (ev_aes envA) km 4 = Inr (ss_send sA)"
    using derive_session_swap [OF assms(14,4,5)] by blast
  have "cm_srtp (initSrtpKeys envA mA) = Some sA"
    using assms by (intro initSrtpKeys_devices [of ps a b envA mA cA k sA]) simp_all
  moreover have "cm_srtp (initSrtpKeys envB mB) = Some sB"
    using assms sB(1) by (intro initSrtpKeys_devices [of ps b a envB mB cB k sB]) (simp_all add: two_devices_sym)
  moreover have "unprotect_all (ev_aes envA) (ss_send sA)
      (received delivered (protect_all (ev_aes envA) (ev_hmac envA) (ss_send sA) pkts)) =
    map Inr (received delivered pkts)"
    using sB(4) assms(15-17) by (intro srtp_lossy_stream [of _ km 4 _ n _ g]) simp_all
  ultimately show ?thesis using sB by auto
qed

section \<open>What does not protect the lock\<close>

lemma Unprotect_accepts:
  assumes "rtp_header_decode data = Inr h" and "rtp_header_size h + sc_auth_tag_len c < length data"
    and "length (sc_session_key c) \<in> {16, 24, 32}"
  shows "\<exists>c' p. Unprotect aes c data = (c', Inr p) \<and> rp_payload p \<noteq> []"
proof -
  have "\<not> length data < 12"
    using assms(2) header_size_12 [of h] by linarith
  moreover have "nat (int (length data) - int (rtp_header_size h) - int (sc_auth_tag_len c)) \<noteq> 0"
    using assms(2) by simp
  ultimately show ?thesis
    using assms by (auto simp: Unprotect_def Let_def aesCtrXor_def xor_key_stream_def)
qed

text \<open>C28: the comments on onRelayData rely on undecodable streams failing in Unprotect (``echo never
  reaches here'', ``undecodable packets must never capture the lock'').  Neither Unprotect nor the
  codec of this program rejects a packet for its key: while no stream is locked, the first
  well-formed voice packet of any foreign SSRC is played and takes the lock, whatever keys the
  session has and whatever key the packet was protected under.\<close>

theorem foreign_stream_takes_lock:
  assumes "rx_passes m data" and "get_be32 data 8 \<noteq> cm_self m" and "rl_ssrc (cm_lock m) = 0"
    and "dedup_step (cm_window m) (dedup_key (get_be32 data 8) (get_be16 data 2)) \<noteq> None"
    and "cm_srtp m = Some s" and "length (sc_session_key (ss_recv s)) = 16"
    and "rtp_header_decode data = Inr h"
    and "rtp_header_size h + sc_auth_tag_len (ss_recv s) < length data"
    and "\<forall>n b. ev_decode env n b \<noteq> None"
  shows "rl_ssrc (cm_lock (onRelayData env d m data relay)) = get_be32 data 8 \<and>
    (\<exists>f. cm_out (onRelayData env d m data relay) = cm_out m @ [OutAudio f])"
proof -
  obtain c' p where U: "Unprotect (ev_aes env) (ss_recv s) data = (c', Inr p)" "rp_payload p \<noteq> []"
    using Unprotect_accepts [OF assms(7,8)] assms(6) by blast
  obtain l fo where admit: "lock_admit (cm_lock m) (get_be32 data 8) (dr_now d) = Some (l, fo)"
    "rl_ssrc l = 0"
    using assms(3) by (cases "get_be32 data 8 = 0") (auto simp: lock_admit_def)
  obtain w where w: "dedup_step (cm_window m) (dedup_key (get_be32 data 8) (get_be16 data 2)) = Some w"
    using assms(4) by blast
  let ?m3 = "rx_learn_peer env d (m\<lparr>cm_lock := l, cm_window := w\<rparr>) (get_be32 data 8)"
  obtain f where f: "ev_decode env (cm_decoded m) (rp_payload p) = Some f"
    using assms(9) by blast
  have "onRelayData env d m data relay = deliver env (dr_now d) ?m3 (get_be32 data 8) fo data relay"
    using assms(1,2) admit w by (simp add: onRelayData_def)
  then show ?thesis
    using U f admit(2) assms(5)
    by (simp add: deliver_def srtp_session_unprotect_def Let_def lock_commit_def)
qed

section \<open>Rejecting an outgoing call\<close>

text \<open>C29: CanReject allows rejecting a call that is still ringing at the other end, but the
  transition RejectCall applies is refused then and its error is dropped: the reject stanza is
  sent and the media is torn down while the call stays in its state, not ended, and the manager
  refuses to start another one.\<close>

theorem reject_outgoing_leaves_call_open:
  assumes "cm_call m = Some c" and "ci_state c \<in> {CallStateInitiating, CallStateRinging}"
  shows "CanReject c \<and>
    (let m' = fst (RejectCall env d m (ci_id c) reason) in
     cm_call m' = Some c \<and> \<not> IsEnded c \<and> media_clear m' \<and>
     snd (StartCall env d' m' i v) = Inl (CallError ''a call is already in progress''))"
proof -
  have t: "transit n m (reason_transition TransitionLocalRejected reason) = (m\<lparr>cm_call := Some c\<rparr>, False)" for n
    using assms by (auto simp: transit_def call_simps reason_transition_def simple_transition_def)
  have keep: "cm_call (fst (send_twice d m n)) = cm_call m" for m n
    by (simp add: send_twice_def send_node_def Let_def)
  have "cm_call (fst (RejectCall env d m (ci_id c) reason)) = Some c"
    using assms(1) t keep by (simp add: RejectCall_def Let_def split_beta cleanupMedia_def emitState_def)
  moreover have "media_clear (fst (RejectCall env d m (ci_id c) reason))"
    using assms(1) by (simp add: RejectCall_def Let_def split_beta cleanup_clear)
  ultimately show ?thesis
    using assms by (auto simp: CanReject_def IsEnded_def StartCall_def)
qed

section \<open>Reaching the active state\<close>

lemma keys_simps [simp]:
  "cm_call (initSrtpKeys env m) = cm_call m" "cm_relay (initSrtpKeys env m) = cm_relay m"
  "cm_codec (initSrtpKeys env m) = cm_codec m" "cm_keepalive (initSrtpKeys env m) = cm_keepalive m"
  "cm_call (reinitSrtp env m k j) = cm_call m" "cm_relay (reinitSrtp env m k j) = cm_relay m"
  "cm_codec (reinitSrtp env m k j) = cm_codec m" "cm_keepalive (reinitSrtp env m k j) = cm_keepalive m"
  by (simp_all add: initSrtpKeys_def reinitSrtp_def split: option.splits)

lemma set_subscription_simps [simp]:
  "cm_call (set_subscription m) = cm_call m" "cm_codec (set_subscription m) = cm_codec m"
  "HasConnection (cm_relay (set_subscription m)) = HasConnection (cm_relay m)"
  "cm_keepalive (set_subscription m) = cm_keepalive m"
  by (simp_all add: set_subscription_def SetSubscriptionSsrc_def HasConnection_def)

lemma send_node_simps [simp]:
  "cm_call (send_node m n) = cm_call m" "cm_codec (send_node m n) = cm_codec m"
  "cm_relay (send_node m n) = cm_relay m" "cm_keepalive (send_node m n) = cm_keepalive m"
  by (simp_all add: send_node_def emit_def)

lemma connectRelays_simps [simp]:
  "cm_call (connectRelays d m eps) = cm_call m" "cm_codec (connectRelays d m eps) = cm_codec m"
  by (simp_all add: connectRelays_def set_subscription_def Let_def)

lemma emitState_simps [simp]:
  "cm_call (emitState m) = cm_call m" "cm_codec (emitState m) = cm_codec m"
  "cm_relay (emitState m) = cm_relay m" "cm_keepalive (emitState m) = cm_keepalive m"
  by (simp_all add: emitState_def emit_def split: option.split)

lemma startSilenceKeepalive_simps [simp]:
  "cm_call (startSilenceKeepalive m) = cm_call m"
  "cm_codec m \<Longrightarrow> cm_keepalive (startSilenceKeepalive m)"
  by (simp_all add: startSilenceKeepalive_def)

definition call_in :: "call_mgr \<Rightarrow> call_state \<Rightarrow> bool" where
  "call_in m st \<longleftrightarrow> (case cm_call m of None \<Rightarrow> False | Some c \<Rightarrow> ci_state c = st)"

lemma transit_accept:
  assumes "call_in m st" and "st \<in> {CallStateInitiating, CallStateRinging, CallStateIncomingRinging, CallStateConnecting}"
  shows "\<exists>c. transit now m (simple_transition TransitionRemoteAccepted) = (m\<lparr>cm_call := Some c\<rparr>, True) \<and>
    ci_state c = CallStateConnecting"
  using assms by (auto simp: transit_def call_in_def call_simps simple_transition_def split: option.splits)

lemma transit_connected:
  assumes "call_in m CallStateConnecting"
  shows "\<exists>c. transit now m (simple_transition TransitionMediaConnected) = (m\<lparr>cm_call := Some c\<rparr>, True) \<and>
    ci_state c = CallStateActive"
  using assms by (auto simp: transit_def call_in_def call_simps simple_transition_def split: option.splits)

lemma call_in_cong: "cm_call m' = cm_call m \<Longrightarrow> call_in m' st = call_in m st"
  by (simp add: call_in_def)

lemma accept_new_key_simps [simp]:
  "cm_call (accept_new_key env m node j c) = cm_call m" "cm_relay (accept_new_key env m node j c) = cm_relay m"
  "cm_codec (accept_new_key env m node j c) = cm_codec m"
  by (simp_all add: accept_new_key_def split: option.split sum.split)

lemma transit_simps [simp]:
  "cm_relay (fst (transit n m t)) = cm_relay m" "cm_codec (fst (transit n m t)) = cm_codec m"
  by (simp_all add: transit_def Let_def split: option.split prod.split)

lemma accept_keys_simps [simp]:
  "HasConnection (cm_relay (accept_keys env d m j c)) = HasConnection (cm_relay m)"
  "cm_codec (accept_keys env d m j c) = cm_codec m"
  "cm_call (accept_keys env d m j c) =
     cm_call (fst (transit (dr_now d) m (simple_transition TransitionRemoteAccepted)))"
  by (simp_all add: accept_keys_def Let_def)

lemma accept_replies_simps [simp]:
  "cm_call (accept_replies env d m node j c) = cm_call m"
  "cm_codec (accept_replies env d m node j c) = cm_codec m"
  by (simp_all add: accept_replies_def Let_def)

lemma accept_connecting:
  assumes "call_in m st" and "st \<in> {CallStateInitiating, CallStateRinging, CallStateIncomingRinging, CallStateConnecting}"
  shows "call_in (accept_keys env d (accept_new_key env m node j c) j c) CallStateConnecting"
proof -
  have "call_in (accept_new_key env m node j c) st"
    using assms(1) by (simp add: call_in_def)
  from transit_accept [OF this assms(2), of "dr_now d"]
  show ?thesis by (auto simp: call_in_def)
qed

text \<open>C19: an outgoing call becomes active when it is accepted and a relay is connected, in whichever
  order the two happen: if a relay is already open, the accept makes it active; if not, the accept
  makes it connecting, an early relay has changed nothing, and the first relay to open makes it
  active.  In both cases the silence keepalive runs.\<close>

theorem active_in_either_order:
  assumes "call_in m st" and "st \<in> {CallStateInitiating, CallStateRinging}" and "cm_codec m"
  shows "let m' = HandleCallAccept env d m node j in
     (HasConnection (cm_relay m) \<longrightarrow> call_in m' CallStateActive \<and> cm_keepalive m') \<and>
     (\<not> HasConnection (cm_relay m) \<longrightarrow> call_in m' CallStateConnecting \<and>
        call_in (onRelayConnected t m') CallStateActive \<and> cm_keepalive (onRelayConnected t m')) \<and>
     cm_call (onRelayConnected t m) = cm_call m"
proof -
  obtain c where c: "cm_call m = Some c" "ci_state c = st"
    using assms(1) by (auto simp: call_in_def split: option.splits)
  let ?m5 = "accept_keys env d (accept_new_key env m node j c) j c"
  let ?m9 = "accept_replies env d ?m5 node j c"
  have con: "call_in ?m9 CallStateConnecting"
    using accept_connecting [OF assms(1)] assms(2) by (auto simp: call_in_def)
  have codec: "cm_codec ?m9" using assms(3) by simp
  have rel: "call_in (onRelayConnected t m') CallStateActive \<and> cm_keepalive (onRelayConnected t m')"
    if "call_in m' CallStateConnecting" "cm_codec m'" for m'
    using that transit_connected [OF that(1), of t]
    by (auto simp: onRelayConnected_def call_in_def Let_def emit_def split: option.splits)
  show ?thesis
  proof (cases "HasConnection (cm_relay m)")
    case True
    obtain c' where "transit (dr_now d) ?m9 (simple_transition TransitionMediaConnected) =
        (?m9\<lparr>cm_call := Some c'\<rparr>, True)" "ci_state c' = CallStateActive"
      using transit_connected [OF con] by blast
    then show ?thesis
      using True c codec assms(2)
      by (auto simp: HandleCallAccept_def Let_def call_in_def onRelayConnected_def)
  next
    case False
    then have m': "HandleCallAccept env d m node j = (case ci_relay c of None \<Rightarrow> ?m9
        | Some rd \<Rightarrow> connectRelays d ?m9 (rd_endpoints rd))"
      using c by (simp add: HandleCallAccept_def Let_def)
    have "call_in (HandleCallAccept env d m node j) CallStateConnecting"
      "cm_codec (HandleCallAccept env d m node j)"
      using con codec unfolding m' by (auto simp: call_in_def split: option.splits)
    then show ?thesis
      using False rel c assms(2) by (auto simp: Let_def onRelayConnected_def)
  qed
qed

theorem active_in_either_order_witness:
  "call_in (onRelayConnected 9 (HandleCallAccept demo_env demo_draws (NewCallManager
      \<lparr>cm_call := Some (demo_call CallStateRinging), cm_codec := True\<rparr>)
      (Node ''call'' [] CNone) ''b@lid'')) CallStateActive"
proof -
  let ?m = "NewCallManager\<lparr>cm_call := Some (demo_call CallStateRinging), cm_codec := True\<rparr>"
  have "call_in ?m CallStateRinging" "cm_codec ?m" "\<not> HasConnection (cm_relay ?m)"
    by (simp_all add: call_in_def demo_call_def ci_state_def Let_def HasConnection_def
        NewCallManager_def NewSctpRelayManager_def)
  then show ?thesis
    using active_in_either_order [of ?m CallStateRinging demo_env demo_draws "Node ''call'' [] CNone"
        "''b@lid''" 9] by (simp add: Let_def)
qed

section \<open>Cutting the captured audio into frames\<close>

definition frames_of :: "pcm \<Rightarrow> pcm list" where
  "frames_of xs = map (\<lambda>i. take frameSize (drop (i * frameSize) xs)) [0..<length xs div frameSize]"

definition frames_rest :: "pcm \<Rightarrow> pcm" where
  "frames_rest xs = drop (length xs div frameSize * frameSize) xs"

lemma frameSize_pos [simp]: "0 < frameSize"
  by (simp add: frameSize_def)

lemma frames_short [simp]: "length xs < frameSize \<Longrightarrow> frames_of xs = [] \<and> frames_rest xs = xs"
  by (simp add: frames_of_def frames_rest_def)

lemma frames_long:
  assumes "frameSize \<le> length xs"
  shows "frames_of xs = take frameSize xs # frames_of (drop frameSize xs)"
    and "frames_rest xs = frames_rest (drop frameSize xs)"
proof -
  have n: "length xs div frameSize = Suc ((length xs - frameSize) div frameSize)"
    using assms by (simp add: le_div_geq)
  show "frames_of xs = take frameSize xs # frames_of (drop frameSize xs)"
    unfolding frames_of_def n upt_conv_Cons [OF zero_less_Suc] map_Suc_upt [symmetric]
    by (simp add: add.commute)
  show "frames_rest xs = frames_rest (drop frameSize xs)"
    unfolding frames_rest_def n by (simp add: add.commute)
qed

lemma encode_and_send_buf:
  "encode_and_send env (m\<lparr>cm_buf := b\<rparr>) f = (encode_and_send env m f)\<lparr>cm_buf := b\<rparr>"
  by (simp add: encode_and_send_def sendOpusFrame_def Let_def
      split: option.split prod.split sum.split)

lemma encode_all_buf:
  "foldl (encode_and_send env) (m\<lparr>cm_buf := b\<rparr>) fs = (foldl (encode_and_send env) m fs)\<lparr>cm_buf := b\<rparr>"
  by (induction fs arbitrary: m) (simp_all add: encode_and_send_buf)

lemma frames_join:
  "concat (frames_of xs) @ frames_rest xs = xs \<and> (\<forall>f \<in> set (frames_of xs). length f = frameSize) \<and>
     length (frames_rest xs) < frameSize"
proof (induction xs rule: length_induct)
  case (1 xs)
  show ?case
  proof (cases "length xs < frameSize")
    case False
    have "length (drop frameSize xs) < length xs"
      using False frameSize_pos by (simp only: length_drop)
    with 1 have "concat (frames_of (drop frameSize xs)) @ frames_rest (drop frameSize xs) = drop frameSize xs \<and>
        (\<forall>f \<in> set (frames_of (drop frameSize xs)). length f = frameSize) \<and>
        length (frames_rest (drop frameSize xs)) < frameSize" by blast
    then show ?thesis
      unfolding frames_long [OF False [unfolded not_less]] concat.simps append_assoc
      using False by (metis append_take_drop_id length_take min.absorb2 not_less set_ConsD)
  qed simp
qed

lemma buf_twice: "(m\<lparr>cm_buf := a\<rparr>)\<lparr>cm_buf := b\<rparr> = m\<lparr>cm_buf := b\<rparr>" for m :: call_mgr
  by simp

lemma feed_loop_frames:
  "length buf < frameSize \<Longrightarrow> feed_loop env m buf data =
     (foldl (encode_and_send env) m (frames_of (buf @ data)))\<lparr>cm_buf := frames_rest (buf @ data)\<rparr>"
proof (induction env m buf data rule: feed_loop.induct)
  case (1 env m buf data)
  let ?k = "min (length data) (frameSize - length buf)"
  show ?case
  proof (cases "length (buf @ data) < frameSize")
    case True
    then have "take ?k data = data" by simp
    then show ?thesis using True by (subst feed_loop.simps) (simp add: Let_def)
  next
    case False
    then have ne: "data \<noteq> []" and k: "?k = frameSize - length buf" using 1(2) by auto
    have t: "buf @ take ?k data = take frameSize (buf @ data)"
      and dr: "drop ?k data = drop frameSize (buf @ data)"
      unfolding k using 1(2) by simp_all
    have len: "length (buf @ take ?k data) = frameSize"
      unfolding t using False by simp
    have "feed_loop env m buf data =
        feed_loop env (encode_and_send env (m\<lparr>cm_buf := []\<rparr>) (buf @ take ?k data)) [] (drop ?k data)"
      using ne len by (subst feed_loop.simps) (simp add: Let_def)
    also have "\<dots> = (foldl (encode_and_send env) (encode_and_send env (m\<lparr>cm_buf := []\<rparr>) (buf @ take ?k data))
        (frames_of ([] @ drop ?k data)))\<lparr>cm_buf := frames_rest ([] @ drop ?k data)\<rparr>"
      using len ne by (intro 1(1)) simp_all
    also have "\<dots> = (foldl (encode_and_send env) (encode_and_send env m (take frameSize (buf @ data)))
        (frames_of (drop frameSize (buf @ data))))\<lparr>cm_buf := frames_rest (drop frameSize (buf @ data))\<rparr>"
      unfolding append_Nil t dr encode_and_send_buf encode_all_buf by (rule buf_twice)
    also have "\<dots> = (foldl (encode_and_send env) m (frames_of (buf @ data)))
        \<lparr>cm_buf := frames_rest (buf @ data)\<rparr>"
      unfolding frames_long [OF False [unfolded not_less]] foldl_Cons ..
    finally show ?thesis .
  qed
qed

text \<open>C20: captured audio of any chunk sizes is sent as the stream cut into frames of 960 samples: no
  sample is lost, repeated or reordered, and what does not fill a frame is kept for the next
  call.\<close>

theorem capture_is_framed:
  assumes "length (cm_buf m) < frameSize" and "\<not> cm_hold m" and "media_ready m"
  shows "FeedCapturedPCM env now m data =
    (foldl (encode_and_send env) (m\<lparr>cm_last_capture := now\<rparr>) (frames_of (cm_buf m @ data)))
      \<lparr>cm_buf := frames_rest (cm_buf m @ data)\<rparr> \<and>
    concat (frames_of (cm_buf m @ data)) @ frames_rest (cm_buf m @ data) = cm_buf m @ data \<and>
    (\<forall>f \<in> set (frames_of (cm_buf m @ data)). length f = frameSize) \<and>
    length (frames_rest (cm_buf m @ data)) < frameSize"
proof -
  have "FeedCapturedPCM env now m data = feed_loop env (m\<lparr>cm_last_capture := now\<rparr>) (cm_buf m) data"
    using assms(2,3) by (simp add: FeedCapturedPCM_def)
  then show ?thesis
    unfolding feed_loop_frames [OF assms(1)] using frames_join [of "cm_buf m @ data"] by blast
qed

definition demo_relay :: relay_config where
  "demo_relay = \<lparr>rc_ip = ''10.0.0.1'', rc_port = 3478, rc_token = ''t'', rc_auth_token = ''a'',
     rc_raw_auth_token = None, rc_raw_token = Some [1], rc_key = ''k'', rc_relay_id = 1,
     rc_name = ''gru'', rc_auth_token_id = ''0''\<rparr>"

definition demo_context :: srtp_context where
  "demo_context = \<lparr>sc_session_key = replicate 16 1, sc_session_salt = replicate 14 2,
     sc_auth_key = replicate 20 3, sc_roc = 0, sc_last_seq = 0, sc_initialized = False, sc_auth_tag_len = 4\<rparr>"

text \<open>A manager in the middle of a call with one open relay.\<close>

definition demo_manager :: call_mgr where
  "demo_manager = NewCallManager\<lparr>cm_codec := True, cm_rtp := Some (NewWhatsAppOpusSession 0 0 1),
     cm_self := 1, cm_srtp := Some \<lparr>ss_send = demo_context, ss_recv = demo_context\<rparr>,
     cm_relay := NewSctpRelayManager\<lparr>rm_heap := [\<lparr>cn_state = relayStateOpen, cn_pc = True,
       cn_channel = True, cn_id = ''x'', cn_info = demo_relay, cn_ufrag = [], cn_remote = [],
       cn_keepalive = True, cn_stopped = False\<rparr>], rm_conns := [(''x'', 0)]\<rparr>\<rparr>"

theorem capture_is_framed_witness:
  "cm_buf (FeedCapturedPCM demo_env 0 demo_manager (replicate 1000 1)) = replicate 40 1 \<and>
   length (frames_of (replicate 1000 (1 :: rat))) = 1"
proof -
  have m: "length (cm_buf demo_manager) < frameSize" "\<not> cm_hold demo_manager" "media_ready demo_manager"
    by (simp_all add: demo_manager_def NewCallManager_def media_ready_def HasConnection_def)
  have b: "cm_buf demo_manager = []"
    by (simp add: demo_manager_def NewCallManager_def)
  show ?thesis
    using capture_is_framed [OF m, of demo_env 0 "replicate 1000 1"] unfolding b
    by (simp add: frames_of_def frames_rest_def frameSize_def)
qed

text \<open>A voice packet of SSRC 7.\<close>

definition demo_voice :: bytes where
  "demo_voice = [0x80, 120, 0, 1, 0, 0, 0, 0, 0, 0, 0, 7, 1, 2, 3, 4, 5]"

theorem foreign_stream_takes_lock_witness:
  "rl_ssrc (cm_lock (onRelayData demo_env demo_draws demo_manager demo_voice ''r'')) = 7"
proof -
  have s: "get_be32 demo_voice 8 = 7"
    by (simp add: get_be32_def byte_at_def demo_voice_def)
  have h: "\<exists>h. rtp_header_decode demo_voice = Inr h \<and> rtp_header_size h = 12"
    by (simp add: rtp_header_decode_def demo_voice_def byte_at_def Let_def rtpMinHeaderSize_def
        rtpVersion_def decode_extension_def rtp_header_size_def)
  then obtain h where h: "rtp_header_decode demo_voice = Inr h" "rtp_header_size h = 12" by blast
  have p: "rx_passes demo_manager demo_voice"
    by (simp add: rx_passes_def IsStunPacket_def IsRtpPacket_def demo_voice_def byte_at_def rtp_pt_def
        PayloadTypeWhatsAppOpus_def demo_manager_def NewCallManager_def)
  show ?thesis
    using foreign_stream_takes_lock [OF p, of "\<lparr>ss_send = demo_context, ss_recv = demo_context\<rparr>" h demo_env demo_draws "''r''"] h
    unfolding s
    by (simp add: demo_manager_def NewCallManager_def demo_context_def demo_env_def demo_voice_def
        dedup_step_def rx_window_zero_def Let_def)
qed

theorem reject_outgoing_leaves_call_open_witness:
  "cm_call (fst (RejectCall demo_env demo_draws (NewCallManager\<lparr>cm_call := Some (demo_call CallStateRinging)\<rparr>)
     ''C1'' EndCallReasonDeclined)) = Some (demo_call CallStateRinging)"
  using reject_outgoing_leaves_call_open [of "NewCallManager\<lparr>cm_call := Some (demo_call CallStateRinging)\<rparr>"
      "demo_call CallStateRinging" demo_env demo_draws EndCallReasonDeclined demo_draws "[]" False]
  by (simp add: demo_call_def ci_state_def Let_def NewOutgoingCall_def)

definition env_b :: voip_env where
  "env_b = demo_env\<lparr>ev_own_lid := ''b:1@lid''\<rparr>"

definition call_with_key :: call_info where
  "call_with_key = (demo_call CallStateConnecting)\<lparr>ci_key := Some (replicate 32 9),
     ci_relay := Some \<lparr>rd_endpoints = [], rd_participants = [''a:0@lid'', ''b:1@lid''], rd_uuid = [],
       rd_self_pid = None, rd_peer_pid = None, rd_hbh_key = None\<rparr>\<rparr>"

theorem call_keys_mirrored_witness:
  "\<exists>sA sB. cm_srtp (initSrtpKeys demo_env (NewCallManager\<lparr>cm_call := Some call_with_key\<rparr>)) = Some sA \<and>
     cm_srtp (initSrtpKeys env_b (NewCallManager\<lparr>cm_call := Some call_with_key\<rparr>)) = Some sB \<and>
     ss_recv sB = ss_send sA"
proof -
  let ?ps = "[''a:0@lid'', ''b:1@lid'']" and ?k = "replicate 32 9 :: bytes"
  let ?m = "NewCallManager\<lparr>cm_call := Some call_with_key\<rparr>"
  have two: "two_devices ?ps ''a:0@lid'' ''b:1@lid''"
    by (simp add: two_devices_def CleanJID_def ensureDeviceJid_def)
  have a: "CleanJID (ownCredJid demo_env) = CleanJID ''a:0@lid''"
    "CleanJID (ownCredJid env_b) = CleanJID ''b:1@lid''"
    by (simp_all add: ownCredJid_def creator_of_def env_b_def demo_env_def CleanJID_def)
  have e: "ev_aes env_b = ev_aes demo_env" "ev_hkdf env_b = ev_hkdf demo_env"
    by (simp_all add: env_b_def)
  have c: "cm_call ?m = Some call_with_key" "ci_key call_with_key = Some ?k"
    "participants_of call_with_key = ?ps"
    by (simp_all add: call_with_key_def participants_of_def)
  have acc: "cm_accepted_by ?m \<in> {[], ''b:1@lid''}" "cm_accepted_by ?m = []"
    by (simp_all add: NewCallManager_def)
  have "\<exists>s. derive_session demo_env ?k ''a:0@lid'' ?k ''b:1@lid'' = Some s"
    by (simp add: derive_session_def DerivePerJidSrtpKey_def NewSrtpSession_def NewSrtpContext_def
        deriveSrtpKey_def aesCtrXor_def demo_env_def Let_def)
  then obtain sA where s: "derive_session demo_env ?k ''a:0@lid'' ?k ''b:1@lid'' = Some sA" by blast
  have "numbered 0 []" "0 + 0 < (65536 :: nat)" "short_gaps 0 []" by simp_all
  from call_keys_mirrored [OF two a e c c acc s this] show ?thesis by blast
qed

end
