(* ===== verification/PanelAuth.thy ===== *)
theory PanelAuth
  imports Prelude
begin

text \<open>
  Who may use the panel and the audio socket: src/cmd/server/panelauth.go and audioticket.go.

  Instants and durations are nanoseconds (time.Duration is an int64, whose overflow in the lock
  computation is kept); the clock, random tokens and bcrypt are arguments.
\<close>

section \<open>Login of the panel\<close>

definition panelSessionTTL :: int where "panelSessionTTL = 7 * 24 * 3600 * 1000000000"
definition loginMaxFails :: nat where "loginMaxFails = 5"
definition loginBaseLock :: int where "loginBaseLock = 60 * 1000000000"
definition loginMaxLock :: int where "loginMaxLock = 15 * 60 * 1000000000"

record login_fails =
  lf_count :: nat
  lf_locked_until :: int

record panel_auth =
  pl_user :: string
  pl_hash :: string
  pl_sessions :: "(string, int) gomap"
  pl_fails :: "(string, login_fails) gomap"

text \<open>\<open>valid_hash\<close> is bcrypt.Cost accepting the hash.\<close>

definition newPanelAuth :: "(string \<Rightarrow> bool) \<Rightarrow> string \<Rightarrow> string \<Rightarrow> panel_auth option" where
  "newPanelAuth valid_hash user hash =
     (if valid_hash hash
      then Some \<lparr>pl_user = (if user = [] then ''admin'' else user), pl_hash = hash, pl_sessions = [],
                 pl_fails = []\<rparr>
      else None)"

definition panel_check :: "(string \<Rightarrow> string \<Rightarrow> bool) \<Rightarrow> panel_auth \<Rightarrow> string \<Rightarrow> string \<Rightarrow> bool" where
  "panel_check bcrypt p user password = (user = pl_user p \<and> bcrypt (pl_hash p) password)"

definition lockedFor :: "int \<Rightarrow> panel_auth \<Rightarrow> string \<Rightarrow> int" where
  "lockedFor now p ip =
     (case gm_get (pl_fails p) ip of None \<Rightarrow> 0 | Some f \<Rightarrow> max 0 (lf_locked_until f - now))"

text \<open>\<open>loginBaseLock << k\<close> on int64: the shift wraps around, and is 0 from 64 on.\<close>

definition shl64 :: "int \<Rightarrow> nat \<Rightarrow> int" where
  "shl64 x k = (x * 2 ^ k + 2 ^ 63) mod 2 ^ 64 - 2 ^ 63"

definition lock_time :: "nat \<Rightarrow> int" where
  "lock_time count =
     (let lock = shl64 loginBaseLock (count - loginMaxFails)
      in if lock \<le> 0 \<or> loginMaxLock < lock then loginMaxLock else lock)"

definition recordFailure :: "int \<Rightarrow> panel_auth \<Rightarrow> string \<Rightarrow> panel_auth" where
  "recordFailure now p ip =
     (let f = (case gm_get (pl_fails p) ip of Some f \<Rightarrow> f | None \<Rightarrow> \<lparr>lf_count = 0, lf_locked_until = 0\<rparr>);
          f1 = f\<lparr>lf_count := lf_count f + 1\<rparr>;
          f2 = (if loginMaxFails \<le> lf_count f1
                then f1\<lparr>lf_locked_until := now + lock_time (lf_count f1)\<rparr> else f1)
      in p\<lparr>pl_fails := gm_put ip f2 (pl_fails p)\<rparr>)"

definition newSession :: "int \<Rightarrow> string \<Rightarrow> panel_auth \<Rightarrow> string \<Rightarrow> panel_auth \<times> int" where
  "newSession now token p ip =
     (let expires = now + panelSessionTTL
      in (p\<lparr>pl_fails := gm_del ip (pl_fails p),
            pl_sessions := gm_put token expires (gm_filter (\<lambda>t e. \<not> e < now) (pl_sessions p))\<rparr>,
          expires))"

definition session_valid :: "int \<Rightarrow> panel_auth \<Rightarrow> string \<Rightarrow> panel_auth \<times> bool" where
  "session_valid now p token =
     (if token = [] then (p, False)
      else case gm_get (pl_sessions p) token of
        None \<Rightarrow> (p, False)
      | Some e \<Rightarrow> (if e < now then (p\<lparr>pl_sessions := gm_del token (pl_sessions p)\<rparr>, False) else (p, True)))"

definition panel_revoke :: "panel_auth \<Rightarrow> string \<Rightarrow> panel_auth" where
  "panel_revoke p token = p\<lparr>pl_sessions := gm_del token (pl_sessions p)\<rparr>"

text \<open>\<open>split\<close> is net.SplitHostPort's host.\<close>

definition clientIP :: "(string \<Rightarrow> string option) \<Rightarrow> string \<Rightarrow> string \<Rightarrow> string" where
  "clientIP split header remote =
     (if header \<noteq> [] then header else case split remote of None \<Rightarrow> remote | Some h \<Rightarrow> h)"

datatype login_reply =
    LoginOpen | TooManyRequests int | BadRequest | Unauthorized | LoggedIn string int

definition round_seconds :: "int \<Rightarrow> int" where
  "round_seconds d = (d + 500000000) div 1000000000"

text \<open>handleAuthLogin; \<open>None\<close> is a server without a panel password or a body that is no JSON.\<close>

definition handleAuthLogin ::
    "(string \<Rightarrow> string \<Rightarrow> bool) \<Rightarrow> int \<Rightarrow> string \<Rightarrow> panel_auth option \<Rightarrow> string
     \<Rightarrow> (string \<times> string) option \<Rightarrow> panel_auth option \<times> login_reply" where
  "handleAuthLogin bcrypt now token panel ip body =
     (case panel of
        None \<Rightarrow> (None, LoginOpen)
      | Some p \<Rightarrow>
          (if 0 < lockedFor now p ip then (panel, TooManyRequests (round_seconds (lockedFor now p ip)))
           else case body of
             None \<Rightarrow> (panel, BadRequest)
           | Some (user, password) \<Rightarrow>
               (if \<not> panel_check bcrypt p user password
                then (Some (recordFailure now p ip), Unauthorized)
                else (let (p', e) = newSession now token p ip in (Some p', LoggedIn token e)))))"

definition panelCookieOK ::
    "int \<Rightarrow> panel_auth option \<Rightarrow> string \<Rightarrow> string option \<Rightarrow> string option \<Rightarrow> panel_auth option \<times> bool" where
  "panelCookieOK now panel adminToken sessionCookie adminCookie =
     (case panel of
        Some p \<Rightarrow> (case sessionCookie of
            None \<Rightarrow> (panel, False)
          | Some c \<Rightarrow> (let (p', ok) = session_valid now p c in (Some p', ok)))
      | None \<Rightarrow> (None, adminToken \<noteq> [] \<and> adminCookie = Some adminToken))"

definition handleAuthLogout :: "panel_auth option \<Rightarrow> string option \<Rightarrow> panel_auth option" where
  "handleAuthLogout panel cookie =
     (case (panel, cookie) of (Some p, Some c) \<Rightarrow> Some (panel_revoke p c) | _ \<Rightarrow> panel)"

section \<open>The lock grows and is capped, in spite of overflow\<close>

lemma shl64_small: "k < 24 \<Longrightarrow> shl64 loginBaseLock k = loginBaseLock * 2 ^ k"
proof -
  assume "k < 24"
  then have "(2 :: int) ^ k \<le> 2 ^ 23" by (intro power_increasing) simp_all
  then have "loginBaseLock * 2 ^ k < 2 ^ 63" by (simp add: loginBaseLock_def)
  moreover have "0 \<le> loginBaseLock * 2 ^ k" by (simp add: loginBaseLock_def)
  ultimately show ?thesis by (simp add: shl64_def)
qed

text \<open>60 s are \<open>29296875 * 2 ^ 11\<close> ns: a shift by 53 or more leaves nothing, and one by 29 or more
  only multiples of \<open>2 ^ 40\<close> ns, which are longer than the longest lock.\<close>

lemma shl64_big:
  assumes "29 \<le> k"
  shows "shl64 loginBaseLock k \<le> 0 \<or> loginMaxLock < shl64 loginBaseLock k"
proof -
  obtain j where k: "k = 29 + j" using assms le_Suc_ex by blast
  have eq: "loginBaseLock * 2 ^ k + 2 ^ 63 = 2 ^ 40 * (29296875 * 2 ^ j + 2 ^ 23)"
    by (simp add: k power_add loginBaseLock_def)
  have "(2 ^ 40 * (29296875 * 2 ^ j + 2 ^ 23)) mod (2 ^ 40 * 2 ^ 24 :: int)
      = 2 ^ 40 * ((29296875 * 2 ^ j + 2 ^ 23) mod 2 ^ 24)"
    by (rule mult_mod_right [symmetric])
  then have "shl64 loginBaseLock k = 2 ^ 40 * ((29296875 * 2 ^ j + 2 ^ 23) mod 2 ^ 24 - 2 ^ 23)"
    unfolding shl64_def eq by simp
  then obtain m :: int where "shl64 loginBaseLock k = 2 ^ 40 * m" by blast
  then show ?thesis by (cases "m \<le> 0") (simp_all add: loginMaxLock_def)
qed

lemma shl64_middle:
  "24 \<le> k \<Longrightarrow> k < 29 \<Longrightarrow> shl64 loginBaseLock k \<le> 0 \<or> loginMaxLock < shl64 loginBaseLock k"
proof -
  assume "24 \<le> k" "k < 29"
  then have "k = 24 \<or> k = 25 \<or> k = 26 \<or> k = 27 \<or> k = 28" by linarith
  then show ?thesis by (elim disjE) (simp_all add: shl64_def loginBaseLock_def loginMaxLock_def)
qed

lemma lock_time_value:
  assumes "loginMaxFails \<le> n"
  shows "lock_time n = min (loginBaseLock * 2 ^ (n - loginMaxFails)) loginMaxLock"
proof -
  let ?k = "n - loginMaxFails"
  have big: "loginMaxLock \<le> loginBaseLock * 2 ^ ?k" if "4 \<le> ?k"
  proof -
    have "(2 :: int) ^ 4 \<le> 2 ^ ?k" using that by (intro power_increasing) simp_all
    then show ?thesis by (simp add: loginBaseLock_def loginMaxLock_def)
  qed
  show ?thesis
  proof (cases "?k < 24")
    case True
    have "0 < loginBaseLock * 2 ^ ?k" by (simp add: loginBaseLock_def)
    then show ?thesis using shl64_small [OF True] by (simp add: lock_time_def Let_def min_def)
  next
    case False
    then have "shl64 loginBaseLock ?k \<le> 0 \<or> loginMaxLock < shl64 loginBaseLock ?k"
      using shl64_middle [of ?k] shl64_big [of ?k] by linarith
    then have "lock_time n = loginMaxLock" by (simp add: lock_time_def Let_def)
    then show ?thesis using big False by simp
  qed
qed

lemma lock_time_ge: "loginMaxFails \<le> n \<Longrightarrow> loginBaseLock \<le> lock_time n"
proof -
  assume "loginMaxFails \<le> n"
  moreover have "loginBaseLock * 1 \<le> loginBaseLock * 2 ^ (n - loginMaxFails)"
    by (intro mult_left_mono) (simp_all add: loginBaseLock_def)
  ultimately show ?thesis
    by (simp add: lock_time_value loginMaxLock_def loginBaseLock_def)
qed

section \<open>Failed logins in a row\<close>

fun fail_at :: "panel_auth \<Rightarrow> string \<Rightarrow> int list \<Rightarrow> panel_auth" where
  "fail_at p ip [] = p"
| "fail_at p ip (t # ts) = fail_at (recordFailure t p ip) ip ts"

lemma fail_at_snoc: "fail_at p ip (ts @ [t]) = recordFailure t (fail_at p ip ts) ip"
  by (induction ts arbitrary: p) simp_all

lemma fail_at_entry:
  assumes "gm_get (pl_fails p) ip = None" and "ts \<noteq> []"
  shows "gm_get (pl_fails (fail_at p ip ts)) ip = Some \<lparr>lf_count = length ts,
    lf_locked_until = (if loginMaxFails \<le> length ts then last ts + lock_time (length ts) else 0)\<rparr>"
  using assms(2)
proof (induction ts rule: rev_nonempty_induct)
  case (single t)
  then show ?case using assms(1) by (simp add: recordFailure_def Let_def loginMaxFails_def)
next
  case (snoc t ts)
  then show ?case by (simp add: fail_at_snoc recordFailure_def Let_def)
qed

text \<open>After n failed logins in a row from one address the address has to wait: not at all up to
  four failures, then one minute, doubling with every further failure, and never more than
  15 minutes, although the shift that computes the wait overflows int64 from the 29th failure on.\<close>

theorem panel_lock_bounds:
  assumes "gm_get (pl_fails p) ip = None" and "ts \<noteq> []" and "0 \<le> last ts"
  shows "lockedFor (last ts) (fail_at p ip ts) ip =
    (if length ts < 5 then 0 else min (60000000000 * 2 ^ (length ts - 5)) 900000000000)"
proof -
  have "0 \<le> min (60000000000 * 2 ^ (length ts - 5) :: int) 900000000000" by simp
  then show ?thesis
    using fail_at_entry [OF assms(1,2)] lock_time_value [of "length ts"] assms(3)
    by (simp add: lockedFor_def loginMaxFails_def loginBaseLock_def loginMaxLock_def)
qed

definition panel_demo :: panel_auth where
  "panel_demo = \<lparr>pl_user = ''admin'', pl_hash = ''h'', pl_sessions = [], pl_fails = []\<rparr>"

theorem panel_lock_bounds_witness:
  "lockedFor 7 (fail_at panel_demo ''10.0.0.1'' [1, 2, 3, 4, 5, 6, 7]) ''10.0.0.1'' = 240000000000"
  using panel_lock_bounds [of panel_demo "''10.0.0.1''" "[1, 2, 3, 4, 5, 6, 7]"]
  by (simp add: panel_demo_def)

section \<open>Guessing passwords is slow\<close>

text \<open>\<open>tried_at\<close>: the instants of a list of login attempts with wrong passwords at which the
  password was compared.\<close>

fun guess_run :: "panel_auth \<Rightarrow> string \<Rightarrow> (int \<times> string \<times> string) list \<Rightarrow> panel_auth \<times> int list" where
  "guess_run p ip [] = (p, [])"
| "guess_run p ip ((now, body) # rest) =
     (case handleAuthLogin (\<lambda>_ _. False) now [] (Some p) ip (Some body) of
        (Some p', r) \<Rightarrow>
          (let (q, ts) = guess_run p' ip rest in (q, if r = Unauthorized then now # ts else ts))
      | (None, r) \<Rightarrow> (p, []))"

lemma guess_run_Cons:
  "guess_run p ip ((now, body) # rest) =
     (if 0 < lockedFor now p ip then guess_run p ip rest
      else (let (q, ts) = guess_run (recordFailure now p ip) ip rest in (q, now # ts)))"
  by (cases body) (simp add: handleAuthLogin_def panel_check_def split: prod.splits)

declare guess_run.simps(2) [simp del]

text \<open>What is known of the entry of an address after \<open>c\<close> comparisons since \<open>t0\<close>.\<close>

definition fails_since :: "int \<Rightarrow> nat \<Rightarrow> panel_auth \<Rightarrow> string \<Rightarrow> bool" where
  "fails_since t0 c p ip \<longleftrightarrow>
     (case gm_get (pl_fails p) ip of
        None \<Rightarrow> c = 0
      | Some f \<Rightarrow> lf_count f = c
          \<and> (5 \<le> c \<longrightarrow> t0 + int (c - 4) * loginBaseLock \<le> lf_locked_until f))"

lemma fails_since_step:
  assumes "fails_since t0 c p ip" and "\<not> 0 < lockedFor now p ip" and "t0 \<le> now"
  shows "fails_since t0 (Suc c) (recordFailure now p ip) ip"
    and "5 \<le> c \<Longrightarrow> t0 + int (c - 4) * loginBaseLock \<le> now"
proof -
  show late: "t0 + int (c - 4) * loginBaseLock \<le> now" if "5 \<le> c"
    using assms that by (auto simp: fails_since_def lockedFor_def split: option.splits)
  have "t0 + int (Suc c - 4) * loginBaseLock \<le> now + lock_time (Suc c)" if "4 \<le> c"
  proof (cases "c = 4")
    case True
    then show ?thesis using lock_time_ge [of 5] assms(3) by (simp add: loginMaxFails_def)
  next
    case False
    with that have "int (Suc c - 4) = int (c - 4) + 1" by linarith
    then show ?thesis using late lock_time_ge [of "Suc c"] that False
      by (simp add: loginMaxFails_def algebra_simps)
  qed
  then show "fails_since t0 (Suc c) (recordFailure now p ip) ip"
    using assms(1) by (auto simp: fails_since_def recordFailure_def Let_def loginMaxFails_def
        split: option.splits)
qed

lemma guess_run_rate:
  assumes "fails_since t0 c p ip" and "\<forall>g\<in>set gs. t0 \<le> fst g \<and> fst g \<le> t1"
  shows "c + length (snd (guess_run p ip gs)) \<le> 5 \<or> snd (guess_run p ip gs) = []
    \<or> t0 + int (c + length (snd (guess_run p ip gs)) - 5) * loginBaseLock \<le> t1"
  using assms
proof (induction gs arbitrary: p c)
  case Nil
  then show ?case by simp
next
  case (Cons g gs)
  obtain now body where g: "g = (now, body)" by (cases g)
  show ?case
  proof (cases "0 < lockedFor now p ip")
    case True
    then show ?thesis using Cons by (simp add: g guess_run_Cons)
  next
    case False
    have t: "t0 \<le> now" "now \<le> t1" using Cons.prems(2) g by auto
    obtain q ts where q: "guess_run (recordFailure now p ip) ip gs = (q, ts)" by fastforce
    have "Suc c + length ts \<le> 5 \<or> ts = [] \<or> t0 + int (Suc c + length ts - 5) * loginBaseLock \<le> t1"
      using Cons.IH [OF fails_since_step(1) [OF Cons.prems(1) False t(1)]] Cons.prems(2) by (simp add: q)
    then show ?thesis
      using fails_since_step(2) [OF Cons.prems(1) False t(1)] t(2) False
      by (cases "5 \<le> c") (auto simp: g guess_run_Cons q Suc_diff_le)
  qed
qed



section \<open>The life of a panel session\<close>

datatype panel_op =
    PanelLogin int string string "string \<times> string"
  | PanelRequest int string
  | PanelLogout string

fun panel_op_time :: "panel_op \<Rightarrow> int option" where
  "panel_op_time (PanelLogin t token ip body) = Some t"
| "panel_op_time (PanelRequest t token) = Some t"
| "panel_op_time (PanelLogout token) = None"

fun panel_op_touches :: "string \<Rightarrow> panel_op \<Rightarrow> bool" where
  "panel_op_touches tok (PanelLogin t token ip body) = (token = tok)"
| "panel_op_touches tok (PanelRequest t token) = False"
| "panel_op_touches tok (PanelLogout token) = (token = tok)"

fun panel_step :: "(string \<Rightarrow> string \<Rightarrow> bool) \<Rightarrow> panel_auth option \<Rightarrow> panel_op \<Rightarrow> panel_auth option" where
  "panel_step bcrypt p (PanelLogin t token ip body) = fst (handleAuthLogin bcrypt t token p ip (Some body))"
| "panel_step bcrypt p (PanelRequest t token) = fst (panelCookieOK t p [] (Some token) None)"
| "panel_step bcrypt p (PanelLogout token) = handleAuthLogout p (Some token)"

text \<open>What the run keeps: the token is there until its end has passed, and never gets another end.\<close>

definition session_kept :: "int \<Rightarrow> string \<Rightarrow> int \<Rightarrow> panel_auth option \<Rightarrow> bool" where
  "session_kept now tok e panel \<longleftrightarrow>
     (\<exists>p. panel = Some p \<and> gm_wf (pl_sessions p)
        \<and> gm_get (pl_sessions p) tok \<in> (if now \<le> e then {Some e} else {None, Some e}))"

lemma session_kept_step:
  assumes "session_kept now tok e panel" and "\<not> panel_op_touches tok op"
    and "panel_op_time op = None \<or> (\<exists>t. panel_op_time op = Some t \<and> t \<le> now)"
  shows "session_kept now tok e (panel_step bcrypt panel op)"
proof (cases op)
  case (PanelLogin t token ip body)
  then show ?thesis using assms
    by (cases body) (auto simp: session_kept_def handleAuthLogin_def recordFailure_def newSession_def
        Let_def gm_get_filter split: option.splits if_splits)
next
  case (PanelRequest t token)
  then show ?thesis using assms
    by (cases "token = tok") (auto simp: session_kept_def panelCookieOK_def session_valid_def
        split: option.splits if_splits)
next
  case (PanelLogout token)
  then show ?thesis using assms
    by (auto simp: session_kept_def handleAuthLogout_def panel_revoke_def)
qed

lemma session_kept_run:
  "session_kept now tok e panel \<Longrightarrow>
   \<forall>op\<in>set ops. \<not> panel_op_touches tok op
     \<and> (panel_op_time op = None \<or> (\<exists>t. panel_op_time op = Some t \<and> t \<le> now)) \<Longrightarrow>
   session_kept now tok e (run_steps (panel_step bcrypt) panel ops)"
  by (induction ops arbitrary: panel) (auto intro: session_kept_step)

lemma session_kept_valid:
  "session_kept now tok e panel \<Longrightarrow> tok \<noteq> [] \<Longrightarrow>
   snd (panelCookieOK now panel adm (Some tok) c) = (now \<le> e)"
  by (auto simp: session_kept_def panelCookieOK_def session_valid_def split: option.splits if_splits)

text \<open>C32: A successful login opens the panel for exactly seven days: whatever other logins,
  requests and logouts the server handles in between, the cookie is accepted at any later instant
  up to seven days after the login and never after that, unless it is logged out.\<close>

theorem panel_session_lifetime:
  assumes "gm_wf (pl_sessions p)" and "tok \<noteq> []"
    and "handleAuthLogin bcrypt t0 tok (Some p) ip body = (panel, LoggedIn tok e)"
    and "\<forall>op\<in>set ops. \<not> panel_op_touches tok op
      \<and> (panel_op_time op = None \<or> (\<exists>t. panel_op_time op = Some t \<and> t \<le> now))"
  shows "snd (panelCookieOK now (run_steps (panel_step bcrypt) panel ops) adm (Some tok) c)
    = (now \<le> t0 + 7 * 24 * 3600 * 1000000000)"
proof -
  have "session_kept now tok (t0 + panelSessionTTL) panel"
    using assms(1,3) by (auto simp: session_kept_def handleAuthLogin_def newSession_def Let_def
        split: if_splits option.splits)
  from session_kept_valid [OF session_kept_run [OF this assms(4)] assms(2)] show ?thesis
    by (simp add: panelSessionTTL_def)
qed

theorem panel_session_lifetime_witness:
  "snd (panelCookieOK 9 (run_steps (panel_step (\<lambda>h pw. pw = ''s''))
      (fst (handleAuthLogin (\<lambda>h pw. pw = ''s'') 5 ''tok'' (Some panel_demo) ''ip'' (Some (''admin'', ''s''))))
      [PanelLogout ''other'', PanelRequest 7 ''tok'']) [] (Some ''tok'') None)"
  using panel_session_lifetime [of panel_demo "''tok''" "\<lambda>h pw. pw = ''s''" 5 "''ip''"
      "Some (''admin'', ''s'')"
      "fst (handleAuthLogin (\<lambda>h pw. pw = ''s'') 5 ''tok'' (Some panel_demo) ''ip'' (Some (''admin'', ''s'')))"
      "5 + panelSessionTTL" "[PanelLogout ''other'', PanelRequest 7 ''tok'']" 9 "[]" None]
  by (simp add: panel_demo_def handleAuthLogin_def lockedFor_def panel_check_def newSession_def Let_def
      del: run_steps.simps)

section \<open>Tickets of the audio socket\<close>

definition audioTicketTTL :: int where "audioTicketTTL = 30 * 1000000000"

record audio_ticket =
  at_call :: string
  at_expires :: int

type_synonym audio_tickets = "(string, audio_ticket) gomap"

definition ticket_issue :: "int \<Rightarrow> string \<Rightarrow> audio_tickets \<Rightarrow> string \<Rightarrow> audio_tickets" where
  "ticket_issue now ticket m callID =
     gm_put ticket \<lparr>at_call = callID, at_expires = now + audioTicketTTL\<rparr>
       (gm_filter (\<lambda>k v. \<not> at_expires v < now) m)"

definition ticket_consume :: "int \<Rightarrow> audio_tickets \<Rightarrow> string \<Rightarrow> string \<Rightarrow> audio_tickets \<times> bool" where
  "ticket_consume now m ticket callID =
     (case gm_get m ticket of
        None \<Rightarrow> (m, False)
      | Some tk \<Rightarrow> (gm_del ticket m, at_call tk = callID \<and> \<not> at_expires tk < now))"

datatype ticket_op = TicketIssue int string string | TicketConsume int string string

text \<open>The answers the uses of one ticket get, in order.\<close>

fun ticket_answers :: "string \<Rightarrow> audio_tickets \<Rightarrow> ticket_op list \<Rightarrow> bool list" where
  "ticket_answers tk m [] = []"
| "ticket_answers tk m (TicketIssue now ticket callID # ops) =
     ticket_answers tk (ticket_issue now ticket m callID) ops"
| "ticket_answers tk m (TicketConsume now ticket callID # ops) =
     (let (m', ok) = ticket_consume now m ticket callID
      in if ticket = tk then ok # ticket_answers tk m' ops else ticket_answers tk m' ops)"

fun ticket_time :: "ticket_op \<Rightarrow> int" where
  "ticket_time (TicketIssue now ticket callID) = now"
| "ticket_time (TicketConsume now ticket callID) = now"

fun ticket_issues :: "string \<Rightarrow> ticket_op \<Rightarrow> bool" where
  "ticket_issues tk (TicketIssue now ticket callID) = (ticket = tk)"
| "ticket_issues tk (TicketConsume now ticket callID) = False"

fun ticket_uses :: "string \<Rightarrow> ticket_op list \<Rightarrow> (int \<times> string) list" where
  "ticket_uses tk [] = []"
| "ticket_uses tk (TicketIssue now ticket callID # ops) = ticket_uses tk ops"
| "ticket_uses tk (TicketConsume now ticket callID # ops) =
     (if ticket = tk then (now, callID) # ticket_uses tk ops else ticket_uses tk ops)"

lemma ticket_gone:
  "gm_wf m \<Longrightarrow> gm_get m tk = None \<Longrightarrow> \<forall>op\<in>set ops. \<not> ticket_issues tk op \<Longrightarrow>
   ticket_answers tk m ops = map (\<lambda>u. False) (ticket_uses tk ops)"
proof (induction tk m ops rule: ticket_answers.induct)
  case (3 tk m now ticket callID ops)
  then show ?case
    by (auto simp: ticket_consume_def Let_def gm_get_del split: option.splits)
qed (auto simp: ticket_issue_def gm_get_filter)

lemma ticket_first_use:
  "gm_wf m \<Longrightarrow> \<forall>op\<in>set ops. \<not> ticket_issues tk op \<Longrightarrow> sorted (map ticket_time ops) \<Longrightarrow>
   gm_get m tk = Some v \<Longrightarrow>
   ticket_answers tk m ops = (case ticket_uses tk ops of [] \<Rightarrow> []
     | (t, c) # us \<Rightarrow> (at_call v = c \<and> t \<le> at_expires v) # map (\<lambda>u. False) us)"
proof (induction tk m ops rule: ticket_answers.induct)
  case (1 tk m)
  then show ?case by simp
next
  case (2 tk m now ticket callID ops)
  let ?m = "ticket_issue now ticket m callID"
  have wf: "gm_wf ?m" using 2 by (simp add: ticket_issue_def)
  show ?case
  proof (cases "at_expires v < now")
    case True
    then have gone: "gm_get ?m tk = None" using 2 by (auto simp: ticket_issue_def gm_get_filter)
    have "\<forall>u\<in>set (ticket_uses tk ops). now \<le> fst u"
      using 2(4) by (induction tk ops rule: ticket_uses.induct) auto
    then show ?thesis using ticket_gone [OF wf gone] 2(3) True
      by (auto split: list.splits)
  next
    case False
    then have "gm_get ?m tk = Some v" using 2 by (auto simp: ticket_issue_def gm_get_filter)
    then show ?thesis using 2 wf by simp
  qed
next
  case (3 tk m now ticket callID ops)
  show ?case
  proof (cases "ticket = tk")
    case True
    then show ?thesis using 3 ticket_gone [of "gm_del tk m" tk ops]
      by (auto simp: ticket_consume_def)
  next
    case False
    then show ?thesis using 3 by (auto simp: ticket_consume_def split: option.splits)
  qed
qed

text \<open>C33: An audio ticket opens one socket: of all later uses only the first can succeed, and it
  does exactly when it is for the call the ticket was issued for and comes within 30 seconds;
  every further use is refused, even after a first use that failed.\<close>

theorem audio_ticket_single_use:
  assumes "gm_wf m" and "\<forall>op\<in>set ops. \<not> ticket_issues tk op" and "sorted (map ticket_time ops)"
  shows "ticket_answers tk (ticket_issue t0 tk m callID) ops = (case ticket_uses tk ops of [] \<Rightarrow> []
     | (t, c) # us \<Rightarrow> (c = callID \<and> t \<le> t0 + 30000000000) # map (\<lambda>u. False) us)"
proof -
  have "gm_wf (ticket_issue t0 tk m callID)" using assms(1) by (simp add: ticket_issue_def)
  from ticket_first_use [OF this assms(2,3)] show ?thesis
    by (auto simp: ticket_issue_def audioTicketTTL_def split: list.splits)
qed

theorem audio_ticket_single_use_witness:
  "ticket_answers ''t'' (ticket_issue 0 ''t'' [] ''call'')
     [TicketConsume 1 ''t'' ''call'', TicketIssue 2 ''u'' ''x'', TicketConsume 3 ''t'' ''call'']
   = [True, False]"
  using audio_ticket_single_use [of "[]" "[TicketConsume 1 ''t'' ''call'', TicketIssue 2 ''u'' ''x'',
      TicketConsume 3 ''t'' ''call'']" "''t''" 0 "''call''"]
  by simp

end
