(* ===== verification/Registry.thy ===== *)
theory Registry
  imports Prelude
begin

text \<open>
  The calls of a session: src/cmd/server/callregistry.go, and the way doStartCall
  (src/cmd/server/httpapi.go) uses the registry to keep one outgoing call per number.

  The entries are of any type; what getByPeer reads of an entry is an argument.  Every operation
  holds the registry's mutex, so it is one step.
\<close>

section \<open>Operations\<close>

record 'c call_registry =
  rg_calls :: "(string, 'c) gomap"
  rg_dialed :: "(string, string) gomap"

definition newCallRegistry :: "'c call_registry" where
  "newCallRegistry = \<lparr>rg_calls = [], rg_dialed = []\<rparr>"

definition reservePeer :: "'c call_registry \<Rightarrow> string \<Rightarrow> 'c call_registry \<times> string \<times> bool" where
  "reservePeer r number =
     (case gm_get (rg_dialed r) number of
        Some c \<Rightarrow> (r, c, False)
      | None \<Rightarrow> (r\<lparr>rg_dialed := gm_put number [] (rg_dialed r)\<rparr>, [], True))"

definition releasePeer :: "'c call_registry \<Rightarrow> string \<Rightarrow> 'c call_registry" where
  "releasePeer r number = r\<lparr>rg_dialed := gm_del number (rg_dialed r)\<rparr>"

definition reg_has :: "'c call_registry \<Rightarrow> string \<Rightarrow> bool" where
  "reg_has r callID = gm_has (rg_calls r) callID"

definition bindPeer :: "'c call_registry \<Rightarrow> string \<Rightarrow> string \<Rightarrow> 'c call_registry" where
  "bindPeer r number callID =
     (if \<not> reg_has r callID then r\<lparr>rg_dialed := gm_del number (rg_dialed r)\<rparr>
      else r\<lparr>rg_dialed := gm_put number callID (rg_dialed r)\<rparr>)"

definition forgetDialed :: "'c call_registry \<Rightarrow> string \<Rightarrow> 'c call_registry" where
  "forgetDialed r callID = r\<lparr>rg_dialed := gm_filter (\<lambda>number c. c \<noteq> callID) (rg_dialed r)\<rparr>"

definition reg_add :: "'c call_registry \<Rightarrow> string \<Rightarrow> 'c \<Rightarrow> 'c call_registry" where
  "reg_add r callID ac = r\<lparr>rg_calls := gm_put callID ac (rg_calls r)\<rparr>"

definition reg_get :: "'c call_registry \<Rightarrow> string \<Rightarrow> 'c option" where
  "reg_get r callID = gm_get (rg_calls r) callID"

text \<open>The first entry, in the order of the map, whose peer is the account asked for.\<close>

definition getByPeer :: "('c \<Rightarrow> string option) \<Rightarrow> 'c call_registry \<Rightarrow> string \<Rightarrow> (string \<times> 'c) option" where
  "getByPeer peer_of r account =
     find (\<lambda>(c, ac). peer_of ac = Some account) (rg_calls r)"

definition reg_remove :: "'c call_registry \<Rightarrow> string \<Rightarrow> 'c call_registry \<times> 'c option" where
  "reg_remove r callID =
     (case gm_get (rg_calls r) callID of
        None \<Rightarrow> (r, None)
      | Some ac \<Rightarrow> (forgetDialed (r\<lparr>rg_calls := gm_del callID (rg_calls r)\<rparr>) callID, Some ac))"

definition reg_count :: "'c call_registry \<Rightarrow> nat" where
  "reg_count r = length (rg_calls r)"

text \<open>setBridge and bridgeOf: the leg is one field of the entry, given by its getter and setter.\<close>

definition reg_setBridge ::
    "('c \<Rightarrow> 'l) \<Rightarrow> ('l \<Rightarrow> 'c \<Rightarrow> 'c) \<Rightarrow> 'c call_registry \<Rightarrow> string \<Rightarrow> 'l
     \<Rightarrow> 'c call_registry \<times> 'l option" where
  "reg_setBridge leg set_leg r callID b =
     (case gm_get (rg_calls r) callID of
        None \<Rightarrow> (r, None)
      | Some ac \<Rightarrow> (r\<lparr>rg_calls := gm_put callID (set_leg b ac) (rg_calls r)\<rparr>, Some (leg ac)))"

definition bridgeOf :: "('c \<Rightarrow> 'l) \<Rightarrow> 'c call_registry \<Rightarrow> string \<Rightarrow> 'l option" where
  "bridgeOf leg r callID = map_option leg (gm_get (rg_calls r) callID)"

definition drain :: "'c call_registry \<Rightarrow> 'c call_registry \<times> 'c list" where
  "drain r = (r\<lparr>rg_calls := [], rg_dialed := []\<rparr>, map snd (rg_calls r))"

lemma reg_remove_calls [simp]: "rg_calls (fst (reg_remove r c)) = gm_del c (rg_calls r)"
proof (cases "gm_get (rg_calls r) c")
  case None
  then have "gm_del c (rg_calls r) = rg_calls r"
    by (simp add: gm_get_def gm_del_def map_of_eq_None_iff)
  with None show ?thesis by (simp add: reg_remove_def)
next
  case (Some ac)
  then show ?thesis by (simp add: reg_remove_def forgetDialed_def)
qed

section \<open>Dialling, interleaved\<close>

text \<open>
  doStartCall runs in one goroutine per request and takes the registry's mutex several times: it
  reserves the number, creates the call (createCall adds it to the registry), and binds the
  reservation to the call, or gives the reservation back when anything failed.  Meanwhile calls
  end, incoming calls arrive, and other requests for the same number run.
\<close>

datatype dial_stage = Reserved | Dialed string

datatype 'c dial_event =
    DialReserve nat string
  | DialCreate nat string 'c
  | DialFail nat
  | DialBind nat
  | CallArrives string 'c
  | CallGone string

text \<open>\<open>dl_number\<close> remembers which number an outgoing call was placed to.\<close>

record 'c dial_sys =
  dl_reg :: "'c call_registry"
  dl_reqs :: "(nat, string \<times> dial_stage) gomap"
  dl_number :: "(string, string) gomap"

text \<open>Ids of calls are random and never used twice (signaling.GenerateCallID).\<close>

definition fresh_id :: "'c dial_sys \<Rightarrow> string \<Rightarrow> bool" where
  "fresh_id s c \<longleftrightarrow> c \<noteq> [] \<and> \<not> reg_has (dl_reg s) c \<and> gm_get (dl_number s) c = None"

fun dial_step :: "'c dial_sys \<Rightarrow> 'c dial_event \<Rightarrow> 'c dial_sys" where
  "dial_step s (DialReserve q n) =
     (if gm_has (dl_reqs s) q then s
      else (case reservePeer (dl_reg s) n of (r, c, ok) \<Rightarrow>
              if ok then s\<lparr>dl_reg := r, dl_reqs := gm_put q (n, Reserved) (dl_reqs s)\<rparr> else s))"
| "dial_step s (DialCreate q c ac) =
     (case gm_get (dl_reqs s) q of
        Some (n, Reserved) \<Rightarrow>
          (if fresh_id s c
           then s\<lparr>dl_reg := reg_add (dl_reg s) c ac, dl_reqs := gm_put q (n, Dialed c) (dl_reqs s),
                  dl_number := gm_put c n (dl_number s)\<rparr>
           else s)
      | _ \<Rightarrow> s)"
| "dial_step s (DialFail q) =
     (case gm_get (dl_reqs s) q of
        None \<Rightarrow> s
      | Some (n, st) \<Rightarrow>
          (let r = (case st of Reserved \<Rightarrow> dl_reg s | Dialed c \<Rightarrow> fst (reg_remove (dl_reg s) c))
           in s\<lparr>dl_reg := releasePeer r n, dl_reqs := gm_del q (dl_reqs s)\<rparr>))"
| "dial_step s (DialBind q) =
     (case gm_get (dl_reqs s) q of
        Some (n, Dialed c) \<Rightarrow> s\<lparr>dl_reg := bindPeer (dl_reg s) n c, dl_reqs := gm_del q (dl_reqs s)\<rparr>
      | _ \<Rightarrow> s)"
| "dial_step s (CallArrives c ac) =
     (if fresh_id s c then s\<lparr>dl_reg := reg_add (dl_reg s) c ac\<rparr> else s)"
| "dial_step s (CallGone c) = s\<lparr>dl_reg := fst (reg_remove (dl_reg s) c)\<rparr>"

text \<open>The requests that are preparing a call to a number, and its live outgoing calls.\<close>

definition preparing :: "'c dial_sys \<Rightarrow> string \<Rightarrow> nat \<Rightarrow> bool" where
  "preparing s n q \<longleftrightarrow> (\<exists>st. gm_get (dl_reqs s) q = Some (n, st))"

definition live_to :: "'c dial_sys \<Rightarrow> string \<Rightarrow> string \<Rightarrow> bool" where
  "live_to s n c \<longleftrightarrow> reg_has (dl_reg s) c \<and> gm_get (dl_number s) c = Some n"

text \<open>The invariant, over what the maps look up: reservations \<open>D\<close>, requests \<open>R\<close>, numbers of outgoing
  calls \<open>N\<close> and live calls \<open>L\<close>.\<close>

definition dial_maps_ok ::
    "(string \<Rightarrow> string option) \<Rightarrow> (nat \<Rightarrow> (string \<times> dial_stage) option) \<Rightarrow> (string \<Rightarrow> string option)
     \<Rightarrow> (string \<Rightarrow> bool) \<Rightarrow> bool" where
  "dial_maps_ok D R N L \<longleftrightarrow>
     (\<forall>q n st. R q = Some (n, st) \<longrightarrow> D n = Some []) \<and>
     (\<forall>n. D n = Some [] \<longrightarrow> (\<exists>q st. R q = Some (n, st))) \<and>
     (\<forall>q q' n st st'. R q = Some (n, st) \<longrightarrow> R q' = Some (n, st') \<longrightarrow> q = q') \<and>
     (\<forall>n c. D n = Some c \<longrightarrow> c \<noteq> [] \<longrightarrow> L c \<and> N c = Some n) \<and>
     (\<forall>n c. L c \<longrightarrow> N c = Some n \<longrightarrow> D n = Some c \<or> (\<exists>q. R q = Some (n, Dialed c))) \<and>
     (\<forall>q n c. R q = Some (n, Dialed c) \<longrightarrow> c \<noteq> [] \<and> N c = Some n) \<and> \<not> L []"

lemma dial_maps_okI:
  assumes "\<And>q n st. R q = Some (n, st) \<Longrightarrow> D n = Some []"
    and "\<And>n. D n = Some [] \<Longrightarrow> \<exists>q st. R q = Some (n, st)"
    and "\<And>q q' n st st'. R q = Some (n, st) \<Longrightarrow> R q' = Some (n, st') \<Longrightarrow> q = q'"
    and "\<And>n c. D n = Some c \<Longrightarrow> c \<noteq> [] \<Longrightarrow> L c \<and> N c = Some n"
    and "\<And>n c. L c \<Longrightarrow> N c = Some n \<Longrightarrow> D n = Some c \<or> (\<exists>q. R q = Some (n, Dialed c))"
    and "\<And>q n c. R q = Some (n, Dialed c) \<Longrightarrow> c \<noteq> [] \<and> N c = Some n"
    and "\<not> L []"
  shows "dial_maps_ok D R N L"
  using assms unfolding dial_maps_ok_def by blast

lemma dial_maps_okD:
  assumes "dial_maps_ok D R N L"
  shows "R q = Some (n, st) \<Longrightarrow> D n = Some []"
    and "D n = Some [] \<Longrightarrow> \<exists>q st. R q = Some (n, st)"
    and "R q = Some (n, st) \<Longrightarrow> R q' = Some (n, st') \<Longrightarrow> q = q'"
    and "D n = Some c \<Longrightarrow> c \<noteq> [] \<Longrightarrow> L c"
    and "D n = Some c \<Longrightarrow> c \<noteq> [] \<Longrightarrow> N c = Some n"
    and "L c \<Longrightarrow> N c = Some n \<Longrightarrow> D n = Some c \<or> (\<exists>q. R q = Some (n, Dialed c))"
    and "R q = Some (n, Dialed c) \<Longrightarrow> c \<noteq> []"
    and "R q = Some (n, Dialed c) \<Longrightarrow> N c = Some n"
    and "\<not> L []"
  using assms unfolding dial_maps_ok_def by blast+

lemma maps_reserve:
  assumes ok: "dial_maps_ok D R N L" and "D n = None" and "R q = None"
  shows "dial_maps_ok (D(n := Some [])) (R(q := Some (n, Reserved))) N L"
proof (rule dial_maps_okI)
  fix n' assume "(D(n := Some [])) n' = Some []"
  then show "\<exists>q' st. (R(q := Some (n, Reserved))) q' = Some (n', st)"
    using dial_maps_okD(2) [OF ok, of n'] assms(3)
    by (cases "n' = n") (auto, metis option.distinct(1))
next
  fix n' c assume "L c" "N c = Some n'"
  then show "(D(n := Some [])) n' = Some c \<or> (\<exists>q'. (R(q := Some (n, Reserved))) q' = Some (n', Dialed c))"
    using dial_maps_okD(1,6) [OF ok] assms(2,3) by (metis fun_upd_apply option.distinct(1))
qed (use dial_maps_okD(1,3,4,5,7,8,9) [OF ok] assms(2,3) in \<open>fastforce split: if_splits\<close>)+

lemma maps_create:
  assumes ok: "dial_maps_ok D R N L" and q: "R q = Some (n, Reserved)" and c: "c \<noteq> []" "\<not> L c" "N c = None"
  shows "dial_maps_ok D (R(q := Some (n, Dialed c))) (N(c := Some n)) (L(c := True))"
proof (rule dial_maps_okI)
  fix n' assume "D n' = Some []"
  then show "\<exists>q' st. (R(q := Some (n, Dialed c))) q' = Some (n', st)"
    using dial_maps_okD(2) [OF ok, of n'] q by (metis fun_upd_apply option.inject prod.inject)
next
  fix n' c' assume "(L(c := True)) c'" "(N(c := Some n)) c' = Some n'"
  then show "D n' = Some c' \<or> (\<exists>q'. (R(q := Some (n, Dialed c))) q' = Some (n', Dialed c'))"
    using dial_maps_okD(6) [OF ok, of c' n'] q c
    by (cases "c' = c") (auto, metis dial_stage.distinct(1) option.inject prod.inject)
qed (use dial_maps_okD(1,3,4,5,7,8,9) [OF ok] q c in \<open>force split: if_splits\<close>)+

lemma maps_gone:
  assumes ok: "dial_maps_ok D R N L" and c: "c \<noteq> []"
  shows "dial_maps_ok (\<lambda>n. if D n = Some c then None else D n) R N (L(c := False))"
proof (rule dial_maps_okI)
  fix n' c' assume "(L(c := False)) c'" "N c' = Some n'"
  then have "c' \<noteq> c" "D n' = Some c' \<or> (\<exists>q. R q = Some (n', Dialed c'))"
    using dial_maps_okD(6) [OF ok, of c' n'] by (auto split: if_splits)
  then show "(if D n' = Some c then None else D n') = Some c' \<or> (\<exists>q. R q = Some (n', Dialed c'))"
    by auto
qed (use dial_maps_okD(1-5,7-9) [OF ok] c in \<open>fastforce split: if_splits\<close>)+

lemma maps_release:
  assumes ok: "dial_maps_ok D R N L" and q: "R q = Some (n, st)" and st: "\<forall>c. st = Dialed c \<longrightarrow> \<not> L c"
  shows "dial_maps_ok (D(n := None)) (R(q := None)) N L"
proof (rule dial_maps_okI)
  fix n' assume "(D(n := None)) n' = Some []"
  then show "\<exists>q' st. (R(q := None)) q' = Some (n', st)"
    using dial_maps_okD(2) [OF ok, of n'] q by (metis fun_upd_apply option.distinct(1) option.inject prod.inject)
next
  fix n' c' assume l: "L c'" "N c' = Some n'"
  show "(D(n := None)) n' = Some c' \<or> (\<exists>q'. (R(q := None)) q' = Some (n', Dialed c'))"
  proof (cases "n' = n")
    case True
    then have "D n = Some [] \<and> c' \<noteq> []" using dial_maps_okD(1,9) [OF ok] q l by metis
    then obtain q' where "R q' = Some (n, Dialed c')" using dial_maps_okD(6) [OF ok l] True by auto
    then have "st = Dialed c'" using dial_maps_okD(3) [OF ok q] q by fastforce
    then show ?thesis using st l by simp
  next
    case False
    then show ?thesis using dial_maps_okD(6) [OF ok l] q by (metis fun_upd_apply option.inject prod.inject)
  qed
next
  fix q' n' st' assume a: "(R(q := None)) q' = Some (n', st')"
  then have "q' \<noteq> q" "R q' = Some (n', st')" by (auto split: if_splits)
  then show "(D(n := None)) n' = Some []"
    using dial_maps_okD(1,3) [OF ok] q by (metis fun_upd_apply)
next
  fix n' c' assume "(D(n := None)) n' = Some c'" "c' \<noteq> []"
  then show "L c' \<and> N c' = Some n'"
    using dial_maps_okD(4,5) [OF ok, of n' c'] by (auto split: if_splits)
next
  fix q1 q2 n' st1 st2 assume "(R(q := None)) q1 = Some (n', st1)" "(R(q := None)) q2 = Some (n', st2)"
  then show "q1 = q2" using dial_maps_okD(3) [OF ok, of q1 n' st1 q2 st2] by (auto split: if_splits)
next
  fix q' n' c' assume "(R(q := None)) q' = Some (n', Dialed c')"
  then show "c' \<noteq> [] \<and> N c' = Some n'"
    using dial_maps_okD(7,8) [OF ok, of q' n' c'] by (auto split: if_splits)
next
  show "\<not> L []" by (rule dial_maps_okD(9) [OF ok])
qed

lemma maps_bind:
  assumes ok: "dial_maps_ok D R N L" and q: "R q = Some (n, Dialed c)" and c: "L c"
  shows "dial_maps_ok (D(n := Some c)) (R(q := None)) N L"
proof (rule dial_maps_okI)
  fix q' n' st assume "(R(q := None)) q' = Some (n', st)"
  then have "q' \<noteq> q" "R q' = Some (n', st)" by (auto split: if_splits)
  then show "(D(n := Some c)) n' = Some []"
    using dial_maps_okD(1,3) [OF ok] q by (metis fun_upd_apply)
next
  fix n' assume "(D(n := Some c)) n' = Some []"
  then show "\<exists>q' st. (R(q := None)) q' = Some (n', st)"
    using dial_maps_okD(2,7) [OF ok] q by (metis fun_upd_apply option.inject prod.inject)
next
  fix n' c' assume l: "L c'" "N c' = Some n'"
  show "(D(n := Some c)) n' = Some c' \<or> (\<exists>q'. (R(q := None)) q' = Some (n', Dialed c'))"
  proof (cases "n' = n")
    case True
    then have "D n = Some [] \<and> c' \<noteq> []" using dial_maps_okD(1,9) [OF ok] q l by metis
    then obtain q' where "R q' = Some (n, Dialed c')" using dial_maps_okD(6) [OF ok l] True by auto
    then have "c' = c" using dial_maps_okD(3) [OF ok q] q by fastforce
    then show ?thesis using True by simp
  next
    case False
    then show ?thesis using dial_maps_okD(6) [OF ok l] q by (metis fun_upd_apply option.inject prod.inject)
  qed
next
  fix n' c' assume "(D(n := Some c)) n' = Some c'" "c' \<noteq> []"
  then show "L c' \<and> N c' = Some n'"
    using dial_maps_okD(4,5) [OF ok, of n' c'] dial_maps_okD(8) [OF ok q] c by (auto split: if_splits)
next
  fix q1 q2 n' st1 st2 assume "(R(q := None)) q1 = Some (n', st1)" "(R(q := None)) q2 = Some (n', st2)"
  then show "q1 = q2" using dial_maps_okD(3) [OF ok, of q1 n' st1 q2 st2] by (auto split: if_splits)
next
  fix q' n' c' assume "(R(q := None)) q' = Some (n', Dialed c')"
  then show "c' \<noteq> [] \<and> N c' = Some n'"
    using dial_maps_okD(7,8) [OF ok, of q' n' c'] by (auto split: if_splits)
next
  show "\<not> L []" by (rule dial_maps_okD(9) [OF ok])
qed

lemma maps_arrive:
  assumes ok: "dial_maps_ok D R N L" and c: "c \<noteq> []" "N c = None"
  shows "dial_maps_ok D R N (L(c := True))"
proof (rule dial_maps_okI)
  fix n' c' assume "(L(c := True)) c'" "N c' = Some n'"
  then have "L c'" using c by (auto split: if_splits)
  with \<open>N c' = Some n'\<close> show "D n' = Some c' \<or> (\<exists>q. R q = Some (n', Dialed c'))"
    by (rule dial_maps_okD(6) [OF ok, rotated])
qed (use dial_maps_okD(1-5,7-9) [OF ok] c in \<open>(simp; fail) | blast\<close>)+

section \<open>One outgoing call per number\<close>

definition dial_inv :: "'c dial_sys \<Rightarrow> bool" where
  "dial_inv s \<longleftrightarrow> gm_wf (rg_dialed (dl_reg s)) \<and>
     dial_maps_ok (gm_get (rg_dialed (dl_reg s))) (gm_get (dl_reqs s)) (gm_get (dl_number s))
       (reg_has (dl_reg s))"

definition dial_start :: "'c dial_sys" where
  "dial_start = \<lparr>dl_reg = newCallRegistry, dl_reqs = [], dl_number = []\<rparr>"

lemma dial_start_inv: "dial_inv dial_start"
  by (simp add: dial_inv_def dial_start_def newCallRegistry_def dial_maps_ok_def reg_has_def gm_has_def)

lemma reg_has_simps [simp]:
  "reg_has (reg_add r c ac) = (reg_has r)(c := True)"
  "reg_has (fst (reg_remove r c)) = (reg_has r)(c := False)"
  "reg_has (r\<lparr>rg_dialed := d\<rparr>) = reg_has r"
  by (auto simp: reg_has_def gm_has_def reg_add_def gm_get_put gm_get_del fun_eq_iff)

lemma removed_dialed:
  assumes "gm_wf (rg_dialed r)" and "reg_has r c"
  shows "gm_wf (rg_dialed (fst (reg_remove r c)))
    \<and> gm_get (rg_dialed (fst (reg_remove r c)))
      = (\<lambda>n. if gm_get (rg_dialed r) n = Some c then None else gm_get (rg_dialed r) n)"
  using assms by (auto simp: reg_remove_def reg_has_def gm_has_def forgetDialed_def gm_get_filter fun_eq_iff
      split: option.splits)

lemma remove_absent: "\<not> reg_has r c \<Longrightarrow> reg_remove r c = (r, None)"
  by (simp add: reg_remove_def reg_has_def gm_has_def)

lemma dial_inv_gone:
  assumes "dial_inv s"
  shows "dial_inv (s\<lparr>dl_reg := fst (reg_remove (dl_reg s) c)\<rparr>)"
proof (cases "reg_has (dl_reg s) c")
  case True
  then have "c \<noteq> []" using assms dial_maps_okD(9) unfolding dial_inv_def by metis
  then show ?thesis using assms True removed_dialed [of "dl_reg s" c] maps_gone
    by (simp add: dial_inv_def)
next
  case False
  then show ?thesis using assms by (simp add: remove_absent)
qed

lemma reg_add_dialed [simp]: "rg_dialed (reg_add r c ac) = rg_dialed r"
  by (simp add: reg_add_def)

lemma dial_inv_reserve:
  assumes "dial_inv s" shows "dial_inv (dial_step s (DialReserve q n))"
proof (cases "gm_get (rg_dialed (dl_reg s)) n = None \<and> gm_get (dl_reqs s) q = None")
  case True
  then show ?thesis
    using assms maps_reserve [of "gm_get (rg_dialed (dl_reg s))" "gm_get (dl_reqs s)"
        "gm_get (dl_number s)" "reg_has (dl_reg s)" n q]
    by (simp add: dial_inv_def reservePeer_def gm_has_def gm_get_put)
next
  case False
  then have "dial_step s (DialReserve q n) = s"
    by (auto simp: reservePeer_def gm_has_def split: option.splits)
  then show ?thesis using assms by simp
qed

lemma dial_inv_create:
  assumes "dial_inv s" shows "dial_inv (dial_step s (DialCreate q c ac))"
proof (cases "\<exists>n. gm_get (dl_reqs s) q = Some (n, Reserved) \<and> fresh_id s c")
  case True
  then obtain n where "gm_get (dl_reqs s) q = Some (n, Reserved)" "fresh_id s c" by blast
  then show ?thesis
    using assms maps_create [of "gm_get (rg_dialed (dl_reg s))" "gm_get (dl_reqs s)"
        "gm_get (dl_number s)" "reg_has (dl_reg s)" q n c]
    by (simp add: dial_inv_def fresh_id_def gm_get_put)
next
  case False
  then have "dial_step s (DialCreate q c ac) = s"
    by (auto split: option.splits dial_stage.splits)
  then show ?thesis using assms by simp
qed

lemma dial_inv_release:
  assumes "dial_inv s" and "gm_get (dl_reqs s) q = Some (n, st)"
    and "\<forall>c. st = Dialed c \<longrightarrow> \<not> reg_has (dl_reg s) c"
  shows "dial_inv (s\<lparr>dl_reg := releasePeer (dl_reg s) n, dl_reqs := gm_del q (dl_reqs s)\<rparr>)"
  using assms maps_release [of _ "gm_get (dl_reqs s)" _ "reg_has (dl_reg s)" q n st]
  by (simp add: dial_inv_def releasePeer_def gm_get_del)

lemma dial_inv_fail:
  assumes "dial_inv s" shows "dial_inv (dial_step s (DialFail q))"
proof (cases "gm_get (dl_reqs s) q")
  case None
  then show ?thesis using assms by simp
next
  case (Some a)
  obtain n st where a: "a = (n, st)" by (cases a)
  show ?thesis
  proof (cases st)
    case Reserved
    then show ?thesis using dial_inv_release [OF assms, of q n st] Some a by simp
  next
    case (Dialed c)
    let ?s = "s\<lparr>dl_reg := fst (reg_remove (dl_reg s) c)\<rparr>"
    have "dial_inv ?s" by (rule dial_inv_gone [OF assms])
    from dial_inv_release [OF this, of q n st] show ?thesis
      using Some a Dialed by simp
  qed
qed

lemma dial_inv_bind:
  assumes "dial_inv s" shows "dial_inv (dial_step s (DialBind q))"
proof (cases "\<exists>n c. gm_get (dl_reqs s) q = Some (n, Dialed c)")
  case True
  then obtain n c where q: "gm_get (dl_reqs s) q = Some (n, Dialed c)" by blast
  show ?thesis
  proof (cases "reg_has (dl_reg s) c")
    case True
    have "dial_maps_ok ((gm_get (rg_dialed (dl_reg s)))(n := Some c)) ((gm_get (dl_reqs s))(q := None))
        (gm_get (dl_number s)) (reg_has (dl_reg s))"
      by (rule maps_bind) (use assms q True in \<open>simp_all add: dial_inv_def\<close>)
    then show ?thesis
      using assms q True by (simp add: dial_inv_def bindPeer_def gm_get_put gm_get_del)
  next
    case False
    then show ?thesis using dial_inv_release [OF assms q] q
      by (simp add: bindPeer_def releasePeer_def)
  qed
next
  case False
  then have "dial_step s (DialBind q) = s"
    by (auto split: option.splits dial_stage.splits)
  then show ?thesis using assms by simp
qed

lemma dial_inv_arrives:
  assumes "dial_inv s" shows "dial_inv (dial_step s (CallArrives c ac))"
  using assms maps_arrive [of _ _ "gm_get (dl_number s)" "reg_has (dl_reg s)" c]
  by (simp add: dial_inv_def fresh_id_def)

lemma dial_step_inv: "dial_inv s \<Longrightarrow> dial_inv (dial_step s e)"
  using dial_inv_gone [of s]
  by (cases e) (simp_all only: dial_inv_reserve dial_inv_create dial_inv_fail dial_inv_bind
      dial_inv_arrives dial_step.simps(6))

interpretation dialling: step_machine dial_step dial_inv
  by unfold_locales (rule dial_step_inv)



end
