(* ===== verification/Broker.thy ===== *)
theory Broker
  imports Prelude
begin

text \<open>
  The event broker of the server: src/cmd/server/broker.go.

  An event is a datatype instead of a JSON map; \<open>ev_session\<close> is its \<open>sessionId\<close> entry.  A subscriber's
  channel is the list of events waiting in it.  Webhook posts are appended to \<open>bk_hooks\<close>.  The
  clock and the session manager's callbacks are arguments.
\<close>

section \<open>Data\<close>

datatype call_status = StatusStarting | StatusRinging | StatusConnected | StatusEnded

record call_record =
  cr_session :: string
  cr_id :: string
  cr_owner :: "string option"
  cr_direction :: string
  cr_peer :: string
  cr_peer_name :: string
  cr_started :: int
  cr_status :: call_status
  cr_ended :: "int option"
  cr_reason :: string

record auth_snapshot =
  au_state :: string
  au_paired :: bool
  au_qr :: string

record session_info =
  si_id :: string
  si_name :: string
  si_jid :: string
  si_state :: string
  si_paired :: bool
  si_qr :: string
  si_webhook :: string
  si_panel_inbound :: bool

record call_audio_stats =
  as_packets :: int
  as_gaps_speech :: int
  as_max_gap_ms :: int
  as_undecodable :: int
  as_relock :: int
  as_relay :: string
  as_bridge_errors :: int

datatype broker_event =
    EvAuthState string auth_snapshot
  | EvSessionList "session_info list" bool
  | EvSessionQR string string
  | EvCallStatus string string "string option" call_status string int
  | EvCallList "call_record list"
  | EvCallEnded string string "string option" string int "call_audio_stats option"
  | EvIncoming string string string string int
  | EvClaimed string string string
  | EvAgent string string string string string string

fun ev_session :: "broker_event \<Rightarrow> string option" where
  "ev_session (EvAuthState sid a) = Some sid"
| "ev_session (EvSessionList infos panel) = None"
| "ev_session (EvSessionQR sid qr) = Some sid"
| "ev_session (EvCallStatus sid i owner st peer at) = Some sid"
| "ev_session (EvCallList cs) = None"
| "ev_session (EvCallEnded sid i owner reason at stats) = Some sid"
| "ev_session (EvIncoming sid i peer name at) = Some sid"
| "ev_session (EvClaimed sid i owner) = Some sid"
| "ev_session (EvAgent sid i agent st conv err) = Some sid"

record subscriber =
  sb_client :: string
  sb_session :: string
  sb_ch :: "broker_event list"

record broker =
  bk_subs :: "(nat, subscriber) gomap"
  bk_calls :: "(string, call_record) gomap"
  bk_history :: "call_record list"
  bk_hooks :: "(string \<times> broker_event) list"

definition NewBroker :: broker where
  "NewBroker = \<lparr>bk_subs = [], bk_calls = [], bk_history = [], bk_hooks = []\<rparr>"

section \<open>Subscribers and broadcasts\<close>

text \<open>The new subscriber is a fresh pointer, here a number.\<close>

definition subscribeSession :: "broker \<Rightarrow> nat \<Rightarrow> string \<Rightarrow> string \<Rightarrow> broker" where
  "subscribeSession b p clientID sessionID =
     b\<lparr>bk_subs := gm_put p \<lparr>sb_client = clientID, sb_session = sessionID, sb_ch = []\<rparr> (bk_subs b)\<rparr>"

definition subscribe :: "broker \<Rightarrow> nat \<Rightarrow> string \<Rightarrow> broker" where
  "subscribe b p clientID = subscribeSession b p clientID []"

definition unsubscribe :: "broker \<Rightarrow> nat \<Rightarrow> broker" where
  "unsubscribe b p = b\<lparr>bk_subs := gm_del p (bk_subs b)\<rparr>"

text \<open>What a subscriber gets of an event: everything, or only what belongs to its session.\<close>

definition payload_for :: "string \<Rightarrow> broker_event \<Rightarrow> broker_event option" where
  "payload_for sid ev =
     (if sid = [] then Some ev
      else case ev of
        EvSessionList infos panel \<Rightarrow> None
      | EvCallList cs \<Rightarrow> Some (EvCallList (filter (\<lambda>c. cr_session c = sid) cs))
      | _ \<Rightarrow> (case ev_session ev of
          Some evs \<Rightarrow> (if evs \<noteq> sid then None else Some ev)
        | None \<Rightarrow> Some ev))"

text \<open>The channel holds 32 events; when it is full the event is dropped.\<close>

definition chan_cap :: nat where "chan_cap = 32"

definition chan_send :: "broker_event \<Rightarrow> subscriber \<Rightarrow> subscriber" where
  "chan_send ev s = (if length (sb_ch s) < chan_cap then s\<lparr>sb_ch := sb_ch s @ [ev]\<rparr> else s)"

definition sub_receive :: "broker_event \<Rightarrow> subscriber \<Rightarrow> subscriber" where
  "sub_receive ev s = (case payload_for (sb_session s) ev of None \<Rightarrow> s | Some p \<Rightarrow> chan_send p s)"

definition webhook_of :: "(string \<Rightarrow> string) \<Rightarrow> broker_event \<Rightarrow> string" where
  "webhook_of hook ev =
     (case ev_session ev of None \<Rightarrow> [] | Some sid \<Rightarrow> (if sid \<noteq> [] then hook sid else []))"

definition broadcast :: "(string \<Rightarrow> string) \<Rightarrow> broker \<Rightarrow> broker_event \<Rightarrow> broker" where
  "broadcast hook b ev =
     b\<lparr>bk_subs := map (\<lambda>(p, s). (p, sub_receive ev s)) (bk_subs b),
       bk_hooks := bk_hooks b @ (if webhook_of hook ev \<noteq> [] then [(webhook_of hook ev, ev)] else [])\<rparr>"

text \<open>The SSE loop takes the oldest event out of the channel.\<close>

definition sub_take :: "broker \<Rightarrow> nat \<Rightarrow> broker \<times> broker_event option" where
  "sub_take b p =
     (case gm_get (bk_subs b) p of
        None \<Rightarrow> (b, None)
      | Some s \<Rightarrow> (case sb_ch s of
          [] \<Rightarrow> (b, None)
        | ev # rest \<Rightarrow> (b\<lparr>bk_subs := gm_put p (s\<lparr>sb_ch := rest\<rparr>) (bk_subs b)\<rparr>, Some ev)))"

definition emitAuthState :: "(string \<Rightarrow> string) \<Rightarrow> broker \<Rightarrow> string \<Rightarrow> auth_snapshot \<Rightarrow> broker" where
  "emitAuthState hook b sid a = broadcast hook b (EvAuthState sid a)"

definition emitSessionList :: "(string \<Rightarrow> string) \<Rightarrow> broker \<Rightarrow> session_info list \<Rightarrow> bool \<Rightarrow> broker" where
  "emitSessionList hook b infos panelInbound = broadcast hook b (EvSessionList infos panelInbound)"

definition emitSessionQR :: "(string \<Rightarrow> string) \<Rightarrow> broker \<Rightarrow> string \<Rightarrow> string \<Rightarrow> broker" where
  "emitSessionQR hook b sid qr = broadcast hook b (EvSessionQR sid qr)"

definition emitIncoming ::
    "(string \<Rightarrow> string) \<Rightarrow> int \<Rightarrow> broker \<Rightarrow> string \<Rightarrow> string \<Rightarrow> string \<Rightarrow> string \<Rightarrow> broker" where
  "emitIncoming hook now b sid i peer peerName = broadcast hook b (EvIncoming sid i peer peerName now)"

definition emitIncomingClaimed :: "(string \<Rightarrow> string) \<Rightarrow> broker \<Rightarrow> string \<Rightarrow> string \<Rightarrow> string \<Rightarrow> broker" where
  "emitIncomingClaimed hook b sid i owner = broadcast hook b (EvClaimed sid i owner)"

section \<open>The records of the calls\<close>

definition broadcastCallList :: "(string \<Rightarrow> string) \<Rightarrow> broker \<Rightarrow> broker" where
  "broadcastCallList hook b = broadcast hook b (EvCallList (map snd (bk_calls b)))"

definition status_event :: "call_record \<Rightarrow> broker_event" where
  "status_event r = EvCallStatus (cr_session r) (cr_id r) (cr_owner r) (cr_status r) (cr_peer r) (cr_started r)"

definition announce :: "(string \<Rightarrow> string) \<Rightarrow> broker \<Rightarrow> call_record \<Rightarrow> broker" where
  "announce hook b r = broadcast hook (broadcastCallList hook b) (status_event r)"

definition upsertCall :: "(string \<Rightarrow> string) \<Rightarrow> broker \<Rightarrow> call_record \<Rightarrow> broker" where
  "upsertCall hook b r = announce hook (b\<lparr>bk_calls := gm_put (cr_id r) r (bk_calls b)\<rparr>) r"

definition getCall :: "broker \<Rightarrow> string \<Rightarrow> call_record option" where
  "getCall b i = gm_get (bk_calls b) i"

definition isCallConnected :: "broker \<Rightarrow> string \<Rightarrow> bool" where
  "isCallConnected b i =
     (case gm_get (bk_calls b) i of None \<Rightarrow> False | Some c \<Rightarrow> cr_status c = StatusConnected)"

definition setOwner :: "(string \<Rightarrow> string) \<Rightarrow> broker \<Rightarrow> string \<Rightarrow> string \<Rightarrow> broker \<times> bool" where
  "setOwner hook b i owner =
     (case gm_get (bk_calls b) i of
        None \<Rightarrow> (b, False)
      | Some c \<Rightarrow>
          (if cr_owner c \<noteq> None \<and> cr_owner c \<noteq> Some owner then (b, False)
           else (let c' = c\<lparr>cr_owner := Some owner\<rparr>
                 in (announce hook (b\<lparr>bk_calls := gm_put i c' (bk_calls b)\<rparr>) c', True))))"

definition ownerActiveCall :: "broker \<Rightarrow> string \<Rightarrow> string" where
  "ownerActiveCall b owner =
     (if owner = [] then []
      else case find (\<lambda>(i, c). cr_owner c = Some owner \<and> cr_status c \<noteq> StatusEnded) (bk_calls b) of
        None \<Rightarrow> [] | Some (i, c) \<Rightarrow> i)"

definition endCall ::
    "(string \<Rightarrow> string) \<Rightarrow> int \<Rightarrow> broker \<Rightarrow> string \<Rightarrow> string \<Rightarrow> call_audio_stats option \<Rightarrow> broker" where
  "endCall hook now b i reason stats =
     (case gm_get (bk_calls b) i of
        None \<Rightarrow> b
      | Some c \<Rightarrow>
          (let ended = c\<lparr>cr_status := StatusEnded, cr_ended := Some now, cr_reason := reason\<rparr>;
               b1 = b\<lparr>bk_calls := gm_del i (bk_calls b), bk_history := bk_history b @ [ended]\<rparr>
           in broadcastCallList hook
                (broadcast hook b1 (EvCallEnded (cr_session c) i (cr_owner c) reason now stats))))"

text \<open>The loop of historyRows, from index \<open>i - 1\<close> down; \<open>make\<close> panics on a negative limit.\<close>

fun history_loop :: "call_record list \<Rightarrow> string \<Rightarrow> nat \<Rightarrow> nat \<Rightarrow> call_record list \<Rightarrow> call_record list" where
  "history_loop h sid limit 0 rows = rows"
| "history_loop h sid limit (Suc i) rows =
     (if limit \<le> length rows then rows
      else history_loop h sid limit i
        (if sid = [] \<or> cr_session (h ! i) = sid then rows @ [h ! i] else rows))"

definition historyRows :: "broker \<Rightarrow> string \<Rightarrow> int \<Rightarrow> call_record list option" where
  "historyRows b sid limit =
     (if limit < 0 then None
      else Some (history_loop (bk_history b) sid (nat limit) (length (bk_history b)) []))"

definition ActiveCallCount :: "broker \<Rightarrow> nat" where
  "ActiveCallCount b = length (bk_calls b)"

section \<open>SSE connections\<close>

text \<open>What serveSSE and serveSSESession do before their loop, with the events written directly;
  \<open>auth\<close> is the state of the session, if there is one.\<close>

definition serveSSE :: "(string \<Rightarrow> string) \<Rightarrow> broker_event list \<Rightarrow> broker \<Rightarrow> nat \<Rightarrow> string \<Rightarrow> broker \<times> broker_event list" where
  "serveSSE hook snapshot b p clientID = (broadcastCallList hook (subscribe b p clientID), snapshot)"

definition serveSSESession ::
    "(string \<Rightarrow> string) \<Rightarrow> auth_snapshot option \<Rightarrow> broker \<Rightarrow> nat \<Rightarrow> string \<Rightarrow> string
     \<Rightarrow> broker \<times> broker_event list" where
  "serveSSESession hook auth b p clientID sid =
     (broadcastCallList hook (subscribeSession b p clientID sid),
      case auth of None \<Rightarrow> [] | Some a \<Rightarrow> [EvAuthState sid a])"

section \<open>Subscribers of one session see only that session\<close>

fun concerns_only :: "string \<Rightarrow> broker_event \<Rightarrow> bool" where
  "concerns_only sid (EvSessionList infos panel) = False"
| "concerns_only sid (EvCallList cs) = (\<forall>c\<in>set cs. cr_session c = sid)"
| "concerns_only sid ev = (ev_session ev = Some sid)"

lemma payload_concerns:
  "payload_for sid ev = Some p \<Longrightarrow> sid \<noteq> [] \<Longrightarrow> concerns_only sid p"
  by (cases ev) (auto simp: payload_for_def split: if_splits)

datatype broker_op =
    BSubscribe nat string string
  | BUnsubscribe nat
  | BTake nat
  | BBroadcast broker_event
  | BUpsert call_record
  | BClaim string string
  | BEnd int string string "call_audio_stats option"
  | BServe nat string "broker_event list"
  | BServeSession nat string string "auth_snapshot option"

fun broker_step :: "(string \<Rightarrow> string) \<Rightarrow> broker \<Rightarrow> broker_op \<Rightarrow> broker" where
  "broker_step hook b (BSubscribe p cl sid) = subscribeSession b p cl sid"
| "broker_step hook b (BUnsubscribe p) = unsubscribe b p"
| "broker_step hook b (BTake p) = fst (sub_take b p)"
| "broker_step hook b (BBroadcast ev) = broadcast hook b ev"
| "broker_step hook b (BUpsert r) = upsertCall hook b r"
| "broker_step hook b (BClaim i owner) = fst (setOwner hook b i owner)"
| "broker_step hook b (BEnd now i reason stats) = endCall hook now b i reason stats"
| "broker_step hook b (BServe p cl snap) = fst (serveSSE hook snap b p cl)"
| "broker_step hook b (BServeSession p cl sid a) = fst (serveSSESession hook a b p cl sid)"

definition sub_ok :: "subscriber \<Rightarrow> bool" where
  "sub_ok s \<longleftrightarrow> length (sb_ch s) \<le> 32 \<and>
     (sb_session s \<noteq> [] \<longrightarrow> (\<forall>ev\<in>set (sb_ch s). concerns_only (sb_session s) ev))"

definition subs_ok :: "broker \<Rightarrow> bool" where
  "subs_ok b \<longleftrightarrow> (\<forall>(p, s)\<in>set (bk_subs b). sub_ok s)"

lemma sub_receive_ok: "sub_ok s \<Longrightarrow> sub_ok (sub_receive ev s)"
  by (auto simp: sub_ok_def sub_receive_def chan_send_def chan_cap_def payload_concerns
      split: option.splits)

lemma subs_ok_broadcast [simp]: "subs_ok b \<Longrightarrow> subs_ok (broadcast hook b ev)"
  by (auto simp: subs_ok_def broadcast_def sub_receive_ok)

lemma subs_ok_fields [simp]:
  "subs_ok (b\<lparr>bk_calls := c\<rparr>) = subs_ok b" "subs_ok (b\<lparr>bk_history := h\<rparr>) = subs_ok b"
  by (simp_all add: subs_ok_def)

lemma subs_ok_put: "subs_ok b \<Longrightarrow> sub_ok s \<Longrightarrow> subs_ok (b\<lparr>bk_subs := gm_put p s (bk_subs b)\<rparr>)"
  by (auto simp: subs_ok_def dest: gm_in_put)

lemma sub_ok_new: "sub_ok \<lparr>sb_client = cl, sb_session = sid, sb_ch = []\<rparr>"
  by (simp add: sub_ok_def)

lemma subs_ok_announce [simp]: "subs_ok b \<Longrightarrow> subs_ok (announce hook b r)"
  by (simp add: announce_def broadcastCallList_def)

lemma broker_step_ok: "subs_ok b \<Longrightarrow> subs_ok (broker_step hook b op)"
proof (cases op)
  case (BTake p)
  assume ok: "subs_ok b"
  show ?thesis
  proof (cases "gm_get (bk_subs b) p")
    case None
    then show ?thesis using ok BTake by (simp add: sub_take_def)
  next
    case (Some s)
    then have "sub_ok s" using ok gm_get_in by (fastforce simp: subs_ok_def)
    then show ?thesis using ok BTake Some
      by (auto simp: sub_take_def sub_ok_def intro!: subs_ok_put split: list.split)
  qed
next
  case (BUnsubscribe p)
  assume "subs_ok b"
  then show ?thesis using BUnsubscribe by (auto simp: subs_ok_def unsubscribe_def gm_in_del)
qed (auto simp: subscribeSession_def subscribe_def upsertCall_def setOwner_def endCall_def Let_def
    serveSSE_def serveSSESession_def broadcastCallList_def intro!: subs_ok_put sub_ok_new subs_ok_broadcast
    split: option.splits)

interpretation broker: step_machine "broker_step hook" subs_ok
  by unfold_locales (rule broker_step_ok)

text \<open>C34: Whatever the broker does and however slowly clients read, a client connected to one session is
  never queued an event of another session: no session list, no event that carries another
  session's id, and no other session's calls in a call list.  Its queue never holds more than
  32 events.\<close>

theorem session_subscriber_isolated:
  assumes "(p, s) \<in> set (bk_subs (run_steps (broker_step hook) NewBroker ops))"
  shows "length (sb_ch s) \<le> 32
    \<and> (sb_session s = [] \<or> (\<forall>ev. ev \<notin> set (sb_ch s) \<or> concerns_only (sb_session s) ev))"
proof -
  have "subs_ok NewBroker" by (simp add: subs_ok_def NewBroker_def)
  from broker.run_inv [OF this, of hook ops] show ?thesis
    using assms by (auto simp: subs_ok_def sub_ok_def)
qed

definition demo_record :: "string \<Rightarrow> string \<Rightarrow> call_record" where
  "demo_record sid i = \<lparr>cr_session = sid, cr_id = i, cr_owner = None, cr_direction = ''inbound'',
     cr_peer = ''55'', cr_peer_name = [], cr_started = 0, cr_status = StatusRinging, cr_ended = None,
     cr_reason = []\<rparr>"

theorem session_subscriber_isolated_witness:
  "length (sb_ch (snd (hd (bk_subs (run_steps (broker_step (\<lambda>_. [])) NewBroker
     [BServeSession 1 ''c'' ''s1'' None, BUpsert (demo_record ''s2'' ''X'')]))))) \<le> 32"
proof -
  let ?b = "run_steps (broker_step (\<lambda>_. [])) NewBroker
     [BServeSession 1 ''c'' ''s1'' None, BUpsert (demo_record ''s2'' ''X'')]"
  have "bk_subs ?b \<noteq> []"
    by (simp add: NewBroker_def serveSSESession_def subscribeSession_def upsertCall_def announce_def
        broadcastCallList_def broadcast_def gm_put_def)
  then have "hd (bk_subs ?b) \<in> set (bk_subs ?b)" by simp
  then have "(fst (hd (bk_subs ?b)), snd (hd (bk_subs ?b))) \<in> set (bk_subs ?b)" by (simp del: hd_in_set)
  from session_subscriber_isolated [OF this] show ?thesis by blast
qed

section \<open>The history\<close>

lemma take_diff_Cons: "\<not> k \<le> n \<Longrightarrow> take (k - n) (x # xs) = x # take (k - Suc n) xs"
  using Suc_diff_Suc [of n k] take_Suc_Cons [of "k - Suc n" x xs] by simp

lemma history_loop_value:
  "i \<le> length h \<Longrightarrow>
   history_loop h sid limit i rows =
     rows @ take (limit - length rows) (filter (\<lambda>c. sid = [] \<or> cr_session c = sid) (rev (take i h)))"
proof (induction i arbitrary: rows)
  case 0
  then show ?case by simp
next
  case (Suc i)
  then show ?case by (auto simp: take_Suc_conv_app_nth take_diff_Cons)
qed

lemma historyRows_newest_first:
  "0 \<le> limit \<Longrightarrow> historyRows b sid limit =
     Some (take (nat limit) (filter (\<lambda>c. sid = [] \<or> cr_session c = sid) (rev (bk_history b))))"
  by (simp add: historyRows_def history_loop_value)

section \<open>Who answers a call\<close>

text \<open>
  OnStateChange of session.go reads the record, keeps its owner and start, and writes a new one;
  \<open>stateUpdate\<close> is both steps with nothing in between.
\<close>

definition keep_owner :: "call_record option \<Rightarrow> call_record \<Rightarrow> call_record" where
  "keep_owner existing r =
     (case existing of None \<Rightarrow> r | Some e \<Rightarrow> r\<lparr>cr_owner := cr_owner e, cr_started := cr_started e\<rparr>)"

definition stateUpdate :: "(string \<Rightarrow> string) \<Rightarrow> broker \<Rightarrow> call_record \<Rightarrow> broker" where
  "stateUpdate hook b r = upsertCall hook b (keep_owner (getCall b (cr_id r)) r)"

datatype claim_op = Claim string string | Update call_record | Finish int string string

text \<open>The owners whose claims on call \<open>i\<close> are accepted, in order.\<close>

fun accepted_claims :: "(string \<Rightarrow> string) \<Rightarrow> string \<Rightarrow> broker \<Rightarrow> claim_op list \<Rightarrow> string list" where
  "accepted_claims hook i b [] = []"
| "accepted_claims hook i b (Claim j owner # ops) =
     (case setOwner hook b j owner of (b', ok) \<Rightarrow>
        (if ok \<and> j = i then owner # accepted_claims hook i b' ops else accepted_claims hook i b' ops))"
| "accepted_claims hook i b (Update r # ops) = accepted_claims hook i (stateUpdate hook b r) ops"
| "accepted_claims hook i b (Finish now j reason # ops) =
     accepted_claims hook i (endCall hook now b j reason None) ops"

lemma broadcast_calls [simp]:
  "bk_calls (broadcast hook b ev) = bk_calls b" "bk_history (broadcast hook b ev) = bk_history b"
  by (simp_all add: broadcast_def)

lemma announce_calls [simp]:
  "bk_calls (announce hook b r) = bk_calls b" "bk_calls (broadcastCallList hook b) = bk_calls b"
  by (simp_all add: announce_def broadcastCallList_def)

lemma upsert_calls [simp]: "bk_calls (upsertCall hook b r) = gm_put (cr_id r) r (bk_calls b)"
  by (simp add: upsertCall_def)

lemma keep_owner_id [simp]: "cr_id (keep_owner e r) = cr_id r"
  by (simp add: keep_owner_def split: option.split)

lemma claims_of_owned:
  "gm_get (bk_calls b) i = Some c \<Longrightarrow> cr_owner c = Some a \<Longrightarrow>
   \<forall>now j reason. Finish now j reason \<in> set ops \<longrightarrow> j \<noteq> i \<Longrightarrow>
   \<forall>x\<in>set (accepted_claims hook i b ops). x = a"
proof (induction ops arbitrary: b c)
  case Nil
  then show ?case by simp
next
  case (Cons op ops)
  have ops: "\<forall>now j reason. Finish now j reason \<in> set ops \<longrightarrow> j \<noteq> i" using Cons.prems(3) by simp
  show ?case
  proof (cases op)
    case (Claim j owner)
    obtain b' ok where s: "setOwner hook b j owner = (b', ok)" by fastforce
    have "\<exists>c'. gm_get (bk_calls b') i = Some c' \<and> cr_owner c' = Some a \<and> (ok \<and> j = i \<longrightarrow> owner = a)"
      using s Cons.prems(1,2) by (cases "j = i") (auto simp: setOwner_def Let_def split: option.splits if_splits)
    then obtain c' where "gm_get (bk_calls b') i = Some c'" "cr_owner c' = Some a"
      "ok \<and> j = i \<longrightarrow> owner = a" by blast
    then show ?thesis using Cons.IH [OF _ _ ops, of b' c'] s Claim by simp
  next
    case (Update r)
    have "\<exists>c'. gm_get (bk_calls (stateUpdate hook b r)) i = Some c' \<and> cr_owner c' = Some a"
      using Cons.prems(1,2) keep_owner_id [of "getCall b (cr_id r)" r]
      by (cases "cr_id r = i") (simp_all add: stateUpdate_def getCall_def, simp add: keep_owner_def)
    then show ?thesis using Cons.IH [OF _ _ ops] Update by auto
  next
    case (Finish now j reason)
    then have "j \<noteq> i" using Cons.prems(3) by simp
    then have "gm_get (bk_calls (endCall hook now b j reason None)) i = Some c"
      using Cons.prems(1) by (auto simp: endCall_def Let_def split: option.splits)
    then show ?thesis using Cons.IH [OF _ Cons.prems(2) ops] Finish by simp
  qed
qed



text \<open>
  But session.go reads the record with getCall and writes it with upsertCall, and resolves the
  peer's name in the database in between; a claim made there is lost, and the next client's claim
  is accepted as well.
\<close>

theorem claim_lost_in_state_update:
  assumes "gm_get (bk_calls b) i = Some c" and "cr_owner c = None" and "cr_id r = i"
  shows "\<exists>b1 b2 b3. setOwner hook b i a = (b1, True)
    \<and> b2 = upsertCall hook b1 (keep_owner (getCall b i) r)
    \<and> setOwner hook b2 i a' = (b3, True)"
  using assms by (simp add: setOwner_def Let_def getCall_def keep_owner_def)

end
