(* ===== verification/Recorder.thy ===== *)
theory Recorder
  imports RxPath
begin

text \<open>
  The call recorder: src/internal/voip/recording/recorder.go and wav.go, and the PCM conversion of
  src/internal/voip/media/pcm.go.

  Samples are exact rationals instead of float32 (no NaN); the clock is an argument.  A tick of the
  20 ms ticker and the final flush are steps of their own.  \<open>wv_file\<close> is the file with everything
  that was handed to the buffered writer; how many bytes of a write the disk takes is an argument.
\<close>

unbundle bit_operations_syntax

section \<open>Samples\<close>

definition f2i :: "rat \<Rightarrow> u16" where
  "f2i s = (if 1 \<le> s then 32767 else if s \<le> -1 then word_of_int (-32768)
            else if 0 \<le> s then word_of_int \<lfloor>s * 32767\<rfloor> else word_of_int \<lceil>s * 32767\<rceil>)"

definition PCMFloat32ToInt16LE :: "pcm \<Rightarrow> bytes" where
  "PCMFloat32ToInt16LE p = concat (map (\<lambda>s. put_le16 (f2i s)) p)"

definition PCMInt16LEToFloat32 :: "bytes \<Rightarrow> pcm" where
  "PCMInt16LEToFloat32 b = map (\<lambda>i. of_int (sint (get_le16 b (i * 2))) / 32768) [0..<length b div 2]"

section \<open>wav.go\<close>

record wav_writer =
  wv_file :: bytes
  wv_channels :: u16
  wv_rate :: u32
  wv_data :: u32
  wv_closed :: bool

definition ascii :: "string \<Rightarrow> bytes" where
  "ascii s = map (\<lambda>c. word_of_nat (of_char c)) s"

definition wav_header :: "u16 \<Rightarrow> u32 \<Rightarrow> u32 \<Rightarrow> u32 \<Rightarrow> bytes" where
  "wav_header ch rate riff data =
     ascii ''RIFF'' @ put_le32 riff @ ascii ''WAVE'' @ ascii ''fmt '' @ put_le32 16 @ put_le16 1 @
     put_le16 ch @ put_le32 rate @ put_le32 (rate * ucast ch * 16 div 8) @
     put_le16 (ch * 16 div 8) @ put_le16 16 @ ascii ''data'' @ put_le32 data"

definition newWavWriter :: "u16 \<Rightarrow> u32 \<Rightarrow> wav_writer" where
  "newWavWriter ch rate = \<lparr>wv_file = wav_header ch rate 0 0, wv_channels = ch, wv_rate = rate,
     wv_data = 0, wv_closed = False\<rparr>"

text \<open>\<open>taken\<close> is how many bytes the writer takes before it fails; \<open>None\<close> is no failure.\<close>

definition writeSamples :: "nat option \<Rightarrow> wav_writer \<Rightarrow> u16 list \<Rightarrow> wav_writer" where
  "writeSamples taken w samples =
     (if samples = [] then w
      else let buf = concat (map put_le16 samples);
               out = (case taken of None \<Rightarrow> buf | Some k \<Rightarrow> take k buf)
           in w\<lparr>wv_file := wv_file w @ out, wv_data := wv_data w + word_of_nat (length out)\<rparr>)"

definition wav_close :: "wav_writer \<Rightarrow> wav_writer" where
  "wav_close w =
     (if wv_closed w then w
      else let f1 = (case put_at (wv_file w) 4 (put_le32 (36 + wv_data w)) of None \<Rightarrow> wv_file w | Some f \<Rightarrow> f);
               f2 = (case put_at f1 40 (put_le32 (wv_data w)) of None \<Rightarrow> f1 | Some f \<Rightarrow> f)
           in w\<lparr>wv_file := f2, wv_closed := True\<rparr>)"

section \<open>recorder.go\<close>

definition WavHeaderBytes :: int where "WavHeaderBytes = 44"
definition sampleRate :: int where "sampleRate = 16000"
definition nsPerSample :: int where "nsPerSample = 1000000000 div sampleRate"
definition maxPendingSamples :: nat where "maxPendingSamples = 16000 * 30"

record recorder =
  rc_max_frames :: int
  rc_op :: pcm
  rc_peer :: pcm
  rc_written :: int
  rc_started :: int
  rc_closed :: bool
  rc_limit_hit :: bool
  rc_wav :: wav_writer
  rc_running :: bool    \<comment> \<open>the goroutine run() has not returned\<close>

text \<open>\<open>maxDuration\<close> is in nanoseconds, 0 for no cap.\<close>

definition newRecorder :: "int \<Rightarrow> int \<Rightarrow> recorder" where
  "newRecorder now maxDuration =
     \<lparr>rc_max_frames = (if 0 < maxDuration then maxDuration div nsPerSample else 0), rc_op = [],
      rc_peer = [], rc_written = 0, rc_started = now, rc_closed = False, rc_limit_hit = False,
      rc_wav = newWavWriter 2 16000, rc_running = True\<rparr>"

definition append_leg :: "bool \<Rightarrow> pcm \<Rightarrow> pcm \<Rightarrow> pcm" where
  "append_leg shut buf p =
     (if p = [] then buf else if \<not> shut \<and> length buf < maxPendingSamples then buf @ p else buf)"

definition WriteOperator :: "recorder \<Rightarrow> pcm \<Rightarrow> recorder" where
  "WriteOperator r p = r\<lparr>rc_op := append_leg (rc_closed r) (rc_op r) p\<rparr>"

definition WritePeer :: "recorder \<Rightarrow> pcm \<Rightarrow> recorder" where
  "WritePeer r p = r\<lparr>rc_peer := append_leg (rc_closed r) (rc_peer r) p\<rparr>"

text \<open>The first \<open>n\<close> samples, padded with silence, and what stays in the buffer.\<close>

definition consume :: "pcm \<Rightarrow> nat \<Rightarrow> pcm \<times> pcm" where
  "consume buf n = (take n buf @ replicate (n - length buf) 0, drop n buf)"

definition interleave :: "pcm \<Rightarrow> pcm \<Rightarrow> u16 list" where
  "interleave l r = concat (map2 (\<lambda>a b. [f2i a, f2i b]) l r)"

definition flush :: "nat option \<Rightarrow> int \<Rightarrow> bool \<Rightarrow> recorder \<Rightarrow> recorder \<times> bool" where
  "flush taken now final r =
     (if rc_closed r then (r, False)
      else let target0 = (if final then rc_written r + int (max (length (rc_op r)) (length (rc_peer r)))
                          else (now - rc_started r) div nsPerSample);
               over = (0 < rc_max_frames r \<and> rc_max_frames r < target0);
               target = (if over then rc_max_frames r else target0);
               r1 = (if over then r\<lparr>rc_limit_hit := True\<rparr> else r);
               n = target - rc_written r1
           in if n \<le> 0 then (r1, rc_limit_hit r1)
              else let (left, op') = consume (rc_op r1) (nat n);
                       (right, peer') = consume (rc_peer r1) (nat n);
                       r2 = r1\<lparr>rc_op := op', rc_peer := peer',
                               rc_wav := writeSamples taken (rc_wav r1) (interleave left right),
                               rc_written := rc_written r1 + n\<rparr>
                   in (r2, rc_limit_hit r2))"

text \<open>One tick of run(): at the cap it flushes the rest and returns.\<close>

definition rec_tick :: "nat option \<Rightarrow> int \<Rightarrow> recorder \<Rightarrow> recorder" where
  "rec_tick taken now r =
     (if \<not> rc_running r then r
      else let (r1, limit) = flush taken now False r
           in if limit then (fst (flush taken now True r1))\<lparr>rc_running := False\<rparr> else r1)"

definition durationLocked :: "recorder \<Rightarrow> int" where
  "durationLocked r = rc_written r * nsPerSample"

text \<open>Close stops run(), which flushes what is buffered if it is still running.\<close>

definition rec_close :: "nat option \<Rightarrow> int \<Rightarrow> recorder \<Rightarrow> recorder \<times> int" where
  "rec_close taken now r =
     (if rc_closed r then (r, durationLocked r)
      else let r1 = (if rc_running r then (fst (flush taken now True r))\<lparr>rc_running := False\<rparr> else r);
               r2 = r1\<lparr>rc_closed := True\<rparr>
           in (r2\<lparr>rc_wav := wav_close (rc_wav r2)\<rparr>, durationLocked r2))"

definition ApproxDurationMs :: "int \<Rightarrow> int" where
  "ApproxDurationMs fileBytes =
     (let data = fileBytes - WavHeaderBytes in if data \<le> 0 then 0 else data * 1000 div (sampleRate * 2 * 2))"

section \<open>A closed file is a WAV file\<close>

text \<open>A reader of WAV files: channels, rate and samples, if all sizes agree.\<close>

definition wav_samples :: "bytes \<Rightarrow> (u16 \<times> u32 \<times> u16 list) option" where
  "wav_samples f =
     (if 44 \<le> length f \<and> take 4 f = ascii ''RIFF'' \<and> take 8 (drop 8 f) = ascii ''WAVEfmt ''
         \<and> unat (get_le32 f 4) = length f - 8 \<and> get_le32 f 16 = 16 \<and> get_le16 f 20 = 1
         \<and> take 4 (drop 36 f) = ascii ''data'' \<and> unat (get_le32 f 40) = length f - 44
         \<and> get_le16 f 34 = 16
      then Some (get_le16 f 22, get_le32 f 24,
        map (\<lambda>i. get_le16 f (44 + i * 2)) [0..<(length f - 44) div 2])
      else None)"

lemma length_ascii [simp]: "length (ascii s) = length s"
  by (simp add: ascii_def)

lemma length_wav_header [simp]: "length (wav_header ch rate riff data) = 44"
  by (simp add: wav_header_def)

lemma wav_header_patch:
  "wav_close \<lparr>wv_file = wav_header ch rate 0 0 @ body, wv_channels = ch, wv_rate = rate, wv_data = n,
     wv_closed = False\<rparr> = \<lparr>wv_file = wav_header ch rate (36 + n) n @ body, wv_channels = ch, wv_rate = rate,
     wv_data = n, wv_closed = True\<rparr>"
proof -
  let ?h = "ascii ''WAVE'' @ ascii ''fmt '' @ put_le32 16 @ put_le16 1 @
     put_le16 ch @ put_le32 rate @ put_le32 (rate * ucast ch * 16 div 8) @
     put_le16 (ch * 16 div 8) @ put_le16 16 @ ascii ''data''"
  have "put_at (ascii ''RIFF'' @ put_le32 0 @ ?h @ put_le32 0 @ body) 4 (put_le32 (36 + n))
      = Some (ascii ''RIFF'' @ put_le32 (36 + n) @ ?h @ put_le32 0 @ body)"
    using put_at_append [of "ascii ''RIFF''" 4 "put_le32 (36 + n)" "put_le32 0 @ ?h @ put_le32 0 @ body"] by simp
  moreover have "put_at ((ascii ''RIFF'' @ put_le32 (36 + n) @ ?h) @ put_le32 0 @ body) 40 (put_le32 n)
      = Some ((ascii ''RIFF'' @ put_le32 (36 + n) @ ?h) @ put_le32 n @ body)"
    using put_at_append [of "ascii ''RIFF'' @ put_le32 (36 + n) @ ?h" 40 "put_le32 n" "put_le32 0 @ body"] by simp
  ultimately show ?thesis by (simp add: wav_close_def wav_header_def Let_def)
qed

lemma get_le16_drop: "get_le16 xs (k + i) = get_le16 (drop k xs) i"
  by (simp add: get_le16_def byte_at_drop add.assoc)

lemma get_le32_drop: "get_le32 xs (k + i) = get_le32 (drop k xs) i"
  by (simp add: get_le32_def byte_at_drop add.assoc)

lemma get_le16_at: "length xs = i \<Longrightarrow> get_le16 (xs @ put_le16 w @ rest) i = w"
  using get_le16_drop [of "xs @ put_le16 w @ rest" i 0] by (simp add: get_le16_put)

lemma get_le32_at: "length xs = i \<Longrightarrow> get_le32 (xs @ put_le32 w @ rest) i = w"
  using get_le32_drop [of "xs @ put_le32 w @ rest" i 0] by (simp add: get_le32_put)

lemma get_le16_list:
  "length xs = off \<Longrightarrow>
   map (\<lambda>i. get_le16 (xs @ concat (map put_le16 ws)) (off + i * 2)) [0..<length ws] = ws"
proof (induction ws arbitrary: xs off)
  case Nil
  then show ?case by simp
next
  case (Cons w ws)
  have "[0..<length (w # ws)] = 0 # map Suc [0..<length ws]"
    by (simp add: upt_conv_Cons map_Suc_upt del: upt_Suc)
  moreover have "get_le16 (xs @ concat (map put_le16 (w # ws))) off = w"
    using Cons.prems by (simp add: get_le16_at)
  moreover have "map (\<lambda>i. get_le16 ((xs @ put_le16 w) @ concat (map put_le16 ws)) (off + 2 + i * 2))
      [0..<length ws] = ws"
    using Cons.prems by (intro Cons.IH) simp
  ultimately show ?case by (simp add: o_def add.assoc)
qed

lemma length_le16s [simp]: "length (concat (map put_le16 ws)) = 2 * length ws"
  by (induction ws) simp_all

lemma wav_samples_header:
  assumes "36 + 2 * length ws < 2 ^ 32"
  shows "wav_samples (wav_header ch rate (36 + word_of_nat (2 * length ws)) (word_of_nat (2 * length ws))
    @ concat (map put_le16 ws)) = Some (ch, rate, ws)"
proof -
  let ?n = "word_of_nat (2 * length ws) :: u32"
  let ?b = "concat (map put_le16 ws)"
  let ?f = "wav_header ch rate (36 + ?n) ?n @ ?b"
  have n: "unat ?n = 2 * length ws" "unat (36 + ?n) = 36 + 2 * length ws"
    using assms by (simp_all add: unat_of_nat take_bit_nat_eq_self unat_word_ariths)
  have s4: "get_le32 ?f 4 = 36 + ?n" unfolding wav_header_def append_assoc
    by (rule get_le32_at) simp
  have s16: "get_le32 ?f 16 = 16" unfolding wav_header_def
    using get_le32_at [of "ascii ''RIFF'' @ put_le32 (36 + ?n) @ ascii ''WAVE'' @ ascii ''fmt ''" 16 16] by simp
  have s20: "get_le16 ?f 20 = 1" unfolding wav_header_def
    using get_le16_at [of "ascii ''RIFF'' @ put_le32 (36 + ?n) @ ascii ''WAVE'' @ ascii ''fmt '' @ put_le32 16" 20 1]
    by simp
  have s22: "get_le16 ?f 22 = ch" unfolding wav_header_def
    using get_le16_at [of "ascii ''RIFF'' @ put_le32 (36 + ?n) @ ascii ''WAVE'' @ ascii ''fmt '' @ put_le32 16
      @ put_le16 1" 22 ch] by simp
  have s24: "get_le32 ?f 24 = rate" unfolding wav_header_def
    using get_le32_at [of "ascii ''RIFF'' @ put_le32 (36 + ?n) @ ascii ''WAVE'' @ ascii ''fmt '' @ put_le32 16
      @ put_le16 1 @ put_le16 ch" 24 rate] by simp
  have s34: "get_le16 ?f 34 = 16" unfolding wav_header_def
    using get_le16_at [of "ascii ''RIFF'' @ put_le32 (36 + ?n) @ ascii ''WAVE'' @ ascii ''fmt '' @ put_le32 16
      @ put_le16 1 @ put_le16 ch @ put_le32 rate @ put_le32 (rate * ucast ch * 16 div 8)
      @ put_le16 (ch * 16 div 8)" 34 16] by simp
  have s40: "get_le32 ?f 40 = ?n" unfolding wav_header_def
    using get_le32_at [of "ascii ''RIFF'' @ put_le32 (36 + ?n) @ ascii ''WAVE'' @ ascii ''fmt '' @ put_le32 16
      @ put_le16 1 @ put_le16 ch @ put_le32 rate @ put_le32 (rate * ucast ch * 16 div 8)
      @ put_le16 (ch * 16 div 8) @ put_le16 16 @ ascii ''data''" 40 ?n] by simp
  have texts: "take 4 ?f = ascii ''RIFF''" "take 8 (drop 8 ?f) = ascii ''WAVEfmt ''"
    "take 4 (drop 36 ?f) = ascii ''data''"
    by (simp_all add: wav_header_def) (simp add: ascii_def)
  have "map (\<lambda>i. get_le16 ?f (44 + i * 2)) [0..<length ws] = ws"
    by (rule get_le16_list) simp
  then show ?thesis
    using n s4 s16 s20 s22 s24 s34 s40 texts by (simp add: wav_samples_def)
qed

section \<open>What a recording contains\<close>

text \<open>\<open>padded xs ys\<close>: \<open>ys\<close> is \<open>xs\<close>, in order, with silence put in between.\<close>

fun padded :: "pcm \<Rightarrow> pcm \<Rightarrow> bool" where
  "padded xs [] = (xs = [])"
| "padded [] (y # ys) = (y = 0 \<and> padded [] ys)"
| "padded (x # xs) (y # ys) = ((x = y \<and> padded xs ys) \<or> (y = 0 \<and> padded (x # xs) ys))"

lemma padded_refl [simp]: "padded xs xs"
  by (induction xs) simp_all

lemma padded_silence [simp]: "padded [] (replicate n 0)"
  by (induction n) simp_all

lemma padded_append: "padded a b \<Longrightarrow> padded c d \<Longrightarrow> padded (a @ c) (b @ d)"
proof (induction a b rule: padded.induct)
  case (2 y ys)
  then show ?case by (cases c) auto
qed auto

lemma interleave_append:
  "length l = length r \<Longrightarrow> interleave (l @ l') (r @ r') = interleave l r @ interleave l' r'"
  by (simp add: interleave_def)

lemma length_interleave: "length l = length r \<Longrightarrow> length (interleave l r) = 2 * length l"
  by (induction l r rule: list_induct2) (simp_all add: interleave_def)

lemma writeSamples_all:
  "writeSamples None w s = w\<lparr>wv_file := wv_file w @ concat (map put_le16 s),
     wv_data := wv_data w + word_of_nat (2 * length s)\<rparr>"
  by (simp add: writeSamples_def)

definition rec_ok :: "recorder \<Rightarrow> pcm \<Rightarrow> pcm \<Rightarrow> pcm \<Rightarrow> pcm \<Rightarrow> bool" where
  "rec_ok r fo fp l rt \<longleftrightarrow> \<not> rc_closed r \<and>
     rc_wav r = \<lparr>wv_file = wav_header 2 16000 0 0 @ concat (map put_le16 (interleave l rt)), wv_channels = 2,
       wv_rate = 16000, wv_data = word_of_nat (4 * length l), wv_closed = False\<rparr> \<and>
     int (length l) = rc_written r \<and> int (length rt) = rc_written r \<and>
     0 < rc_max_frames r \<and> rc_written r \<le> rc_max_frames r \<and>
     padded fo (l @ rc_op r) \<and> padded fp (rt @ rc_peer r) \<and> (\<not> rc_running r \<longrightarrow> rc_limit_hit r)"

lemma consume_padded:
  assumes "padded fed (l @ buf)" and "consume buf n = (out, rest)"
  shows "padded fed ((l @ out) @ rest) \<and> length out = n"
proof (cases "n \<le> length buf")
  case True
  then show ?thesis using assms by (auto simp: consume_def)
next
  case False
  then have "out = buf @ replicate (n - length buf) 0" "rest = []"
    using assms(2) by (auto simp: consume_def)
  then show ?thesis using padded_append [OF assms(1) padded_silence, of "n - length buf"] False by simp
qed

lemma rec_ok_frames:
  assumes "rec_ok r fo fp l rt" and "0 < n" and "rc_written r + n \<le> rc_max_frames r"
    and "consume (rc_op r) (nat n) = (left, op')" and "consume (rc_peer r) (nat n) = (right, peer')"
  shows "rec_ok (r\<lparr>rc_op := op', rc_peer := peer',
      rc_wav := writeSamples None (rc_wav r) (interleave left right), rc_written := rc_written r + n\<rparr>)
    fo fp (l @ left) (rt @ right)"
proof -
  have o: "padded fo ((l @ left) @ op')" "length left = nat n"
    using consume_padded [OF _ assms(4), of fo l] assms(1) by (auto simp: rec_ok_def)
  have p: "padded fp ((rt @ right) @ peer')" "length right = nat n"
    using consume_padded [OF _ assms(5), of fp rt] assms(1) by (auto simp: rec_ok_def)
  have "length l = length rt" using assms(1) by (simp add: rec_ok_def)
  then have i: "interleave (l @ left) (rt @ right) = interleave l rt @ interleave left right"
    by (rule interleave_append)
  have "word_of_nat (4 * length l) + word_of_nat (2 * (2 * nat n)) = (word_of_nat (4 * (length l + nat n)) :: u32)"
    by (simp add: algebra_simps)
  then show ?thesis using assms(1-3) o p i
    by (simp add: rec_ok_def writeSamples_all length_interleave)
qed

lemma flush_ok:
  assumes "rec_ok r fo fp l rt" and "flush None now final r = (r', hit)"
  shows "(\<exists>l' rt'. rec_ok r' fo fp l' rt') \<and> hit = rc_limit_hit r' \<and> rc_running r' = rc_running r
    \<and> (final \<and> \<not> rc_limit_hit r' \<longrightarrow> rc_op r' = [] \<and> rc_peer r' = [])"
proof -
  define target0 where "target0 = (if final then rc_written r + int (max (length (rc_op r)) (length (rc_peer r)))
                          else (now - rc_started r) div nsPerSample)"
  define over where "over = (0 < rc_max_frames r \<and> rc_max_frames r < target0)"
  define target where "target = (if over then rc_max_frames r else target0)"
  define r1 where "r1 = (if over then r\<lparr>rc_limit_hit := True\<rparr> else r)"
  define n where "n = target - rc_written r1"
  have same: "rc_written r1 = rc_written r" "rc_op r1 = rc_op r" "rc_peer r1 = rc_peer r"
    "rc_wav r1 = rc_wav r" "rc_running r1 = rc_running r" "rc_max_frames r1 = rc_max_frames r"
    by (simp_all add: r1_def)
  have ok: "rec_ok r1 fo fp l rt" using assms(1) by (auto simp: rec_ok_def r1_def)
  obtain left op' where c1: "consume (rc_op r1) (nat n) = (left, op')" by fastforce
  obtain right peer' where c2: "consume (rc_peer r1) (nat n) = (right, peer')" by fastforce
  define r2 where "r2 = r1\<lparr>rc_op := op', rc_peer := peer',
      rc_wav := writeSamples None (rc_wav r1) (interleave left right), rc_written := rc_written r1 + n\<rparr>"
  have f: "(r', hit) = (if n \<le> 0 then (r1, rc_limit_hit r1) else (r2, rc_limit_hit r2))"
    using assms(1) c1 c2 unfolding assms(2) [symmetric] flush_def Let_def target0_def [symmetric]
      over_def [symmetric] target_def [symmetric] r1_def [symmetric] n_def [symmetric]
    by (simp add: r2_def rec_ok_def)
  show ?thesis
  proof (cases "n \<le> 0")
    case True
    then have "r' = r1" "hit = rc_limit_hit r1" using f by auto
    moreover have "rc_op r1 = [] \<and> rc_peer r1 = []" if "final" "\<not> rc_limit_hit r1"
      using that True by (auto simp: n_def target_def target0_def same r1_def over_def split: if_splits)
    ultimately show ?thesis using ok same by blast
  next
    case False
    then have r': "r' = r2" "hit = rc_limit_hit r2" using f by auto
    have "rc_written r1 + n \<le> rc_max_frames r1"
      using assms(1) by (auto simp: n_def target_def over_def same rec_ok_def)
    from rec_ok_frames [OF ok _ this c1 c2] False
    have "rec_ok r2 fo fp (l @ left) (rt @ right)" by (simp add: r2_def)
    moreover have "op' = [] \<and> peer' = []" if "final" "\<not> rc_limit_hit r2"
    proof -
      have "\<not> over" using that by (auto simp: r2_def r1_def)
      then have "nat n = max (length (rc_op r1)) (length (rc_peer r1))"
        using that(1) by (simp add: n_def target_def target0_def same)
      then show ?thesis using c1 c2 by (auto simp: consume_def)
    qed
    ultimately show ?thesis unfolding r' by (auto simp: r2_def same)
  qed
qed

datatype rec_op = RecOperator pcm | RecPeer pcm | RecTick int

fun rec_step :: "recorder \<Rightarrow> rec_op \<Rightarrow> recorder" where
  "rec_step r (RecOperator p) = WriteOperator r p"
| "rec_step r (RecPeer p) = WritePeer r p"
| "rec_step r (RecTick now) = rec_tick None now r"

text \<open>The samples the two buffers took in during a run.\<close>

fun fed_operator :: "recorder \<Rightarrow> rec_op list \<Rightarrow> pcm" where
  "fed_operator r [] = []"
| "fed_operator r (RecOperator p # ops) =
     (if length (rc_op r) < maxPendingSamples then p else []) @ fed_operator (WriteOperator r p) ops"
| "fed_operator r (op # ops) = fed_operator (rec_step r op) ops"

fun fed_peer :: "recorder \<Rightarrow> rec_op list \<Rightarrow> pcm" where
  "fed_peer r [] = []"
| "fed_peer r (RecPeer p # ops) =
     (if length (rc_peer r) < maxPendingSamples then p else []) @ fed_peer (WritePeer r p) ops"
| "fed_peer r (op # ops) = fed_peer (rec_step r op) ops"

lemma append_leg_fed:
  "padded f (l @ buf) \<Longrightarrow> padded (f @ (if length buf < maxPendingSamples then p else [])) (l @ append_leg False buf p)"
  using padded_append [of f "l @ buf" p p] by (simp add: append_leg_def)

lemma rec_tick_ok:
  assumes "rec_ok r fo fp l rt"
  shows "\<exists>l' rt'. rec_ok (rec_tick None now r) fo fp l' rt'"
proof (cases "rc_running r")
  case False
  then show ?thesis using assms by (auto simp: rec_tick_def)
next
  case True
  obtain r1 hit where f: "flush None now False r = (r1, hit)" by fastforce
  obtain r2 hit2 where f2: "flush None now True r1 = (r2, hit2)" by fastforce
  from flush_ok [OF assms f] obtain l1 rt1 where ok1: "rec_ok r1 fo fp l1 rt1" and hit: "hit = rc_limit_hit r1" by blast
  from flush_ok [OF ok1 f2] obtain l2 rt2 where ok2: "rec_ok r2 fo fp l2 rt2" by blast
  have "rc_limit_hit r2" if "rc_limit_hit r1"
    using f2 that by (auto simp: flush_def Let_def split: if_splits prod.splits)
  then have "rec_ok (r2\<lparr>rc_running := False\<rparr>) fo fp l2 rt2" if "hit"
    using ok2 that hit by (simp add: rec_ok_def)
  then show ?thesis using True f f2 ok1 by (cases hit) (auto simp: rec_tick_def)
qed

lemma rec_run_ok:
  "rec_ok r fo fp l rt \<Longrightarrow>
   \<exists>l' rt'. rec_ok (run_steps rec_step r ops) (fo @ fed_operator r ops) (fp @ fed_peer r ops) l' rt'"
proof (induction ops arbitrary: r fo fp l rt)
  case Nil
  then show ?case by auto
next
  case (Cons op ops)
  show ?case
  proof (cases op)
    case (RecOperator p)
    have "rec_ok (WriteOperator r p) (fo @ (if length (rc_op r) < maxPendingSamples then p else [])) fp l rt"
      using Cons.prems append_leg_fed [of fo l "rc_op r" p] by (auto simp: rec_ok_def WriteOperator_def)
    from Cons.IH [OF this] show ?thesis using RecOperator by simp
  next
    case (RecPeer p)
    have "rec_ok (WritePeer r p) fo (fp @ (if length (rc_peer r) < maxPendingSamples then p else [])) l rt"
      using Cons.prems append_leg_fed [of fp rt "rc_peer r" p] by (auto simp: rec_ok_def WritePeer_def)
    from Cons.IH [OF this] show ?thesis using RecPeer by simp
  next
    case (RecTick now)
    from rec_tick_ok [OF Cons.prems, of now] obtain l' rt' where "rec_ok (rec_tick None now r) fo fp l' rt'" by blast
    from Cons.IH [OF this] show ?thesis using RecTick by simp
  qed
qed

lemma rec_close_wav:
  assumes "rec_ok r fo fp l rt" and "rc_max_frames r \<le> 38400000"
  shows "wav_samples (wv_file (wav_close (rc_wav r))) = Some (2, 16000, interleave l rt)"
proof -
  have len: "length l = length rt" and "int (length l) \<le> 38400000"
    using assms by (auto simp: rec_ok_def)
  then have "36 + 2 * length (interleave l rt) < 2 ^ 32" by (simp add: length_interleave)
  from wav_samples_header [OF this, of 2 16000]
  show ?thesis using assms(1) len
    by (simp add: rec_ok_def wav_header_patch length_interleave del: word_of_nat_eq_iff)
qed

lemma flush_max_frames [simp]: "rc_max_frames (fst (flush taken now final r)) = rc_max_frames r"
  by (simp add: flush_def consume_def Let_def)

lemma rec_tick_max_frames: "rc_max_frames (rec_tick taken now r) = rc_max_frames r"
proof (cases "rc_running r")
  case True
  obtain r1 hit where f: "flush taken now False r = (r1, hit)" by fastforce
  then have "rc_max_frames r1 = rc_max_frames r" using flush_max_frames [of taken now False r] by simp
  then show ?thesis using True f by (simp add: rec_tick_def)
qed (simp add: rec_tick_def)

lemma rec_run_max_frames: "rc_max_frames (run_steps rec_step r ops) = rc_max_frames r"
proof (induction ops arbitrary: r)
  case (Cons op ops)
  then show ?case
    by (cases op) (simp_all add: WriteOperator_def WritePeer_def rec_tick_max_frames)
qed simp

text \<open>C36: A closed recording is a valid stereo 16 kHz WAV file, whatever the two sides sent and whenever
  the ticks came: its left channel is what the operator's buffer took in, its right channel what
  the peer's took in, each in order and with nothing but silence in between, both of the same
  length, which is the reported duration and never above the cap; unless the cap was hit, no
  sample is left out.\<close>

theorem recording_is_stereo_wav:
  assumes "0 < maxDuration" and "maxDuration \<le> 40 * 60 * 1000000000" and "nsPerSample \<le> maxDuration"
    and "r = run_steps rec_step (newRecorder start maxDuration) ops"
    and "rec_close None now r = (r', duration)"
  shows "\<exists>left right restO restP.
    wav_samples (wv_file (rc_wav r')) = Some (2, 16000, interleave left right)
    \<and> length left = length right \<and> duration = int (length left) * nsPerSample \<and> duration \<le> maxDuration
    \<and> padded (fed_operator (newRecorder start maxDuration) ops) (left @ restO)
    \<and> padded (fed_peer (newRecorder start maxDuration) ops) (right @ restP)
    \<and> (rc_limit_hit r' \<or> restO = [] \<and> restP = [])"
proof -
  let ?r0 = "newRecorder start maxDuration"
  let ?fo = "fed_operator ?r0 ops" let ?fp = "fed_peer ?r0 ops"
  have max: "0 < maxDuration div nsPerSample" "maxDuration div nsPerSample \<le> 38400000"
    "maxDuration div nsPerSample * nsPerSample \<le> maxDuration"
    using assms(1-3) by (simp_all add: nsPerSample_def sampleRate_def)
  have "rec_ok ?r0 [] [] [] []"
    using max(1) assms(1) by (simp add: rec_ok_def newRecorder_def newWavWriter_def interleave_def)
  from rec_run_ok [OF this, of ops] obtain l rt where ok: "rec_ok r ?fo ?fp l rt"
    unfolding assms(4) by auto
  have mf: "rc_max_frames r = maxDuration div nsPerSample"
    using assms(1,4) by (simp add: rec_run_max_frames newRecorder_def)
  obtain r1 where ok1: "\<exists>l' rt'. rec_ok r1 ?fo ?fp l' rt'" and mf1: "rc_max_frames r1 = rc_max_frames r"
    and empty: "\<not> rc_limit_hit r1 \<longrightarrow> rc_op r1 = [] \<and> rc_peer r1 = []"
    and r': "r' = r1\<lparr>rc_running := False, rc_closed := True, rc_wav := wav_close (rc_wav r1)\<rparr>"
    and d: "duration = rc_written r1 * nsPerSample"
  proof (cases "rc_running r")
    case True
    obtain r1 hit where f: "flush None now True r = (r1, hit)" by fastforce
    have "rc_max_frames r1 = rc_max_frames r"
      using f flush_max_frames [of None now True r] by simp
    moreover have "r' = r1\<lparr>rc_running := False, rc_closed := True, rc_wav := wav_close (rc_wav r1)\<rparr>
        \<and> duration = rc_written r1 * nsPerSample"
      using assms(5) ok True f by (auto simp: rec_close_def rec_ok_def durationLocked_def Let_def)
    ultimately show ?thesis using that [of r1] flush_ok [OF ok f] by blast
  next
    case False
    then have "r' = r\<lparr>rc_running := False, rc_closed := True, rc_wav := wav_close (rc_wav r)\<rparr>
        \<and> duration = rc_written r * nsPerSample" "rc_limit_hit r"
      using assms(5) ok by (auto simp: rec_close_def rec_ok_def durationLocked_def Let_def)
    then show ?thesis using that [of r] ok by blast
  qed
  from ok1 obtain l1 rt1 where ok1: "rec_ok r1 ?fo ?fp l1 rt1" by blast
  have "wav_samples (wv_file (rc_wav r')) = Some (2, 16000, interleave l1 rt1)"
    using rec_close_wav [OF ok1] mf mf1 max r' by simp
  moreover have "rc_written r1 * nsPerSample \<le> maxDuration div nsPerSample * nsPerSample"
    using ok1 mf mf1 by (intro mult_right_mono) (simp_all add: rec_ok_def nsPerSample_def sampleRate_def)
  moreover have "rc_written r1 = int (length l1)" "length l1 = length rt1" "padded ?fo (l1 @ rc_op r1)"
    "padded ?fp (rt1 @ rc_peer r1)" using ok1 by (simp_all add: rec_ok_def)
  moreover have "rc_limit_hit r' = rc_limit_hit r1" by (simp add: r')
  ultimately have "wav_samples (wv_file (rc_wav r')) = Some (2, 16000, interleave l1 rt1)
      \<and> length l1 = length rt1 \<and> duration = int (length l1) * nsPerSample \<and> duration \<le> maxDuration
      \<and> padded ?fo (l1 @ rc_op r1) \<and> padded ?fp (rt1 @ rc_peer r1)
      \<and> (rc_limit_hit r' \<or> rc_op r1 = [] \<and> rc_peer r1 = [])"
    using max(3) empty d by (metis order_trans)
  then show ?thesis by blast
qed

theorem recording_is_stereo_wav_witness:
  "\<exists>left right. wav_samples (wv_file (rc_wav (fst (rec_close None 70000000
      (run_steps rec_step (newRecorder 0 2400000000000) [RecOperator [1, 0], RecTick 20000000, RecPeer [1/2]])))))
    = Some (2, 16000, interleave left right)"
proof -
  have "0 < (2400000000000 :: int)" "(2400000000000 :: int) \<le> 40 * 60 * 1000000000"
    "nsPerSample \<le> 2400000000000" by (simp_all add: nsPerSample_def sampleRate_def)
  from recording_is_stereo_wav [OF this refl surjective_pairing,
      of 70000000 0 "[RecOperator [1, 0], RecTick 20000000, RecPeer [1/2]]"]
  show ?thesis by (elim exE conjE) (intro exI, assumption)
qed

section \<open>Conversion between transports\<close>

text \<open>Going through bytes and back costs every sample one step towards silence, no more.\<close>

lemma pcm_step_towards_zero:
  fixes v :: int
  assumes "-32768 < v" and "v < 32768"
  shows "f2i (of_int v / 32768) = word_of_int (if 0 < v then v - 1 else if v < 0 then v + 1 else 0)"
proof -
  have "of_int v / 32768 < (1 :: rat)" "(-1 :: rat) < of_int v / 32768"
    using assms by (simp_all add: field_simps)
  moreover have "\<lfloor>of_int v / 32768 * 32767 :: rat\<rfloor> = v - 1" if "0 < v"
    using that assms by (intro floor_unique) (simp_all add: field_simps)
  moreover have "\<lceil>of_int v / 32768 * 32767 :: rat\<rceil> = v + 1" if "v < 0"
    using that assms by (intro ceiling_unique) (simp_all add: field_simps)
  ultimately show ?thesis by (auto simp: f2i_def zero_le_divide_iff)
qed

end
