(* ===== verification/RecordingCtl.thy ===== *)
theory RecordingCtl
  imports Recorder "HOL-Library.Multiset"
begin

text \<open>
  The life of a recording outside the call: src/cmd/server/recording_ctl.go,
  recording_handoff.go, recording_notify.go, recordingstore.go and the configuration handler of
  httpapi_recording.go.

  The tables call_recordings and recording_config are association lists; whether a write
  succeeds, what B2 and the webhook answer, and the clock are arguments.  \<open>ct_files\<close> is the
  recordings directory.  Log lines are not modelled.
\<close>

section \<open>The store (recordingstore.go)\<close>

datatype rec_status = RecRecording | RecUploading | RecReady | RecFailed | RecSkipped

definition minRecordingMs :: int where "minRecordingMs = 5000"

record recording_row =
  rr_call :: string
  rr_session :: string
  rr_clinic :: string
  rr_status :: rec_status
  rr_path :: string
  rr_b2key :: string
  rr_b2url :: string
  rr_duration :: int
  rr_channels :: string
  rr_direction :: string
  rr_peer :: string
  rr_started :: int
  rr_ended :: int
  rr_err :: string
  rr_uploads :: nat
  rr_notifies :: nat
  rr_notified :: int
  rr_last_attempt :: int
  rr_created :: int

type_synonym rec_store = "(string, recording_row) gomap"

text \<open>\<open>UPDATE \<dots> WHERE call_id = ?\<close>: no row, no change; a failed statement changes nothing.\<close>

definition row_update :: "bool \<Rightarrow> string \<Rightarrow> (recording_row \<Rightarrow> recording_row) \<Rightarrow> rec_store \<Rightarrow> rec_store" where
  "row_update ok c f st =
     (if ok then case gm_get st c of None \<Rightarrow> st | Some r \<Rightarrow> gm_put c (f r) st else st)"

definition empty_row :: "string \<Rightarrow> recording_row" where
  "empty_row c = \<lparr>rr_call = c, rr_session = [], rr_clinic = [], rr_status = RecRecording, rr_path = [],
     rr_b2key = [], rr_b2url = [], rr_duration = 0, rr_channels = [], rr_direction = [], rr_peer = [],
     rr_started = 0, rr_ended = 0, rr_err = [], rr_uploads = 0, rr_notifies = 0, rr_notified = 0,
     rr_last_attempt = 0, rr_created = 0\<rparr>"

text \<open>begin inserts the row, or on conflict overwrites the columns it lists and keeps the others.\<close>

definition store_begin :: "bool \<Rightarrow> int \<Rightarrow> recording_row \<Rightarrow> rec_store \<Rightarrow> rec_store" where
  "store_begin ok now r st =
     (if \<not> ok then st
      else let old = (case gm_get st (rr_call r) of None \<Rightarrow> (empty_row (rr_call r))\<lparr>rr_created := now\<rparr> | Some o' \<Rightarrow> o')
           in gm_put (rr_call r) (old\<lparr>rr_session := rr_session r, rr_clinic := rr_clinic r,
                rr_status := RecRecording, rr_path := rr_path r, rr_channels := rr_channels r,
                rr_direction := rr_direction r, rr_peer := rr_peer r, rr_started := rr_started r\<rparr>) st)"

definition finishRecording :: "bool \<Rightarrow> string \<Rightarrow> int \<Rightarrow> int \<Rightarrow> rec_status \<Rightarrow> rec_store \<Rightarrow> rec_store" where
  "finishRecording ok c durationMs endedAt nxt =
     row_update ok c (\<lambda>r. r\<lparr>rr_status := nxt, rr_duration := durationMs, rr_ended := endedAt\<rparr>)"

definition setStatus :: "bool \<Rightarrow> string \<Rightarrow> rec_status \<Rightarrow> string \<Rightarrow> rec_store \<Rightarrow> rec_store" where
  "setStatus ok c st msg = row_update ok c (\<lambda>r. r\<lparr>rr_status := st, rr_err := msg\<rparr>)"

definition markUploaded :: "bool \<Rightarrow> string \<Rightarrow> string \<Rightarrow> string \<Rightarrow> rec_store \<Rightarrow> rec_store" where
  "markUploaded ok c key url =
     row_update ok c (\<lambda>r. r\<lparr>rr_status := RecReady, rr_b2key := key, rr_b2url := url, rr_err := []\<rparr>)"

definition insertSkipped :: "bool \<Rightarrow> int \<Rightarrow> recording_row \<Rightarrow> string \<Rightarrow> rec_store \<Rightarrow> rec_store" where
  "insertSkipped ok now r reason st =
     (if ok \<and> gm_get st (rr_call r) = None
      then gm_put (rr_call r) ((empty_row (rr_call r))\<lparr>rr_session := rr_session r, rr_clinic := rr_clinic r,
             rr_status := RecSkipped, rr_channels := rr_channels r, rr_direction := rr_direction r,
             rr_peer := rr_peer r, rr_ended := rr_ended r, rr_err := reason, rr_created := now\<rparr>) st
      else st)"

definition markSkipped :: "bool \<Rightarrow> string \<Rightarrow> int \<Rightarrow> int \<Rightarrow> string \<Rightarrow> rec_store \<Rightarrow> rec_store" where
  "markSkipped ok c durationMs endedAt reason =
     row_update ok c (\<lambda>r. r\<lparr>rr_status := RecSkipped, rr_duration := durationMs, rr_ended := endedAt,
       rr_err := reason\<rparr>)"

definition incUploadAttempts :: "bool \<Rightarrow> int \<Rightarrow> string \<Rightarrow> rec_store \<Rightarrow> rec_store" where
  "incUploadAttempts ok now c = row_update ok c (\<lambda>r. r\<lparr>rr_uploads := rr_uploads r + 1, rr_last_attempt := now\<rparr>)"

definition incNotifyAttempts :: "bool \<Rightarrow> int \<Rightarrow> string \<Rightarrow> rec_store \<Rightarrow> rec_store" where
  "incNotifyAttempts ok now c = row_update ok c (\<lambda>r. r\<lparr>rr_notifies := rr_notifies r + 1, rr_last_attempt := now\<rparr>)"

definition markNotified :: "bool \<Rightarrow> int \<Rightarrow> string \<Rightarrow> rec_store \<Rightarrow> rec_store" where
  "markNotified ok now c = row_update ok c (\<lambda>r. r\<lparr>rr_notified := now\<rparr>)"

definition needs_handoff :: "recording_row \<Rightarrow> bool" where
  "needs_handoff r = (rr_status r = RecUploading \<or> rr_status r = RecFailed \<or> rr_status r = RecReady \<and> rr_notified r = 0)"

definition pendingHandoff :: "rec_store \<Rightarrow> recording_row list" where
  "pendingHandoff st = sort_key rr_created (filter needs_handoff (map snd st))"

definition staleRecordings :: "rec_store \<Rightarrow> recording_row list" where
  "staleRecordings st = filter (\<lambda>r. rr_status r = RecRecording) (map snd st)"

definition listBySession :: "rec_store \<Rightarrow> string \<Rightarrow> int \<Rightarrow> recording_row list" where
  "listBySession st sid limit =
     (let limit' = (if limit \<le> 0 \<or> 200 < limit then 50 else limit)
      in take (nat limit') (sort_key (\<lambda>r. - rr_created r) (filter (\<lambda>r. rr_session r = sid) (map snd st))))"

text \<open>One count per status that occurs.\<close>

definition sessionRecordingStats :: "rec_store \<Rightarrow> string \<Rightarrow> (rec_status \<times> nat) list" where
  "sessionRecordingStats st sid =
     (let sts = map rr_status (filter (\<lambda>r. rr_session r = sid) (map snd st))
      in map (\<lambda>s. (s, length (filter (\<lambda>t. t = s) sts))) (remdups sts))"

section \<open>Where recordings of a session go (RecordingConfig)\<close>

record rec_config =
  rg_session :: string
  rg_endpoint :: string
  rg_region :: string
  rg_bucket :: string
  rg_key_id :: string
  rg_app_key :: string
  rg_prefix :: string
  rg_webhook :: string
  rg_secret :: string
  rg_ttl :: int
  rg_inbound :: bool

definition config_complete :: "rec_config \<Rightarrow> bool" where
  "config_complete c \<longleftrightarrow> rg_endpoint c \<noteq> [] \<and> rg_bucket c \<noteq> [] \<and> rg_key_id c \<noteq> [] \<and> rg_app_key c \<noteq> []
     \<and> rg_webhook c \<noteq> [] \<and> rg_secret c \<noteq> []"

definition config_isEmpty :: "rec_config \<Rightarrow> bool" where
  "config_isEmpty c \<longleftrightarrow> rg_endpoint c = [] \<and> rg_region c = [] \<and> rg_bucket c = [] \<and> rg_key_id c = []
     \<and> rg_app_key c = [] \<and> rg_prefix c = [] \<and> rg_webhook c = [] \<and> rg_secret c = [] \<and> rg_ttl c = 0"

text \<open>The body of the PATCH: only the fields it holds are touched (setStr trims them).\<close>

record rec_config_body =
  rb_endpoint :: "string option"
  rb_region :: "string option"
  rb_bucket :: "string option"
  rb_key_id :: "string option"
  rb_app_key :: "string option"
  rb_prefix :: "string option"
  rb_webhook :: "string option"
  rb_secret :: "string option"
  rb_ttl :: "int option"
  rb_inbound :: "bool option"

definition setStr :: "string \<Rightarrow> string option \<Rightarrow> string" where
  "setStr dst src = (case src of None \<Rightarrow> dst | Some s \<Rightarrow> trim_space s)"

fun insert_sorted :: "string \<Rightarrow> string list \<Rightarrow> string list" where
  "insert_sorted x [] = [x]"
| "insert_sorted x (y # ys) = (if x < y then x # y # ys else y # insert_sorted x ys)"

text \<open>sortStringsSlice moves each element down past the larger ones before it.\<close>

definition sortStringsSlice :: "string list \<Rightarrow> string list" where
  "sortStringsSlice xs = fold insert_sorted xs []"

definition missing_names :: "rec_config \<Rightarrow> (string \<times> bool) list" where
  "missing_names c =
     [(''b2Endpoint'', rg_endpoint c \<noteq> []), (''b2Bucket'', rg_bucket c \<noteq> []), (''b2KeyId'', rg_key_id c \<noteq> []),
      (''b2AppKey'', rg_app_key c \<noteq> []), (''webhookUrl'', rg_webhook c \<noteq> []), (''webhookSecret'', rg_secret c \<noteq> [])]"

text \<open>\<open>order\<close> is the order in which range visits the map.\<close>

definition missingRecordingFields :: "((string \<times> bool) list \<Rightarrow> (string \<times> bool) list) \<Rightarrow> rec_config \<Rightarrow> string list" where
  "missingRecordingFields order c =
     sortStringsSlice (map fst (filter (\<lambda>(name, set). \<not> set) (order (missing_names c))))"

datatype config_reply = ConfigIncomplete "string list" | ConfigSaved rec_config | ConfigError

definition merge_config :: "rec_config \<Rightarrow> string \<Rightarrow> rec_config_body \<Rightarrow> rec_config" where
  "merge_config cur sid b =
     \<lparr>rg_session = sid, rg_endpoint = setStr (rg_endpoint cur) (rb_endpoint b),
      rg_region = setStr (rg_region cur) (rb_region b), rg_bucket = setStr (rg_bucket cur) (rb_bucket b),
      rg_key_id = setStr (rg_key_id cur) (rb_key_id b), rg_app_key = setStr (rg_app_key cur) (rb_app_key b),
      rg_prefix = setStr (rg_prefix cur) (rb_prefix b), rg_webhook = setStr (rg_webhook cur) (rb_webhook b),
      rg_secret = setStr (rg_secret cur) (rb_secret b),
      rg_ttl = (case rb_ttl b of None \<Rightarrow> rg_ttl cur | Some t \<Rightarrow> t),
      rg_inbound = (case rb_inbound b of None \<Rightarrow> rg_inbound cur | Some i \<Rightarrow> i)\<rparr>"

definition no_config :: "string \<Rightarrow> rec_config" where
  "no_config sid = \<lparr>rg_session = sid, rg_endpoint = [], rg_region = [], rg_bucket = [], rg_key_id = [],
     rg_app_key = [], rg_prefix = [], rg_webhook = [], rg_secret = [], rg_ttl = 0, rg_inbound = False\<rparr>"

text \<open>\<open>m\<close> holds the stored configurations with their secrets readable; \<open>ok\<close> is the write.\<close>

definition config_of :: "(string, rec_config) gomap \<Rightarrow> string \<Rightarrow> rec_config" where
  "config_of m sid = (case gm_get m sid of None \<Rightarrow> no_config sid | Some c \<Rightarrow> c)"

definition handleSetRecordingConfig ::
    "((string \<times> bool) list \<Rightarrow> (string \<times> bool) list) \<Rightarrow> bool \<Rightarrow> (string, rec_config) gomap \<Rightarrow> string
     \<Rightarrow> rec_config_body \<Rightarrow> (string, rec_config) gomap \<times> config_reply" where
  "handleSetRecordingConfig order ok m sid body =
     (let cur = merge_config (config_of m sid) sid body
      in if \<not> config_complete cur \<and> \<not> config_isEmpty cur
         then (m, ConfigIncomplete (missingRecordingFields order cur))
         else if \<not> ok then (m, ConfigError)
         else (gm_put sid cur m, ConfigSaved cur))"

section \<open>The controller (recording_ctl.go)\<close>

record rec_meta =
  mt_call :: string
  mt_session :: string
  mt_clinic :: string
  mt_direction :: string
  mt_peer :: string

text \<open>\<open>lv_serial\<close> tells entries of the same call apart, as their addresses do.\<close>

record live_recording =
  lv_serial :: nat
  lv_meta :: rec_meta
  lv_rec :: bool
  lv_path :: string
  lv_started :: bool

record rec_ctl =
  ct_live :: "(string, live_recording) gomap"
  ct_serial :: nat
  ct_claimed :: "string list"     \<comment> \<open>enqueue calls between their claim and their send\<close>
  ct_jobs :: "string list"
  ct_busy :: "string list"        \<comment> \<open>what the workers hold\<close>
  ct_inflight :: "string list"
  ct_paused :: bool
  ct_store :: rec_store
  ct_configs :: "(string, rec_config) gomap"
  ct_recs :: "(string, recorder) gomap"   \<comment> \<open>the recorders, by path\<close>
  ct_files :: "(string, bytes) gomap"
  ct_posts :: "(string \<times> string) list"   \<comment> \<open>webhook posts: URL and call\<close>

definition rec_arm :: "rec_ctl \<Rightarrow> rec_meta \<Rightarrow> rec_ctl" where
  "rec_arm c meta =
     (if gm_has (ct_live c) (mt_call meta) then c
      else c\<lparr>ct_live := gm_put (mt_call meta) \<lparr>lv_serial = ct_serial c, lv_meta = meta, lv_rec = False,
               lv_path = [], lv_started = False\<rparr> (ct_live c), ct_serial := ct_serial c + 1\<rparr>)"

definition rec_armed :: "rec_ctl \<Rightarrow> string \<Rightarrow> bool" where
  "rec_armed c i = gm_has (ct_live c) i"

definition liveCount :: "rec_ctl \<Rightarrow> nat" where
  "liveCount c = length (ct_live c)"

text \<open>Year and month of a Unix time in milliseconds, in UTC.\<close>

definition year_month :: "int \<Rightarrow> int \<times> int" where
  "year_month ms =
     (let z = ms div 86400000 + 719468; era = z div 146097; doe = z mod 146097;
          yoe = (doe - doe div 1460 + doe div 36524 - doe div 146096) div 365;
          doy = doe - (365 * yoe + yoe div 4 - yoe div 100); mp = (5 * doy + 2) div 153;
          m = (if mp < 10 then mp + 3 else mp - 9)
      in (yoe + era * 400 + (if m \<le> 2 then 1 else 0), m))"

definition dec_pad :: "nat \<Rightarrow> int \<Rightarrow> string" where
  "dec_pad w i = replicate (w - length (int_text i)) (CHR ''0'') @ int_text i"

definition pathFor :: "string \<Rightarrow> int \<Rightarrow> rec_meta \<Rightarrow> string" where
  "pathFor dir nowMs meta =
     join ''/'' [dir, mt_session meta, dec_pad 4 (fst (year_month nowMs)) @ ''-'' @ dec_pad 2 (snd (year_month nowMs)),
       mt_call meta @ ''.wav'']"

text \<open>\<open>sends\<close>: enqueue claims the id under the lock and then tries to send it to the workers.\<close>

definition job_cap :: nat where "job_cap = 512"

definition enqueue_claim :: "rec_ctl \<Rightarrow> string \<Rightarrow> rec_ctl" where
  "enqueue_claim c i =
     (if i \<in> set (ct_inflight c) then c
      else c\<lparr>ct_inflight := i # ct_inflight c, ct_claimed := i # ct_claimed c\<rparr>)"

definition enqueue_send :: "rec_ctl \<Rightarrow> string \<Rightarrow> rec_ctl" where
  "enqueue_send c i =
     (if i \<notin> set (ct_claimed c) then c
      else if length (ct_jobs c) < job_cap
      then c\<lparr>ct_claimed := removeAll i (ct_claimed c), ct_jobs := ct_jobs c @ [i]\<rparr>
      else c\<lparr>ct_claimed := removeAll i (ct_claimed c), ct_inflight := removeAll i (ct_inflight c)\<rparr>)"

definition enqueue :: "rec_ctl \<Rightarrow> string \<Rightarrow> rec_ctl" where
  "enqueue c i = enqueue_send (enqueue_claim c i) i"

text \<open>\<open>db\<close> is whether the write succeeds, \<open>disk\<close> what the disk takes of the last samples, \<open>closed\<close>
  whether closing the file succeeds.\<close>

definition finalizeRecording ::
    "bool \<Rightarrow> nat option \<Rightarrow> bool \<Rightarrow> int \<Rightarrow> int \<Rightarrow> rec_ctl \<Rightarrow> string \<Rightarrow> string \<Rightarrow> rec_ctl" where
  "finalizeRecording db disk closes now nowMs c i path =
     (case gm_get (ct_recs c) path of
        None \<Rightarrow> c
      | Some r \<Rightarrow>
          (let (r', dur) = rec_close disk now r;
               ms = dur div 1000000;
               c1 = c\<lparr>ct_recs := gm_put path r' (ct_recs c), ct_files := gm_put path (wv_file (rc_wav r')) (ct_files c)\<rparr>
           in if \<not> closes then c1\<lparr>ct_store := setStatus db i RecFailed ''finalize'' (ct_store c1)\<rparr>
              else if ms < minRecordingMs
              then c1\<lparr>ct_store := markSkipped db i ms nowMs ''recording shorter than 5s'' (ct_store c1),
                      ct_files := gm_del path (ct_files c1)\<rparr>
              else enqueue (c1\<lparr>ct_store := finishRecording db i ms nowMs RecUploading (ct_store c1)\<rparr>) i))"

text \<open>
  onAnswered works in two sections of the lock with disk and database in between; the first
  returns the entry it works on.  \<open>creates\<close>: whether the file can be created.
\<close>

definition onAnswered_begin :: "string \<Rightarrow> int \<Rightarrow> rec_ctl \<Rightarrow> string \<Rightarrow> rec_ctl \<times> live_recording option" where
  "onAnswered_begin dir nowMs c i =
     (case gm_get (ct_live c) i of
        None \<Rightarrow> (c, None)
      | Some lr \<Rightarrow>
          (if lv_started lr then (c, None)
           else let lr' = lr\<lparr>lv_started := True, lv_path := pathFor dir nowMs (lv_meta lr)\<rparr>
                in (c\<lparr>ct_live := gm_put i lr' (ct_live c)\<rparr>, Some lr')))"

definition row_of_meta :: "rec_meta \<Rightarrow> string \<Rightarrow> int \<Rightarrow> int \<Rightarrow> recording_row" where
  "row_of_meta meta path started ended =
     (empty_row (mt_call meta))\<lparr>rr_session := mt_session meta, rr_clinic := mt_clinic meta, rr_path := path,
       rr_channels := ''stereo'', rr_direction := mt_direction meta, rr_peer := mt_peer meta,
       rr_started := started, rr_ended := ended\<rparr>"

definition maxRecordingDuration :: int where "maxRecordingDuration = 40 * 60 * 1000000000"

definition onAnswered_finish ::
    "bool \<Rightarrow> bool \<Rightarrow> int \<Rightarrow> int \<Rightarrow> rec_ctl \<Rightarrow> string \<Rightarrow> live_recording \<Rightarrow> rec_ctl \<times> bool" where
  "onAnswered_finish creates db now nowMs c i lr =
     (if \<not> creates then (c\<lparr>ct_live := gm_del i (ct_live c)\<rparr>, False)
      else let r = newRecorder now maxRecordingDuration;
               c1 = c\<lparr>ct_recs := gm_put (lv_path lr) r (ct_recs c),
                      ct_files := gm_put (lv_path lr) (wv_file (rc_wav r)) (ct_files c),
                      ct_store := store_begin db nowMs (row_of_meta (lv_meta lr) (lv_path lr) nowMs 0) (ct_store c)\<rparr>
           in case gm_get (ct_live c1) i of
                Some cur \<Rightarrow>
                  (if lv_serial cur = lv_serial lr
                   then (c1\<lparr>ct_live := gm_put i (cur\<lparr>lv_rec := True\<rparr>) (ct_live c1)\<rparr>, True)
                   else (finalizeRecording db None True now nowMs c1 i (lv_path lr), False))
              | None \<Rightarrow> (finalizeRecording db None True now nowMs c1 i (lv_path lr), False))"

definition skipNotAnswered :: "bool \<Rightarrow> int \<Rightarrow> rec_ctl \<Rightarrow> rec_meta \<Rightarrow> rec_ctl" where
  "skipNotAnswered db nowMs c meta =
     c\<lparr>ct_store := insertSkipped db nowMs (row_of_meta meta [] 0 nowMs) ''not answered'' (ct_store c)\<rparr>"

definition onCallEnded ::
    "bool \<Rightarrow> nat option \<Rightarrow> bool \<Rightarrow> int \<Rightarrow> int \<Rightarrow> rec_ctl \<Rightarrow> string \<Rightarrow> rec_ctl" where
  "onCallEnded db disk closes now nowMs c i =
     (case gm_get (ct_live c) i of
        None \<Rightarrow> c
      | Some lr \<Rightarrow>
          (let c1 = c\<lparr>ct_live := gm_del i (ct_live c)\<rparr>
           in if \<not> lv_started lr then skipNotAnswered db nowMs c1 (lv_meta lr)
              else if \<not> lv_rec lr then c1
              else finalizeRecording db disk closes now nowMs c1 i (lv_path lr)))"

definition rec_pause :: "rec_ctl \<Rightarrow> rec_ctl \<times> bool" where
  "rec_pause c = (c\<lparr>ct_paused := True\<rparr>, ct_busy c = [])"

text \<open>The two sections with nothing in between; the result is the recorder the call writes to.\<close>

definition onAnswered ::
    "string \<Rightarrow> bool \<Rightarrow> bool \<Rightarrow> int \<Rightarrow> int \<Rightarrow> rec_ctl \<Rightarrow> string \<Rightarrow> rec_ctl \<times> string option" where
  "onAnswered dir creates db now nowMs c i =
     (case onAnswered_begin dir nowMs c i of
        (c1, None) \<Rightarrow> (c1, case gm_get (ct_live c1) i of
            Some lr \<Rightarrow> (if lv_rec lr then Some (lv_path lr) else None) | None \<Rightarrow> None)
      | (c1, Some lr) \<Rightarrow> (case onAnswered_finish creates db now nowMs c1 i lr of
            (c2, started) \<Rightarrow> (c2, if started then Some (lv_path lr) else None)))"

text \<open>A leg's samples, written to the recorder through the pointer the call holds.\<close>

definition rec_feed :: "bool \<Rightarrow> rec_ctl \<Rightarrow> string \<Rightarrow> pcm \<Rightarrow> rec_ctl" where
  "rec_feed operator c path p =
     (case gm_get (ct_recs c) path of
        None \<Rightarrow> c
      | Some r \<Rightarrow> c\<lparr>ct_recs := gm_put path (if operator then WriteOperator r p else WritePeer r p) (ct_recs c)\<rparr>)"

definition rec_ticks :: "nat option \<Rightarrow> int \<Rightarrow> rec_ctl \<Rightarrow> string \<Rightarrow> rec_ctl" where
  "rec_ticks disk now c path =
     (case gm_get (ct_recs c) path of
        None \<Rightarrow> c | Some r \<Rightarrow> c\<lparr>ct_recs := gm_put path (rec_tick disk now r) (ct_recs c)\<rparr>)"

lemma rec_samples_simps [simp]:
  "ct_store (rec_feed op c path p) = ct_store c" "ct_files (rec_feed op c path p) = ct_files c"
  "ct_store (rec_ticks disk now c path) = ct_store c" "ct_files (rec_ticks disk now c path) = ct_files c"
  by (simp_all add: rec_feed_def rec_ticks_def split: option.split)

section \<open>Handing a recording over (recording_handoff.go)\<close>

text \<open>What the outside answers while one recording is handled: B2, the disk, the database, the webhook.\<close>

datatype post_outcome = PostBadRequest | PostTransport | PostStatus nat

record handoff_env =
  ho_config :: bool            \<comment> \<open>the configuration can be read\<close>
  ho_stat :: bool
  ho_client :: bool            \<comment> \<open>NewB2Client succeeds\<close>
  ho_put :: bool
  ho_head :: "int option"      \<comment> \<open>size of the object according to B2\<close>
  ho_url :: string
  ho_db :: "nat \<Rightarrow> bool"       \<comment> \<open>whether the n-th write succeeds\<close>
  ho_now :: int
  ho_post :: post_outcome

fun trim_left_slash :: "string \<Rightarrow> string" where
  "trim_left_slash [] = []"
| "trim_left_slash (x # xs) = (if x = CHR ''/'' then trim_left_slash xs else x # xs)"

definition trimSlash :: "string \<Rightarrow> string" where
  "trimSlash s = trim_left_slash (rev (trim_left_slash (rev s)))"

definition b2KeyFor :: "int \<Rightarrow> string \<Rightarrow> recording_row \<Rightarrow> string" where
  "b2KeyFor nowMs pfx row =
     (let clinic = (if rr_clinic row = [] then ''unknown'' else rr_clinic row);
          (y, m) = year_month (if rr_started row = 0 then nowMs else rr_started row);
          key = join ''/'' [''recordings'', clinic, dec_pad 4 y, dec_pad 2 m, rr_call row @ ''.wav'']
      in if pfx \<noteq> [] then trimSlash pfx @ ''/'' @ key else key)"

text \<open>The row as the code keeps it in memory, \<open>None\<close> for the error return.\<close>

definition uploadAndVerify ::
    "handoff_env \<Rightarrow> rec_ctl \<Rightarrow> recording_row \<Rightarrow> rec_config \<Rightarrow> rec_ctl \<times> recording_row option" where
  "uploadAndVerify e c0 row cfg =
     (let i = rr_call row;
          c = c0\<lparr>ct_store := incUploadAttempts (ho_db e 0) (ho_now e) i (ct_store c0)\<rparr>;
          failed = (\<lambda>msg. (c\<lparr>ct_store := setStatus (ho_db e 1) i RecFailed msg (ct_store c)\<rparr>, None))
      in case gm_get (ct_files c) (rr_path row) of
           None \<Rightarrow> failed ''local file unreadable''
         | Some content \<Rightarrow>
             (if \<not> ho_stat e then failed ''local stat''
              else if \<not> ho_client e then failed ''b2 client''
              else if \<not> ho_put e then failed ''b2 put''
              else case ho_head e of
                None \<Rightarrow> failed ''b2 verify''
              | Some remote \<Rightarrow>
                  (if remote \<noteq> int (length content) then failed ''b2 verify: size mismatch''
                   else let key = b2KeyFor (ho_now e) (rg_prefix cfg) row;
                            url = (if 0 < rg_ttl cfg then ho_url e else [])
                        in if \<not> ho_db e 2 then (c, None)
                           else (c\<lparr>ct_store := markUploaded True i key url (ct_store c),
                                   ct_files := gm_del (rr_path row) (ct_files c)\<rparr>,
                                 Some (row\<lparr>rr_status := RecReady, rr_b2key := key, rr_b2url := url\<rparr>)))))"

section \<open>Notifying (recording_notify.go)\<close>

definition notify :: "handoff_env \<Rightarrow> rec_ctl \<Rightarrow> recording_row \<Rightarrow> rec_config \<Rightarrow> rec_ctl" where
  "notify e c0 row cfg =
     (if rg_webhook cfg = [] \<or> rg_secret cfg = [] then c0
      else let i = rr_call row;
               c = c0\<lparr>ct_store := incNotifyAttempts (ho_db e 3) (ho_now e) i (ct_store c0)\<rparr>
           in case ho_post e of
                PostBadRequest \<Rightarrow> c
              | PostTransport \<Rightarrow> c\<lparr>ct_posts := ct_posts c @ [(rg_webhook cfg, i)]\<rparr>
              | PostStatus code \<Rightarrow>
                  (let c1 = c\<lparr>ct_posts := ct_posts c @ [(rg_webhook cfg, i)]\<rparr>
                   in if code div 100 \<noteq> 2 then c1
                      else c1\<lparr>ct_store := markNotified (ho_db e 4) (ho_now e) i (ct_store c1)\<rparr>))"

definition processRecording :: "handoff_env \<Rightarrow> rec_ctl \<Rightarrow> string \<Rightarrow> rec_ctl" where
  "processRecording e c i =
     (case gm_get (ct_store c) i of
        None \<Rightarrow> c
      | Some row \<Rightarrow>
          (if rr_status row = RecSkipped \<or> rr_status row = RecReady \<and> rr_notified row \<noteq> 0 then c
           else if \<not> ho_config e then c
           else let cfg = config_of (ct_configs c) (rr_session row)
                in if \<not> config_complete cfg then c
                   else case (if rr_status row = RecUploading \<or> rr_status row = RecFailed
                              then uploadAndVerify e c row cfg else (c, Some row)) of
                     (c1, None) \<Rightarrow> c1
                   | (c1, Some row1) \<Rightarrow>
                       (if rr_status row1 = RecReady \<and> rr_notified row1 = 0 then notify e c1 row1 cfg else c1)))"

text \<open>A worker takes an id; processing it and forgetting the claim are one step each.\<close>

definition worker_take :: "rec_ctl \<Rightarrow> rec_ctl" where
  "worker_take c = (case ct_jobs c of [] \<Rightarrow> c
     | i # rest \<Rightarrow> c\<lparr>ct_jobs := rest, ct_busy := i # ct_busy c\<rparr>)"

definition worker_process :: "handoff_env \<Rightarrow> rec_ctl \<Rightarrow> string \<Rightarrow> rec_ctl" where
  "worker_process e c i =
     (if i \<in> set (ct_busy c) \<and> \<not> ct_paused c then processRecording e c i else c)"

definition worker_done :: "rec_ctl \<Rightarrow> string \<Rightarrow> rec_ctl" where
  "worker_done c i =
     (if i \<in> set (ct_busy c)
      then c\<lparr>ct_busy := removeAll i (ct_busy c), ct_inflight := removeAll i (ct_inflight c)\<rparr> else c)"

definition maxHandoffAttempts :: nat where "maxHandoffAttempts = 24"

definition retryBackoff :: "int list" where "retryBackoff = [60, 300, 900, 3600]"

text \<open>In seconds.\<close>

definition backoffFor :: "int \<Rightarrow> int" where
  "backoffFor attempt =
     (let a = (if attempt < 1 then 1 else attempt)
      in if a \<le> int (length retryBackoff) then retryBackoff ! nat (a - 1)
         else retryBackoff ! (length retryBackoff - 1))"

text \<open>\<open>broken\<close>: the sessions whose configuration cannot be read; their rows are tried all the same.\<close>

definition sweep_picks ::
    "(string \<Rightarrow> bool) \<Rightarrow> (string, rec_config) gomap \<Rightarrow> int \<Rightarrow> recording_row \<Rightarrow> bool" where
  "sweep_picks broken configs nowMs r =
     (let attempts = max (rr_uploads r) (rr_notifies r)
      in attempts < maxHandoffAttempts
         \<and> (rr_last_attempt r = 0 \<or> backoffFor (int attempts) * 1000 \<le> nowMs - rr_last_attempt r)
         \<and> (broken (rr_session r) \<or> config_complete (config_of configs (rr_session r))))"

definition retrySweep :: "(string \<Rightarrow> bool) \<Rightarrow> int \<Rightarrow> rec_ctl \<Rightarrow> rec_ctl" where
  "retrySweep broken nowMs c =
     (if ct_paused c then c
      else foldl enqueue c (map rr_call (filter (sweep_picks broken (ct_configs c) nowMs) (pendingHandoff (ct_store c)))))"

definition salvage :: "(nat \<Rightarrow> bool) \<Rightarrow> int \<Rightarrow> rec_ctl \<Rightarrow> recording_row \<Rightarrow> rec_ctl" where
  "salvage db nowMs c r =
     (case gm_get (ct_files c) (rr_path r) of
        None \<Rightarrow> c\<lparr>ct_store := setStatus (db 0) (rr_call r) RecFailed ''restart mid-capture, no usable file'' (ct_store c)\<rparr>
      | Some content \<Rightarrow>
          (let size = int (length content); est = ApproxDurationMs size
           in if size \<le> WavHeaderBytes
              then c\<lparr>ct_store := setStatus (db 0) (rr_call r) RecFailed ''restart mid-capture, no usable file'' (ct_store c)\<rparr>
              else if est < minRecordingMs
              then c\<lparr>ct_store := markSkipped (db 1) (rr_call r) est nowMs ''restart mid-capture, <5s of audio'' (ct_store c),
                     ct_files := gm_del (rr_path r) (ct_files c)\<rparr>
              else c\<lparr>ct_store := finishRecording (db 2) (rr_call r) est nowMs RecUploading (ct_store c)\<rparr>))"

definition resumeOnBoot :: "(nat \<Rightarrow> bool) \<Rightarrow> int \<Rightarrow> rec_ctl \<Rightarrow> rec_ctl" where
  "resumeOnBoot db nowMs c =
     (if ct_paused c then c
      else let c1 = foldl (salvage db nowMs) c (staleRecordings (ct_store c))
           in foldl enqueue c1 (map rr_call (pendingHandoff (ct_store c1))))"

definition rec_resume :: "(nat \<Rightarrow> bool) \<Rightarrow> int \<Rightarrow> rec_ctl \<Rightarrow> rec_ctl" where
  "rec_resume db nowMs c = resumeOnBoot db nowMs (c\<lparr>ct_paused := False\<rparr>)"

text \<open>A restart loses everything but tables and files; the disk holds a prefix of a file still being written.\<close>

definition rec_restart :: "(string \<Rightarrow> nat) \<Rightarrow> rec_ctl \<Rightarrow> rec_ctl" where
  "rec_restart disk c =
     c\<lparr>ct_live := [], ct_claimed := [], ct_jobs := [], ct_busy := [], ct_inflight := [], ct_paused := False,
       ct_recs := [],
       ct_files := map (\<lambda>(p, b). (p, case gm_get (ct_recs c) p of
          Some r \<Rightarrow> (if rc_closed r then b else take (disk p) (wv_file (rc_wav r))) | None \<Rightarrow> b)) (ct_files c)\<rparr>"

section \<open>Everything that happens to recordings\<close>

datatype rec_event =
    EvArm rec_meta
  | EvAnsweredBegin string int string
  | EvAnsweredFinish bool bool int int string live_recording
  | EvEnded bool "nat option" bool int int string
  | EvClaim string
  | EvSend string
  | EvTake
  | EvProcess handoff_env string
  | EvDone string
  | EvSweep "string \<Rightarrow> bool" int
  | EvPause
  | EvResume "nat \<Rightarrow> bool" int
  | EvRestart "string \<Rightarrow> nat"
  | EvFeed bool string pcm
  | EvTick "nat option" int string

fun rec_event_step :: "rec_ctl \<Rightarrow> rec_event \<Rightarrow> rec_ctl" where
  "rec_event_step c (EvArm meta) = rec_arm c meta"
| "rec_event_step c (EvAnsweredBegin dir nowMs i) = fst (onAnswered_begin dir nowMs c i)"
| "rec_event_step c (EvAnsweredFinish creates db now nowMs i lr) = fst (onAnswered_finish creates db now nowMs c i lr)"
| "rec_event_step c (EvEnded db disk closes now nowMs i) = onCallEnded db disk closes now nowMs c i"
| "rec_event_step c (EvClaim i) = enqueue_claim c i"
| "rec_event_step c (EvSend i) = enqueue_send c i"
| "rec_event_step c EvTake = worker_take c"
| "rec_event_step c (EvProcess e i) = worker_process e c i"
| "rec_event_step c (EvDone i) = worker_done c i"
| "rec_event_step c (EvSweep broken nowMs) = retrySweep broken nowMs c"
| "rec_event_step c EvPause = fst (rec_pause c)"
| "rec_event_step c (EvResume db nowMs) = rec_resume db nowMs c"
| "rec_event_step c (EvRestart disk) = rec_restart disk c"
| "rec_event_step c (EvFeed operator path p) = rec_feed operator c path p"
| "rec_event_step c (EvTick disk now path) = rec_ticks disk now c path"

section \<open>No recording is handed over twice at the same time\<close>

definition queue_ok :: "rec_ctl \<Rightarrow> bool" where
  "queue_ok c \<longleftrightarrow> distinct (ct_claimed c @ ct_jobs c @ ct_busy c)
     \<and> set (ct_inflight c) = set (ct_claimed c @ ct_jobs c @ ct_busy c) \<and> length (ct_jobs c) \<le> job_cap"

definition same_queue :: "rec_ctl \<Rightarrow> rec_ctl \<Rightarrow> bool" where
  "same_queue c c' \<longleftrightarrow> ct_claimed c' = ct_claimed c \<and> ct_jobs c' = ct_jobs c \<and> ct_busy c' = ct_busy c
     \<and> ct_inflight c' = ct_inflight c"

lemma queue_ok_same: "same_queue c c' \<Longrightarrow> queue_ok c \<Longrightarrow> queue_ok c'"
  by (simp add: same_queue_def queue_ok_def)

lemma queue_ok_fields [simp]:
  "queue_ok (c\<lparr>ct_store := x1\<rparr>) = queue_ok c" "queue_ok (c\<lparr>ct_files := x2\<rparr>) = queue_ok c"
  "queue_ok (c\<lparr>ct_recs := x3\<rparr>) = queue_ok c" "queue_ok (c\<lparr>ct_live := x4\<rparr>) = queue_ok c"
  "queue_ok (c\<lparr>ct_paused := x5\<rparr>) = queue_ok c" "queue_ok (c\<lparr>ct_serial := x6\<rparr>) = queue_ok c"
  by (simp_all add: queue_ok_def)

lemma claim_ok: "queue_ok c \<Longrightarrow> queue_ok (enqueue_claim c i)"
  by (auto simp: queue_ok_def enqueue_claim_def)

lemma distinct_removeAll_set: "set (removeAll i xs) = set xs - {i}"
  by (induction xs) auto

lemma send_ok: "queue_ok c \<Longrightarrow> queue_ok (enqueue_send c i)"
  by (auto simp: queue_ok_def enqueue_send_def distinct_removeAll)

lemma enqueue_ok: "queue_ok c \<Longrightarrow> queue_ok (enqueue c i)"
  by (simp add: enqueue_def claim_ok send_ok)

lemma enqueues_ok: "queue_ok c \<Longrightarrow> queue_ok (foldl enqueue c is)"
  by (induction "is" arbitrary: c) (simp_all add: enqueue_ok)

lemma finalize_queue: "queue_ok c \<Longrightarrow> queue_ok (finalizeRecording db disk closes now nowMs c i path)"
  by (simp add: finalizeRecording_def Let_def enqueue_ok split: option.split prod.split)

lemma salvage_queue: "same_queue c (salvage db nowMs c r)"
  by (simp add: salvage_def same_queue_def Let_def split: option.split)

lemma salvages_queue: "same_queue c (foldl (salvage db nowMs) c rs)"
proof (induction rs arbitrary: c)
  case (Cons r rs)
  then show ?case using salvage_queue [of c db nowMs r] by (simp add: same_queue_def)
qed (simp add: same_queue_def)

lemma upload_queue: "same_queue c (fst (uploadAndVerify e c row cfg))"
  by (simp add: uploadAndVerify_def same_queue_def Let_def split: option.split)

lemma notify_queue: "same_queue c (notify e c row cfg)"
  by (simp add: notify_def same_queue_def Let_def split: post_outcome.split)

text \<open>processRecording is nothing, a notification, or an upload with or without a notification.\<close>

lemma process_cases:
  shows "processRecording e c i = c
    \<or> (\<exists>row cfg. processRecording e c i = notify e c row cfg)
    \<or> (\<exists>row cfg. gm_get (ct_store c) i = Some row
        \<and> processRecording e c i = fst (uploadAndVerify e c row cfg))
    \<or> (\<exists>row cfg row1. gm_get (ct_store c) i = Some row
        \<and> processRecording e c i = notify e (fst (uploadAndVerify e c row cfg)) row1 cfg)"
proof (cases "gm_get (ct_store c) i")
  case None
  then show ?thesis by (simp add: processRecording_def)
next
  case (Some row)
  let ?cfg = "config_of (ct_configs c) (rr_session row)"
  obtain c1 r1 where u: "uploadAndVerify e c row ?cfg = (c1, r1)" by fastforce
  then have c1: "c1 = fst (uploadAndVerify e c row ?cfg)" by simp
  have "processRecording e c i = c \<or> processRecording e c i = notify e c row ?cfg
    \<or> processRecording e c i = c1 \<or> (\<exists>row1. processRecording e c i = notify e c1 row1 ?cfg)"
  proof (cases "rr_status row = RecUploading \<or> rr_status row = RecFailed")
    case True
    then have "processRecording e c i = c \<or> processRecording e c i = c1
        \<or> processRecording e c i = notify e c1 (the r1) ?cfg"
      using Some u by (cases r1) (simp_all add: processRecording_def Let_def)
    then show ?thesis by blast
  next
    case False
    then show ?thesis using Some by (simp add: processRecording_def Let_def)
  qed
  then show ?thesis unfolding c1 using Some by blast
qed

lemma process_queue: "same_queue c (processRecording e c i)"
  using process_cases [of e c i] upload_queue [of c e] notify_queue [of _ e]
  by (auto simp: same_queue_def)

lemma take_ok: "queue_ok c \<Longrightarrow> queue_ok (worker_take c)"
  by (auto simp: queue_ok_def worker_take_def split: list.split)

lemma done_ok: "queue_ok c \<Longrightarrow> queue_ok (worker_done c i)"
  by (auto simp: queue_ok_def worker_done_def distinct_removeAll)

lemma resume_ok: "queue_ok c \<Longrightarrow> queue_ok (resumeOnBoot db nowMs c)"
  using queue_ok_same [OF salvages_queue, of c db nowMs]
  by (simp add: resumeOnBoot_def Let_def enqueues_ok)

lemma rec_event_queue: "queue_ok c \<Longrightarrow> queue_ok (rec_event_step c ev)"
proof (cases ev)
  case (EvProcess e i)
  then show "queue_ok c \<Longrightarrow> ?thesis"
    using queue_ok_same [OF process_queue, of c e i] by (simp add: worker_process_def)
next
  case (EvAnsweredFinish creates db now nowMs i lr)
  then show "queue_ok c \<Longrightarrow> ?thesis"
    by (simp add: onAnswered_finish_def Let_def finalize_queue split: option.split)
next
  case (EvEnded db disk closes now nowMs i)
  then show "queue_ok c \<Longrightarrow> ?thesis"
    by (simp add: onCallEnded_def Let_def finalize_queue skipNotAnswered_def split: option.split)
qed (simp_all add: rec_arm_def onAnswered_begin_def claim_ok send_ok take_ok done_ok retrySweep_def
    enqueues_ok rec_pause_def rec_resume_def resume_ok rec_feed_def rec_ticks_def Let_def split: option.split,
    simp add: queue_ok_def rec_restart_def)

interpretation recordings: step_machine rec_event_step queue_ok
  by unfold_locales (rule rec_event_queue)

definition no_recordings :: rec_ctl where
  "no_recordings = \<lparr>ct_live = [], ct_serial = 0, ct_claimed = [], ct_jobs = [], ct_busy = [],
     ct_inflight = [], ct_paused = False, ct_store = [], ct_configs = [], ct_recs = [], ct_files = [],
     ct_posts = []\<rparr>"

text \<open>C35: However calls, sweeps, restarts and pauses interleave with the upload workers, a recording is
  never in two places of the pipeline at once: no id is queued twice, queued while a worker
  holds it, or held by two workers; the ids claimed are exactly those in the pipeline, so none is
  blocked for ever; and the queue holds at most 512.\<close>

theorem no_double_upload:
  assumes "c = run_steps rec_event_step no_recordings evs"
  shows "distinct (ct_claimed c @ ct_jobs c @ ct_busy c)
    \<and> set (ct_inflight c) = set (ct_claimed c) \<union> set (ct_jobs c) \<union> set (ct_busy c)
    \<and> length (ct_jobs c) \<le> 512"
proof -
  have "queue_ok no_recordings" by (simp add: queue_ok_def no_recordings_def)
  from recordings.run_inv [OF this, of evs] show ?thesis
    unfolding assms queue_ok_def job_cap_def by auto
qed

theorem no_double_upload_witness:
  "distinct (ct_jobs (run_steps rec_event_step no_recordings
     [EvClaim ''X'', EvSend ''X'', EvClaim ''X'', EvTake, EvClaim ''X'', EvSend ''X'']))"
  using no_double_upload [OF refl, of "[EvClaim ''X'', EvSend ''X'', EvClaim ''X'', EvTake, EvClaim ''X'', EvSend ''X'']"]
  by (simp only: distinct_append)

section \<open>No recording is lost\<close>

text \<open>What the events that can delete a file know when they do.\<close>

definition safely_in_b2 :: "handoff_env \<Rightarrow> rec_ctl \<Rightarrow> string \<Rightarrow> bytes \<Rightarrow> bool" where
  "safely_in_b2 e c' p content \<longleftrightarrow> ho_put e \<and> ho_head e = Some (int (length content)) \<and>
     (\<exists>row\<in>set (map snd (ct_store c')). rr_path row = p \<and> rr_status row = RecReady \<and> rr_b2key row \<noteq> [])"

definition too_short :: "int \<Rightarrow> bool" where
  "too_short ms \<longleftrightarrow> ms < 5000"

lemma enqueue_files [simp]: "ct_files (enqueue c i) = ct_files c" "ct_store (enqueue c i) = ct_store c"
  by (simp_all add: enqueue_def enqueue_send_def enqueue_claim_def)

lemma enqueues_files [simp]: "ct_files (foldl enqueue c is) = ct_files c"
  by (induction "is" arbitrary: c) simp_all

lemma join_nonempty: "xs \<noteq> [] \<Longrightarrow> last xs \<noteq> [] \<Longrightarrow> join sep xs \<noteq> []"
  by (induction sep xs rule: join.induct) auto

lemma b2KeyFor_nonempty: "b2KeyFor nowMs pfx row \<noteq> []"
  by (simp add: b2KeyFor_def Let_def join_nonempty split: prod.split)

definition rows_ok :: "rec_store \<Rightarrow> bool" where
  "rows_ok st \<longleftrightarrow> (\<forall>i r. gm_get st i = Some r \<longrightarrow> rr_call r = i)"

lemma rows_ok_update:
  "rows_ok st \<Longrightarrow> (\<And>r. rr_call (f r) = rr_call r) \<Longrightarrow> rows_ok (row_update ok c f st)"
  by (auto simp: rows_ok_def row_update_def gm_get_put split: option.split)

lemma rows_ok_ops [simp]:
  assumes "rows_ok st"
  shows "rows_ok (finishRecording ok c d en nx st)" "rows_ok (setStatus ok c s msg st)"
    "rows_ok (markUploaded ok c key url st)" "rows_ok (markSkipped ok c d en reason st)"
    "rows_ok (incUploadAttempts ok now c st)" "rows_ok (incNotifyAttempts ok now c st)"
    "rows_ok (markNotified ok now c st)"
  using assms unfolding finishRecording_def setStatus_def markUploaded_def markSkipped_def
    incUploadAttempts_def incNotifyAttempts_def markNotified_def
  by (simp_all add: rows_ok_update)

lemma rows_ok_insert [simp]:
  assumes "rows_ok st"
  shows "rows_ok (store_begin ok now r st)" "rows_ok (insertSkipped ok now r reason st)"
  using assms by (auto simp: rows_ok_def store_begin_def insertSkipped_def gm_get_put empty_row_def
      split: option.split)

lemma finalize_rows: "rows_ok (ct_store c) \<Longrightarrow> rows_ok (ct_store (finalizeRecording db disk closes now nowMs c i path))"
  by (simp add: finalizeRecording_def Let_def split: option.split prod.split)

lemma salvage_rows: "rows_ok (ct_store c) \<Longrightarrow> rows_ok (ct_store (salvage db nowMs c r))"
  by (simp add: salvage_def Let_def split: option.split)

lemma salvages_rows: "rows_ok (ct_store c) \<Longrightarrow> rows_ok (ct_store (foldl (salvage db nowMs) c rs))"
  by (induction rs arbitrary: c) (simp_all add: salvage_rows)

lemma upload_rows: "rows_ok (ct_store c) \<Longrightarrow> rows_ok (ct_store (fst (uploadAndVerify e c row cfg)))"
  by (simp add: uploadAndVerify_def Let_def split: option.split)

lemma notify_rows: "rows_ok (ct_store c) \<Longrightarrow> rows_ok (ct_store (notify e c row cfg))"
  by (simp add: notify_def Let_def split: post_outcome.split)

lemma process_rows: "rows_ok (ct_store c) \<Longrightarrow> rows_ok (ct_store (processRecording e c i))"
  using process_cases [of e c i] by (auto simp: upload_rows notify_rows)

lemma rec_event_rows: "rows_ok (ct_store c) \<Longrightarrow> rows_ok (ct_store (rec_event_step c ev))"
proof (cases ev)
  case (EvAnsweredFinish creates db now nowMs i lr)
  then show "rows_ok (ct_store c) \<Longrightarrow> ?thesis"
    by (simp add: onAnswered_finish_def Let_def finalize_rows split: option.split)
next
  case (EvEnded db disk closes now nowMs i)
  then show "rows_ok (ct_store c) \<Longrightarrow> ?thesis"
    by (simp add: onCallEnded_def Let_def finalize_rows skipNotAnswered_def split: option.split)
next
  case (EvSweep broken nowMs)
  moreover have "ct_store (foldl enqueue c is) = ct_store c" for "is"
    by (induction "is" arbitrary: c) simp_all
  ultimately show "rows_ok (ct_store c) \<Longrightarrow> ?thesis" by (simp add: retrySweep_def)
next
  case (EvResume db nowMs)
  moreover have "ct_store (foldl enqueue c is) = ct_store c" for "is" and c :: rec_ctl
    by (induction "is" arbitrary: c) simp_all
  ultimately show "rows_ok (ct_store c) \<Longrightarrow> ?thesis"
    by (simp add: rec_resume_def resumeOnBoot_def Let_def salvages_rows)
qed (simp_all add: rec_arm_def onAnswered_begin_def enqueue_claim_def enqueue_send_def worker_take_def
    worker_process_def worker_done_def process_rows rec_pause_def rec_restart_def Let_def
    split: option.split list.split)

interpretation rows: step_machine rec_event_step "\<lambda>c. rows_ok (ct_store c)"
  by unfold_locales (rule rec_event_rows)

lemma uploaded_row:
  assumes "rows_ok st" and "gm_get st i = Some row" and "key \<noteq> []"
  shows "\<exists>r'. gm_get (markUploaded True (rr_call row) key url (incUploadAttempts ok now (rr_call row) st)) i = Some r'
    \<and> rr_path r' = rr_path row \<and> rr_status r' = RecReady \<and> rr_b2key r' = key"
  using assms by (auto simp: rows_ok_def markUploaded_def incUploadAttempts_def row_update_def gm_get_put
      split: option.split)

lemma notified_row:
  assumes "gm_get (ct_store c) i = Some r"
  shows "\<exists>r'. gm_get (ct_store (notify e c row cfg)) i = Some r' \<and> rr_path r' = rr_path r
    \<and> rr_status r' = rr_status r \<and> rr_b2key r' = rr_b2key r"
  using assms by (auto simp: notify_def Let_def incNotifyAttempts_def markNotified_def row_update_def gm_get_put
      split: option.split post_outcome.split)

lemma notify_files [simp]: "ct_files (notify e c row cfg) = ct_files c"
  by (simp add: notify_def Let_def split: post_outcome.split)

text \<open>When an upload deletes a file, B2 has confirmed its size and the row says where it is.\<close>

lemma upload_deletes:
  assumes "rows_ok (ct_store c)" and "gm_get (ct_store c) i = Some row"
    and "gm_get (ct_files c) p = Some content"
    and "gm_get (ct_files (fst (uploadAndVerify e c row cfg))) p = None"
  shows "ho_put e \<and> ho_head e = Some (int (length content)) \<and>
    (\<exists>r'. gm_get (ct_store (fst (uploadAndVerify e c row cfg))) i = Some r'
       \<and> rr_path r' = p \<and> rr_status r' = RecReady \<and> rr_b2key r' \<noteq> [])"
proof -
  let ?key = "b2KeyFor (ho_now e) (rg_prefix cfg) row"
  let ?url = "if 0 < rg_ttl cfg then ho_url e else []"
  have "\<exists>content'. gm_get (ct_files c) (rr_path row) = Some content' \<and> ho_put e
      \<and> ho_head e = Some (int (length content'))
      \<and> ct_files (fst (uploadAndVerify e c row cfg)) = gm_del (rr_path row) (ct_files c)
      \<and> ct_store (fst (uploadAndVerify e c row cfg)) = markUploaded True (rr_call row) ?key ?url
          (incUploadAttempts (ho_db e 0) (ho_now e) (rr_call row) (ct_store c))"
    using assms(3,4) by (auto simp: uploadAndVerify_def Let_def split: option.splits if_splits)
  then obtain content' where u: "gm_get (ct_files c) (rr_path row) = Some content'" "ho_put e"
      "ho_head e = Some (int (length content'))"
      "ct_files (fst (uploadAndVerify e c row cfg)) = gm_del (rr_path row) (ct_files c)"
      "ct_store (fst (uploadAndVerify e c row cfg)) = markUploaded True (rr_call row) ?key ?url
          (incUploadAttempts (ho_db e 0) (ho_now e) (rr_call row) (ct_store c))" by blast
  have p: "p = rr_path row" using assms(3,4) u(4) by (metis gm_get_del_other option.distinct(1))
  with u(1) assms(3) have "content' = content" by simp
  then show ?thesis
    using u(2,3) uploaded_row [where key = ?key and url = ?url and ok = "ho_db e 0" and now = "ho_now e",
        OF assms(1,2) b2KeyFor_nonempty] b2KeyFor_nonempty [of "ho_now e" "rg_prefix cfg" row]
    unfolding u(5) p by metis
qed

lemma process_deletes:
  assumes "rows_ok (ct_store c)" and "gm_get (ct_files c) p = Some content"
    and "gm_get (ct_files (processRecording e c i)) p = None"
  shows "safely_in_b2 e (processRecording e c i) p content"
proof -
  obtain row cfg where row: "gm_get (ct_store c) i = Some row"
    and c': "processRecording e c i = fst (uploadAndVerify e c row cfg)
      \<or> (\<exists>row1. processRecording e c i = notify e (fst (uploadAndVerify e c row cfg)) row1 cfg)"
    using process_cases [of e c i] assms(2,3) by auto
  let ?u = "fst (uploadAndVerify e c row cfg)"
  have "gm_get (ct_files ?u) p = None" using c' assms(3) by auto
  from upload_deletes [OF assms(1) row assms(2) this] obtain r' where
    b2: "ho_put e" "ho_head e = Some (int (length content))" and
    r': "gm_get (ct_store ?u) i = Some r'" "rr_path r' = p" "rr_status r' = RecReady" "rr_b2key r' \<noteq> []" by blast
  have "\<exists>r. gm_get (ct_store (processRecording e c i)) i = Some r \<and> rr_path r = p \<and> rr_status r = RecReady
      \<and> rr_b2key r \<noteq> []"
    using c' r' notified_row [OF r'(1)] by metis
  then obtain r where r: "gm_get (ct_store (processRecording e c i)) i = Some r" "rr_path r = p"
    "rr_status r = RecReady" "rr_b2key r \<noteq> []" by blast
  from gm_get_in [OF r(1)] have "r \<in> set (map snd (ct_store (processRecording e c i)))" by force
  then show ?thesis using b2 r(2-4) by (auto simp: safely_in_b2_def)
qed

lemma finalize_deletes:
  assumes "gm_get (ct_files c) p = Some content"
    and "gm_get (ct_files (finalizeRecording db disk closes now nowMs c i path)) p = None"
  shows "p = path \<and> (\<exists>r. gm_get (ct_recs c) p = Some r \<and> too_short (snd (rec_close disk now r) div 1000000))"
proof (cases "p = path")
  case True
  then show ?thesis using assms
    by (auto simp: finalizeRecording_def Let_def too_short_def minRecordingMs_def split: option.splits prod.splits if_splits)
next
  case False
  then show ?thesis using assms
    by (auto simp: finalizeRecording_def Let_def split: option.splits prod.splits if_splits)
qed

lemma salvage_deletes:
  assumes "gm_get (ct_files c) p = Some content"
  shows "gm_get (ct_files (salvage db nowMs c r)) p = Some content
    \<or> gm_get (ct_files (salvage db nowMs c r)) p = None \<and> too_short (ApproxDurationMs (int (length content)))"
  using assms by (cases "p = rr_path r") (auto simp: salvage_def Let_def too_short_def minRecordingMs_def split: option.split)

lemma salvages_delete:
  assumes "gm_get (ct_files c) p = Some content" and "gm_get (ct_files (foldl (salvage db nowMs) c rs)) p = None"
  shows "too_short (ApproxDurationMs (int (length content)))"
  using assms
proof (induction rs arbitrary: c)
  case (Cons r rs)
  then show ?case using salvage_deletes [OF Cons.prems(1), of db nowMs r] by auto
qed simp

lemma gm_get_map: "gm_get (map (\<lambda>(k, v). (k, f k v)) m) k = map_option (f k) (gm_get m k)"
  by (induction m) (auto simp: gm_get_def)


definition demo_meta :: rec_meta where
  "demo_meta = \<lparr>mt_call = ''X'', mt_session = ''s'', mt_clinic = ''c'', mt_direction = ''inbound'', mt_peer = ''55''\<rparr>"

definition demo_live :: live_recording where
  "demo_live = \<lparr>lv_serial = 0, lv_meta = demo_meta, lv_rec = False, lv_path = pathFor ''rec'' 0 demo_meta,
     lv_started = True\<rparr>"


section \<open>Configurations are whole or absent\<close>

lemma config_isEmpty_no_config [simp]: "config_isEmpty (no_config sid)"
  by (simp add: config_isEmpty_def no_config_def)

lemma insert_sorted_mset [simp]: "mset (insert_sorted x xs) = add_mset x (mset xs)"
  by (induction xs) auto

lemma insert_sorted_sorted: "sorted xs \<Longrightarrow> sorted (insert_sorted x xs)"
proof (induction xs)
  case (Cons y ys)
  have "set (insert_sorted x ys) = insert x (set ys)"
    by (metis insert_sorted_mset mset.simps(2) set_mset_mset list.simps(15))
  then show ?case using Cons by (auto simp: not_less)
qed simp

lemma sortStringsSlice_sorts: "sorted (sortStringsSlice xs) \<and> mset (sortStringsSlice xs) = mset xs"
proof -
  have "sorted ys \<Longrightarrow> sorted (fold insert_sorted xs ys) \<and> mset (fold insert_sorted xs ys) = mset xs + mset ys" for ys
    by (induction xs arbitrary: ys) (auto simp: insert_sorted_sorted)
  from this [of "[]"] show ?thesis by (simp add: sortStringsSlice_def)
qed

text \<open>A request for a session's configuration, with the map order and the database's answer.\<close>

type_synonym config_event =
  "((string \<times> bool) list \<Rightarrow> (string \<times> bool) list) \<times> bool \<times> string \<times> rec_config_body"

fun config_step :: "(string, rec_config) gomap \<Rightarrow> config_event \<Rightarrow> (string, rec_config) gomap" where
  "config_step m (order, ok, sid, body) = fst (handleSetRecordingConfig order ok m sid body)"

definition configs_typed :: "(string, rec_config) gomap \<Rightarrow> bool" where
  "configs_typed m \<longleftrightarrow> (\<forall>sid. \<forall>cfg. gm_get m sid = Some cfg \<longrightarrow> config_complete cfg \<or> config_isEmpty cfg)"

lemma config_step_typed: "configs_typed m \<Longrightarrow> configs_typed (config_step m e)"
  by (cases e) (auto simp: configs_typed_def handleSetRecordingConfig_def Let_def gm_get_put)

interpretation configs: step_machine config_step configs_typed
  by unfold_locales (rule config_step_typed)

text \<open>C37: A session can deliver its recordings completely or not at all: after any sequence of
  configuration requests, whatever fields they name and whether or not their writes succeed, a
  session has no configuration, an empty one, or one with all six fields a delivery needs. A
  request that would leave it in between changes nothing and is answered with the names of
  exactly the missing fields, each once and in ascending order, whatever order Go's map is
  visited in.\<close>

theorem config_whole_or_absent:
  assumes "m = run_steps config_step [] evs" and "mset (order (missing_names cur)) = mset (missing_names cur)"
    and "cur = merge_config (config_of m sid) sid body"
  shows "(config_complete (config_of m i) \<or> config_isEmpty (config_of m i))
    \<and> (if config_complete cur \<or> config_isEmpty cur
        then handleSetRecordingConfig order True m sid body = (gm_put sid cur m, ConfigSaved cur)
        else \<exists>missing. handleSetRecordingConfig order ok m sid body = (m, ConfigIncomplete missing)
          \<and> sorted missing \<and> distinct missing \<and> missing \<noteq> []
          \<and> (\<forall>name. name \<in> set missing \<longleftrightarrow> (name, False) \<in> set (missing_names cur)))"
proof -
  have "configs_typed m" unfolding assms(1) by (rule configs.run_inv) (simp add: configs_typed_def)
  then have whole: "config_complete (config_of m i) \<or> config_isEmpty (config_of m i)"
    by (auto simp: configs_typed_def config_of_def split: option.split)
  let ?ms = "map fst (filter (\<lambda>(name, set). \<not> set) (order (missing_names cur)))"
  have "mset ?ms = mset (map fst (filter (\<lambda>(name, set). \<not> set) (missing_names cur)))"
    using assms(2) by simp
  then have mset: "mset (missingRecordingFields order cur)
      = mset (map fst (filter (\<lambda>(name, set). \<not> set) (missing_names cur)))"
    by (simp add: missingRecordingFields_def sortStringsSlice_sorts)
  have "distinct (map fst (filter (\<lambda>(name, set). \<not> set) (missing_names cur)))"
    by (simp add: missing_names_def)
  then have "distinct (missingRecordingFields order cur)" using mset mset_eq_imp_distinct_iff by blast
  moreover have "name \<in> set (missingRecordingFields order cur) \<longleftrightarrow> (name, False) \<in> set (missing_names cur)" for name
    using mset_eq_setD [OF mset] by force
  moreover have "sorted (missingRecordingFields order cur)"
    by (simp add: missingRecordingFields_def sortStringsSlice_sorts)
  moreover have "\<not> config_complete cur \<Longrightarrow> \<exists>name. (name, False) \<in> set (missing_names cur)"
    by (simp add: config_complete_def missing_names_def ex_disj_distrib)
  ultimately have "\<not> config_complete cur \<Longrightarrow> sorted (missingRecordingFields order cur)
      \<and> distinct (missingRecordingFields order cur) \<and> missingRecordingFields order cur \<noteq> []
      \<and> (\<forall>name. name \<in> set (missingRecordingFields order cur) \<longleftrightarrow> (name, False) \<in> set (missing_names cur))"
    by force
  with whole show ?thesis by (simp add: handleSetRecordingConfig_def assms(3) Let_def)
qed

definition demo_config_body :: rec_config_body where
  "demo_config_body = \<lparr>rb_endpoint = Some ''e'', rb_region = None, rb_bucket = Some '' '', rb_key_id = None,
     rb_app_key = None, rb_prefix = None, rb_webhook = None, rb_secret = None, rb_ttl = None, rb_inbound = None\<rparr>"

theorem config_whole_or_absent_witness:
  "\<exists>missing. handleSetRecordingConfig rev True [] ''s'' demo_config_body = ([], ConfigIncomplete missing)
     \<and> sorted missing \<and> ''b2Bucket'' \<in> set missing"
proof -
  let ?cur = "(no_config ''s'')\<lparr>rg_endpoint := ''e''\<rparr>"
  have cur: "merge_config (config_of [] ''s'') ''s'' demo_config_body = ?cur"
    by (simp add: merge_config_def config_of_def gm_get_def no_config_def demo_config_body_def setStr_def
        trim_space_def blank_def)
  have incomplete: "(config_complete ?cur \<or> config_isEmpty ?cur) = False"
    by (simp add: config_complete_def config_isEmpty_def no_config_def)
  have missing: "(''b2Bucket'', False) \<in> set (missing_names ?cur)"
    by (simp add: missing_names_def no_config_def)
  from config_whole_or_absent [where evs = "[]" and order = rev and body = demo_config_body and sid = "''s''"
        and ok = True, OF refl _ refl]
  have "if config_complete ?cur \<or> config_isEmpty ?cur
        then handleSetRecordingConfig rev True [] ''s'' demo_config_body = (gm_put ''s'' ?cur [], ConfigSaved ?cur)
        else \<exists>missing. handleSetRecordingConfig rev True [] ''s'' demo_config_body = ([], ConfigIncomplete missing)
          \<and> sorted missing \<and> distinct missing \<and> missing \<noteq> []
          \<and> (\<forall>name. name \<in> set missing \<longleftrightarrow> (name, False) \<in> set (missing_names ?cur))"
    unfolding run_steps.simps cur mset_rev by (rule conjunct2) rule
  then show ?thesis unfolding incomplete if_False using missing by blast
qed

end
