(* ===== verification/Session.thy ===== *)
theory Session
  imports CallManager Registry Broker RecordingCtl
begin

text \<open>
  The sessions of the server and their calls: src/cmd/server/session.go, sessionmanager.go,
  callrouting.go, whatsapp.go and the registry's activeCall.

  A handler of the call manager runs with an empty output list; the callbacks of wireCall then
  run over its outputs in order.  The recorder, the broker and all sessions are parts of one
  \<open>server\<close>.  JIDs are kept in printed form; whatsmeow's stores (LID to phone number, contacts,
  ParseJID, ToNonAD) are fields of the environment.  A leg is a number and its kind; what is
  done to legs is appended to \<open>sv_legs\<close>.
\<close>

section \<open>State\<close>

datatype leg_kind = WebRTCLeg | WebSocketLeg | VoiceAgentLeg

type_synonym leg = "nat \<times> leg_kind"

datatype leg_act = LegClosed leg | LegDetached leg | LegAnswered leg | LegWrote leg pcm

record active_call =
  ac_cm :: call_mgr
  ac_leg :: "leg option"
  ac_rec :: "string option"   \<comment> \<open>the recorder, by the path of its file\<close>
  ac_tried :: bool
  ac_timer :: bool            \<comment> \<open>the timer of wireCall is armed\<close>
  ac_relayed :: bool          \<comment> \<open>relayLogged\<close>
  ac_errors :: int

record session =
  ss_id :: string
  ss_name :: string
  ss_webhook :: string
  ss_panel_inbound :: bool
  ss_reg :: "active_call call_registry"
  ss_auth :: auth_snapshot
  ss_jid :: "string option"   \<comment> \<open>client.Store.ID\<close>
  ss_online :: bool           \<comment> \<open>client.IsConnected()\<close>
  ss_connected_once :: bool

record session_row =
  sw_id :: string
  sw_name :: string
  sw_jid :: string
  sw_webhook :: string
  sw_panel_inbound :: bool

record server =
  sv_sessions :: "(string, session) gomap"
  sv_order :: "string list"
  sv_broker :: broker
  sv_rec :: rec_ctl
  sv_max_calls :: int
  sv_blocked :: bool
  sv_panel_inbound :: bool
  sv_rows :: "(string, session_row) gomap"
  sv_legs :: "leg_act list"

record contact =
  ct_full :: string
  ct_first :: string
  ct_push :: string
  ct_business :: string

record srv_env =
  se_voip :: "string \<Rightarrow> voip_env"                      \<comment> \<open>per session\<close>
  se_jid_server :: "string \<Rightarrow> string option"          \<comment> \<open>ParseJID(s).Server\<close>
  se_jid_user :: "string \<Rightarrow> string"
  se_non_ad :: "string \<Rightarrow> string"
  se_pn_for_lid :: "string \<Rightarrow> string option"
  se_contact :: "string \<Rightarrow> contact option"

text \<open>What one event meets outside: \<open>dw_disk\<close> to \<open>dw_creates\<close> are the recorder's disk and database.\<close>

record srv_draws =
  dw_cm :: draws
  dw_dir :: string
  dw_disk :: "nat option"
  dw_db :: bool
  dw_closes :: bool
  dw_creates :: bool
  dw_write :: bool       \<comment> \<open>WritePCM of the leg succeeds\<close>
  dw_sql :: bool         \<comment> \<open>the write to the sessions table succeeds\<close>

definition now_ms :: "srv_draws \<Rightarrow> int" where
  "now_ms w = dr_now (dw_cm w) div 1000000"

definition getWebhookURL :: "server \<Rightarrow> string \<Rightarrow> string" where
  "getWebhookURL s sid = (case gm_get (sv_sessions s) sid of Some x \<Rightarrow> ss_webhook x | None \<Rightarrow> [])"

definition upd_session :: "server \<Rightarrow> string \<Rightarrow> (session \<Rightarrow> session) \<Rightarrow> server" where
  "upd_session s sid f =
     (case gm_get (sv_sessions s) sid of
        None \<Rightarrow> s | Some x \<Rightarrow> s\<lparr>sv_sessions := gm_put sid (f x) (sv_sessions s)\<rparr>)"

definition call_of :: "server \<Rightarrow> string \<Rightarrow> string \<Rightarrow> active_call option" where
  "call_of s sid i =
     (case gm_get (sv_sessions s) sid of None \<Rightarrow> None | Some x \<Rightarrow> reg_get (ss_reg x) i)"

definition upd_reg ::
    "server \<Rightarrow> string \<Rightarrow> (active_call call_registry \<Rightarrow> active_call call_registry) \<Rightarrow> server" where
  "upd_reg s sid f = upd_session s sid (\<lambda>x. x\<lparr>ss_reg := f (ss_reg x)\<rparr>)"

text \<open>A change of the entry itself, through the pointer the registry holds.\<close>

definition upd_call :: "server \<Rightarrow> string \<Rightarrow> string \<Rightarrow> (active_call \<Rightarrow> active_call) \<Rightarrow> server" where
  "upd_call s sid i f =
     (case call_of s sid i of
        None \<Rightarrow> s | Some ac \<Rightarrow> upd_reg s sid (\<lambda>r. r\<lparr>rg_calls := gm_put i (f ac) (rg_calls r)\<rparr>))"

definition on_broker :: "server \<Rightarrow> ((string \<Rightarrow> string) \<Rightarrow> broker \<Rightarrow> broker) \<Rightarrow> server" where
  "on_broker s f = s\<lparr>sv_broker := f (getWebhookURL s) (sv_broker s)\<rparr>"

definition leg_acts :: "server \<Rightarrow> leg_act list \<Rightarrow> server" where
  "leg_acts s as = s\<lparr>sv_legs := sv_legs s @ as\<rparr>"

definition close_leg :: "leg option \<Rightarrow> leg_act list" where
  "close_leg l = (case l of None \<Rightarrow> [] | Some x \<Rightarrow> [LegClosed x])"

section \<open>Small functions\<close>

definition mapStatus :: "call_state \<Rightarrow> call_status" where
  "mapStatus st =
     (if st \<in> {CallStateActive, CallStateConnecting, CallStateOnHold} then StatusConnected
      else if st = CallStateEnded then StatusEnded
      else if st = CallStateInitiating then StatusStarting
      else StatusRinging)"

definition resolvePeerJID :: "srv_env \<Rightarrow> string \<Rightarrow> string" where
  "resolvePeerJID e peer =
     (case se_jid_server e peer of
        None \<Rightarrow> peer
      | Some server \<Rightarrow>
          (if server = ''lid'' then case se_pn_for_lid e peer of None \<Rightarrow> peer | Some pn \<Rightarrow> pn else peer))"

definition resolvePeerName :: "srv_env \<Rightarrow> string \<Rightarrow> string" where
  "resolvePeerName e peer =
     (case se_jid_server e peer of
        None \<Rightarrow> []
      | Some server \<Rightarrow>
          (let jid = (if server = ''lid'' then case se_pn_for_lid e peer of None \<Rightarrow> peer | Some pn \<Rightarrow> pn else peer)
           in case se_contact e jid of
                None \<Rightarrow> []
              | Some c \<Rightarrow> (if ct_full c \<noteq> [] then ct_full c else if ct_first c \<noteq> [] then ct_first c
                          else if ct_push c \<noteq> [] then ct_push c else ct_business c)))"

definition reason_text :: "end_reason \<Rightarrow> string" where
  "reason_text r =
     (case r of ReasonNone \<Rightarrow> [] | EndCallReasonUserEnded \<Rightarrow> ''user_ended'' | EndCallReasonDeclined \<Rightarrow> ''declined''
      | EndCallReasonTimeout \<Rightarrow> ''timeout'' | EndCallReasonBusy \<Rightarrow> ''busy''
      | EndCallReasonCancelled \<Rightarrow> ''cancelled'' | EndCallReasonFailed \<Rightarrow> ''failed''
      | EndCallReasonDoNotDisturb \<Rightarrow> ''do_not_disturb'' | EndCallReasonUnknown \<Rightarrow> ''unknown''
      | ReasonOther s \<Rightarrow> s)"

definition wrapCall :: "string \<Rightarrow> node option \<Rightarrow> node" where
  "wrapCall from inner =
     Node ''call'' [(''from'', AJid from)] (CNodes (case inner of None \<Rightarrow> [] | Some n \<Rightarrow> [n]))"

definition callIDFromNode :: "node \<Rightarrow> string" where
  "callIDFromNode n = (case ExtractNodeInfo n of None \<Rightarrow> [] | Some info \<Rightarrow> ni_call_id info)"

definition audioStats :: "active_call \<Rightarrow> call_audio_stats" where
  "audioStats ac =
     (let rx = rx_snapshot (cm_rx (ac_cm ac))
      in \<lparr>as_packets = rp_packets rx, as_gaps_speech = rp_speech_gaps rx,
          as_max_gap_ms = rp_max_gap rx div 1000000, as_undecodable = rp_undecodable rx,
          as_relock = rp_relocks rx, as_relay = rp_relay rx, as_bridge_errors = ac_errors ac\<rparr>)"

text \<open>The account a call is with, as getByPeer compares it.\<close>

definition peer_account :: "srv_env \<Rightarrow> string \<Rightarrow> active_call \<Rightarrow> string option" where
  "peer_account e sid ac =
     map_option (\<lambda>c. se_non_ad e (ev_must_jid (se_voip e sid) (ci_peer c))) (cm_call (ac_cm ac))"

section \<open>The end of a call\<close>

definition removeCall :: "server \<Rightarrow> string \<Rightarrow> string \<Rightarrow> server \<times> active_call option" where
  "removeCall s sid i =
     (case call_of s sid i of
        None \<Rightarrow> (s, None)
      | Some ac \<Rightarrow> (leg_acts (upd_reg s sid (\<lambda>r. fst (reg_remove r i))) (close_leg (ac_leg ac)), Some ac))"

definition finishCall :: "srv_draws \<Rightarrow> server \<Rightarrow> string \<Rightarrow> call_info \<Rightarrow> server" where
  "finishCall w s sid c =
     (let s1 = s\<lparr>sv_rec := onCallEnded (dw_db w) (dw_disk w) (dw_closes w) (dr_now (dw_cm w)) (now_ms w)
                  (sv_rec s) (ci_id c)\<rparr>;
          (s2, gone) = removeCall s1 sid (ci_id c)
      in on_broker s2 (\<lambda>hook b. endCall hook (now_ms w) b (ci_id c)
           (reason_text (sd_end_reason (ci_data c))) (map_option audioStats gone)))"

section \<open>The callbacks of wireCall\<close>

definition startRecordingIfArmed :: "srv_draws \<Rightarrow> server \<Rightarrow> string \<Rightarrow> string \<Rightarrow> server" where
  "startRecordingIfArmed w s sid i =
     (if \<not> rec_armed (sv_rec s) i then s
      else case call_of s sid i of
        None \<Rightarrow> s
      | Some ac \<Rightarrow>
          (let (rc, r) = onAnswered (dw_dir w) (dw_creates w) (dw_db w) (dr_now (dw_cm w)) (now_ms w) (sv_rec s) i;
               s1 = s\<lparr>sv_rec := rc\<rparr>
           in case r of None \<Rightarrow> s1 | Some path \<Rightarrow> upd_call s1 sid i (\<lambda>a. a\<lparr>ac_rec := Some path\<rparr>)))"

definition stopTimeout :: "server \<Rightarrow> string \<Rightarrow> string \<Rightarrow> server" where
  "stopTimeout s sid i = upd_call s sid i (\<lambda>a. a\<lparr>ac_timer := False\<rparr>)"

definition record_of :: "srv_env \<Rightarrow> srv_draws \<Rightarrow> string \<Rightarrow> string \<Rightarrow> call_info \<Rightarrow> call_status \<Rightarrow> call_record" where
  "record_of e w sid dir c st =
     \<lparr>cr_session = sid, cr_id = ci_id c, cr_owner = None, cr_direction = dir, cr_peer = resolvePeerJID e (ci_peer c),
      cr_peer_name = resolvePeerName e (ci_peer c), cr_started = now_ms w, cr_status = st, cr_ended = None,
      cr_reason = []\<rparr>"

definition onIncoming :: "srv_env \<Rightarrow> srv_draws \<Rightarrow> server \<Rightarrow> string \<Rightarrow> call_info \<Rightarrow> server" where
  "onIncoming e w s sid c =
     (let r = record_of e w sid ''inbound'' c StatusRinging
      in on_broker s (\<lambda>hook b. emitIncoming hook (now_ms w) (upsertCall hook b r) sid (ci_id c)
           (cr_peer r) (cr_peer_name r)))"

definition answer_agent :: "server \<Rightarrow> string \<Rightarrow> string \<Rightarrow> server" where
  "answer_agent s sid i =
     (case call_of s sid i of
        None \<Rightarrow> s
      | Some ac \<Rightarrow> (case ac_leg ac of
          Some (n, VoiceAgentLeg) \<Rightarrow> leg_acts s [LegAnswered (n, VoiceAgentLeg)] | _ \<Rightarrow> s))"

definition onStateChange :: "srv_env \<Rightarrow> srv_draws \<Rightarrow> server \<Rightarrow> string \<Rightarrow> call_info \<Rightarrow> server" where
  "onStateChange e w s sid c =
     (if IsEnded c then finishCall w s sid c
      else let s1 = (if ci_state c \<in> {CallStateActive, CallStateConnecting} then stopTimeout s sid (ci_id c) else s);
               s2 = (if ci_state c = CallStateActive
                     then answer_agent (startRecordingIfArmed w s1 sid (ci_id c)) sid (ci_id c) else s1);
               dir = (if ci_direction c = CallDirectionIncoming then ''inbound'' else ''outbound'')
           in on_broker s2 (\<lambda>hook b. stateUpdate hook b (record_of e w sid dir c (mapStatus (ci_state c)))))"

definition onPeerAudio :: "srv_draws \<Rightarrow> server \<Rightarrow> string \<Rightarrow> string \<Rightarrow> pcm \<Rightarrow> server" where
  "onPeerAudio w s sid i frame =
     (case call_of s sid i of
        None \<Rightarrow> s
      | Some ac \<Rightarrow>
          (let s1 = (if ac_tried ac then s
                     else startRecordingIfArmed w (upd_call s sid i (\<lambda>a. a\<lparr>ac_tried := True\<rparr>)) sid i);
               s2 = (case ac_leg ac of
                       None \<Rightarrow> s1
                     | Some l \<Rightarrow>
                         (let s' = leg_acts s1 [LegWrote l frame]
                          in if dw_write w then s' else upd_call s' sid i (\<lambda>a. a\<lparr>ac_errors := ac_errors a + 1\<rparr>)))
           in case call_of s2 sid i of
                None \<Rightarrow> s2
              | Some ac2 \<Rightarrow> (case ac_rec ac2 of
                  None \<Rightarrow> s2
                | Some path \<Rightarrow> s2\<lparr>sv_rec := rec_feed False (sv_rec s2) path frame\<rparr>)))"

definition onRelayUp :: "server \<Rightarrow> string \<Rightarrow> string \<Rightarrow> server" where
  "onRelayUp s sid i = upd_call s sid i (\<lambda>a. a\<lparr>ac_relayed := True, ac_timer := False\<rparr>)"

text \<open>What the call manager of call \<open>i\<close> calls back; what it sends goes to the network.\<close>

definition call_back :: "srv_env \<Rightarrow> srv_draws \<Rightarrow> string \<Rightarrow> string \<Rightarrow> server \<Rightarrow> cm_output \<Rightarrow> server" where
  "call_back e w sid i s out =
     (case out of
        OutSend n \<Rightarrow> s
      | OutQuery n \<Rightarrow> s
      | OutState c \<Rightarrow> onStateChange e w s sid c
      | OutIncoming c \<Rightarrow> onIncoming e w s sid c
      | OutEnded c \<Rightarrow> finishCall w s sid c
      | OutAudio frame \<Rightarrow> onPeerAudio w s sid i frame
      | OutRelayConnected \<Rightarrow> onRelayUp s sid i)"

text \<open>A handler of the call manager of a registered call, with its callbacks.\<close>

definition run_cm ::
    "srv_env \<Rightarrow> srv_draws \<Rightarrow> server \<Rightarrow> string \<Rightarrow> string \<Rightarrow> (call_mgr \<Rightarrow> call_mgr \<times> 'r) \<Rightarrow> server \<times> 'r option" where
  "run_cm e w s sid i h =
     (case call_of s sid i of
        None \<Rightarrow> (s, None)
      | Some ac \<Rightarrow>
          (let (m, r) = h ((ac_cm ac)\<lparr>cm_out := []\<rparr>)
           in (foldl (call_back e w sid i) (upd_call s sid i (\<lambda>a. a\<lparr>ac_cm := m\<rparr>)) (cm_out m), Some r)))"

section \<open>Legs\<close>

definition setBridge :: "server \<Rightarrow> string \<Rightarrow> string \<Rightarrow> leg \<Rightarrow> server" where
  "setBridge s sid i l =
     (case call_of s sid i of
        None \<Rightarrow> leg_acts s [LegClosed l]
      | Some ac \<Rightarrow>
          (let s1 = upd_reg s sid (\<lambda>r. fst (reg_setBridge ac_leg (\<lambda>x a. a\<lparr>ac_leg := x\<rparr>) r i (Some l)))
           in case ac_leg ac of None \<Rightarrow> s1 | Some old \<Rightarrow> leg_acts s1 [LegDetached old, LegClosed old]))"

section \<open>Placing and ending calls\<close>

text \<open>createCall: the timer is armed with the entry.\<close>

definition new_call :: active_call where
  "new_call = \<lparr>ac_cm = NewCallManager, ac_leg = None, ac_rec = None, ac_tried = False, ac_timer = True,
     ac_relayed = False, ac_errors = 0\<rparr>"

definition createCall :: "server \<Rightarrow> string \<Rightarrow> string \<Rightarrow> server" where
  "createCall s sid i = upd_reg s sid (\<lambda>r. reg_add r i new_call)"

text \<open>
  The result is the error, or the answer to the offer, which StartCall hands to HandleCallAck in
  a goroutine of its own.
\<close>

definition startOutgoing ::
    "srv_env \<Rightarrow> srv_draws \<Rightarrow> server \<Rightarrow> string \<Rightarrow> string \<Rightarrow> bool \<Rightarrow> server \<times> (call_error + node option)" where
  "startOutgoing e w s sid i isVideo =
     (case run_cm e w (createCall s sid i) sid i (\<lambda>m. StartCall (se_voip e sid) (dw_cm w) m i isVideo) of
        (s1, Some (Inr ack)) \<Rightarrow> (s1, Inr ack)
      | (s1, Some (Inl err)) \<Rightarrow> (fst (removeCall s1 sid i), Inl err)
      | (s1, None) \<Rightarrow> (s1, Inl (CallError [])))"

definition end_with :: "srv_env \<Rightarrow> srv_draws \<Rightarrow> server \<Rightarrow> string \<Rightarrow> string \<Rightarrow> end_reason \<Rightarrow> server" where
  "end_with e w s sid i reason =
     fst (run_cm e w s sid i (\<lambda>m. EndCall (se_voip e sid) (dw_cm w) m reason))"

definition terminateCall :: "srv_env \<Rightarrow> srv_draws \<Rightarrow> server \<Rightarrow> string \<Rightarrow> string \<Rightarrow> end_reason \<Rightarrow> server" where
  "terminateCall = end_with"

text \<open>The timer of wireCall fires.\<close>

definition ringing_timeout :: "srv_env \<Rightarrow> srv_draws \<Rightarrow> server \<Rightarrow> string \<Rightarrow> string \<Rightarrow> server" where
  "ringing_timeout e w s sid i =
     (if call_of s sid i = None then s
      else if isCallConnected (sv_broker s) i then fst (removeCall s sid i)
      else fst (removeCall (end_with e w s sid i EndCallReasonTimeout) sid i))"

text \<open>
  teardownAllCalls: the entries have left the registry when their calls end, so finishCall finds
  none of them.
\<close>

definition end_drained :: "srv_env \<Rightarrow> srv_draws \<Rightarrow> string \<Rightarrow> server \<Rightarrow> string \<times> active_call \<Rightarrow> server" where
  "end_drained e w sid s p =
     (let (i, ac) = p;
          m = fst (EndCall (se_voip e sid) (dw_cm w) ((ac_cm ac)\<lparr>cm_out := []\<rparr>) EndCallReasonUserEnded)
      in leg_acts (foldl (call_back e w sid i) s (cm_out m)) (close_leg (ac_leg ac)))"

definition teardownAllCalls :: "srv_env \<Rightarrow> srv_draws \<Rightarrow> server \<Rightarrow> string \<Rightarrow> server" where
  "teardownAllCalls e w s sid =
     (case gm_get (sv_sessions s) sid of
        None \<Rightarrow> s
      | Some x \<Rightarrow> foldl (end_drained e w sid) (upd_reg s sid (\<lambda>r. fst (drain r))) (rg_calls (ss_reg x)))"

section \<open>Incoming calls\<close>

definition rejectOffer :: "srv_env \<Rightarrow> string \<Rightarrow> string \<Rightarrow> node \<Rightarrow> string \<Rightarrow> node option" where
  "rejectOffer e sid stanzaId n from =
     (case ExtractNodeInfo n of
        None \<Rightarrow> None
      | Some info \<Rightarrow>
          (let c = AttrString (node_attrs (ni_inner info)) ''call-creator'';
               creator = (if c = [] then from else c)
           in Some (BuildRejectStanza stanzaId from (ni_call_id info) (ev_must_jid (se_voip e sid) creator))))"

definition FindSessionByCall :: "server \<Rightarrow> string \<Rightarrow> string option" where
  "FindSessionByCall s i =
     map_option fst (find (\<lambda>(sid, x). reg_get (ss_reg x) i \<noteq> None) (sv_sessions s))"

text \<open>Another session of this server placed the call the offer is for.\<close>

definition placed_here :: "server \<Rightarrow> string \<Rightarrow> bool" where
  "placed_here s i =
     (case FindSessionByCall s i of
        None \<Rightarrow> False
      | Some origin \<Rightarrow> (case call_of s origin i of
          None \<Rightarrow> False
        | Some ac \<Rightarrow> (case cm_call (ac_cm ac) of
            None \<Rightarrow> False | Some c \<Rightarrow> ci_direction c = CallDirectionOutgoing)))"

definition self_originated :: "srv_env \<Rightarrow> string \<Rightarrow> string option \<Rightarrow> node \<Rightarrow> bool" where
  "self_originated e sid own n =
     (case own of
        None \<Rightarrow> False
      | Some jid \<Rightarrow> (case ExtractNodeInfo n of
          None \<Rightarrow> False
        | Some info \<Rightarrow>
            (let c = AttrString (node_attrs (ni_inner info)) ''call-creator''
             in c \<noteq> [] \<and> (c = jid \<or> se_jid_user e (ev_must_jid (se_voip e sid) c) = se_jid_user e jid))))"

text \<open>\<open>age\<close> is how old the offer is in nanoseconds, if it carries a time.\<close>

definition onIncomingOffer ::
    "srv_env \<Rightarrow> srv_draws \<Rightarrow> server \<Rightarrow> string \<Rightarrow> node option \<Rightarrow> string \<Rightarrow> int option \<Rightarrow> server" where
  "onIncomingOffer e w s sid inner from age =
     (let n = wrapCall from inner; i = callIDFromNode n in
      case gm_get (sv_sessions s) sid of
        None \<Rightarrow> s
      | Some x \<Rightarrow>
          if i = [] \<or> reg_get (ss_reg x) i \<noteq> None then s
          else if placed_here s i then s
          else if self_originated e sid (ss_jid x) n then s
          else if (case age of None \<Rightarrow> False | Some a \<Rightarrow> 2 * 60 * 1000000000 < a) then s
          else if 0 < sv_max_calls s \<and> sv_max_calls s \<le> int (reg_count (ss_reg x)) then s
          else (case run_cm e w (createCall s sid i) sid i
                       (\<lambda>m. HandleCallOffer (se_voip e sid) (dw_cm w) m n from) of
                  (s1, Some True) \<Rightarrow> s1
                | (s1, _) \<Rightarrow> fst (removeCall s1 sid i)))"

section \<open>Events from WhatsApp (handleEvent)\<close>

datatype cm_event =
    CmAccept node string
  | CmTransport node
  | CmTerminate node
  | CmRinging
  | CmAck node
  | CmRelay relay_event
  | CmRelayConnected
  | CmRelayData bytes string
  | CmFeed pcm
  | CmKeepalive
  | CmHoldTick
  | CmHold bool "string option"
  | CmAcceptCall
  | CmReject end_reason
  | CmEnd end_reason

fun cm_apply :: "voip_env \<Rightarrow> draws \<Rightarrow> string \<Rightarrow> cm_event \<Rightarrow> call_mgr \<Rightarrow> call_mgr \<times> call_error option" where
  "cm_apply v d i (CmAccept n from) m = (HandleCallAccept v d m n from, None)"
| "cm_apply v d i (CmTransport n) m = (HandleCallTransport v d m n, None)"
| "cm_apply v d i (CmTerminate n) m = (HandleCallTerminate d m n, None)"
| "cm_apply v d i CmRinging m = (HandleCallRinging d m, None)"
| "cm_apply v d i (CmAck n) m = (HandleCallAck v d m n, None)"
| "cm_apply v d i (CmRelay ev) m = (m\<lparr>cm_relay := relay_step (ev_hmac v) (cm_relay m) ev\<rparr>, None)"
| "cm_apply v d i CmRelayConnected m = (onRelayConnected (dr_now d) m, None)"
| "cm_apply v d i (CmRelayData b relay) m = (onRelayData v d m b relay, None)"
| "cm_apply v d i (CmFeed p) m = (FeedCapturedPCM v (dr_now d) m p, None)"
| "cm_apply v d i CmKeepalive m = (keepalive_tick v (dr_now d) m, None)"
| "cm_apply v d i CmHoldTick m = (hold_tick v m, None)"
| "cm_apply v d i (CmHold hold mode) m = (SetHold v (dr_now d) m hold mode, None)"
| "cm_apply v d i CmAcceptCall m = AcceptCall v d m i"
| "cm_apply v d i (CmReject reason) m = RejectCall v d m i reason"
| "cm_apply v d i (CmEnd reason) m = EndCall v d m reason"

definition cm_step ::
    "srv_env \<Rightarrow> srv_draws \<Rightarrow> server \<Rightarrow> string \<Rightarrow> string \<Rightarrow> cm_event \<Rightarrow> server \<times> call_error option option" where
  "cm_step e w s sid i ev = run_cm e w s sid i (cm_apply (se_voip e sid) (dw_cm w) i ev)"

definition callForEvent :: "server \<Rightarrow> string \<Rightarrow> string \<Rightarrow> node option \<Rightarrow> string option" where
  "callForEvent s sid from inner =
     (let i = callIDFromNode (wrapCall from inner)
      in if i = [] \<or> call_of s sid i = None then None else Some i)"

text \<open>By the account of the peer, then by the JID as it came.\<close>

definition callByPeer :: "srv_env \<Rightarrow> server \<Rightarrow> string \<Rightarrow> string \<Rightarrow> string option" where
  "callByPeer e s sid from =
     (case gm_get (sv_sessions s) sid of
        None \<Rightarrow> None
      | Some x \<Rightarrow>
          (let peer = (if se_jid_server e from = Some ''lid''
                       then case se_pn_for_lid e from of None \<Rightarrow> from | Some pn \<Rightarrow> pn else from);
               by = (\<lambda>j. map_option fst (getByPeer (peer_account e sid) (ss_reg x) (se_non_ad e j)))
           in case by peer of Some i \<Rightarrow> Some i | None \<Rightarrow> by from))"

definition session_info_of :: "session \<Rightarrow> session_info" where
  "session_info_of x =
     (let jid = (case ss_jid x of None \<Rightarrow> [] | Some j \<Rightarrow> j)
      in \<lparr>si_id = ss_id x, si_name = ss_name x, si_jid = jid, si_state = au_state (ss_auth x),
          si_paired = (au_paired (ss_auth x) \<or> jid \<noteq> []), si_qr = au_qr (ss_auth x),
          si_webhook = ss_webhook x, si_panel_inbound = ss_panel_inbound x\<rparr>)"

definition all_sessions :: "server \<Rightarrow> session list" where
  "all_sessions s = List.map_filter (gm_get (sv_sessions s)) (sv_order s)"

definition infos :: "server \<Rightarrow> session_info list" where
  "infos s = map session_info_of (all_sessions s)"

definition list_sessions :: "server \<Rightarrow> server" where
  "list_sessions s = on_broker s (\<lambda>hook b. emitSessionList hook b (infos s) (sv_panel_inbound s))"

definition auth :: "string \<Rightarrow> bool \<Rightarrow> string \<Rightarrow> auth_snapshot" where
  "auth state paired qr = \<lparr>au_state = state, au_paired = paired, au_qr = qr\<rparr>"

definition setAuth :: "server \<Rightarrow> string \<Rightarrow> auth_snapshot \<Rightarrow> server" where
  "setAuth s sid a =
     (let s1 = upd_session s sid (\<lambda>x. x\<lparr>ss_auth := a\<rparr>)
      in list_sessions (on_broker s1 (\<lambda>hook b. emitAuthState hook b sid a)))"

text \<open>The sessions table; a write that fails changes nothing.\<close>

definition setJID :: "bool \<Rightarrow> server \<Rightarrow> string \<Rightarrow> string \<Rightarrow> server" where
  "setJID ok s sid jid =
     (if \<not> ok then s
      else case gm_get (sv_rows s) sid of
        None \<Rightarrow> s | Some r \<Rightarrow> s\<lparr>sv_rows := gm_put sid (r\<lparr>sw_jid := jid\<rparr>) (sv_rows s)\<rparr>)"

text \<open>
  Presence (refreshPresence) only sends, so it is left out of these events.  \<open>WaReceipt\<close> says
  whether the receipt is a delivery or a ringer; \<open>WaNote\<close> stands for the events that are only
  logged and for ClientOutdated.
\<close>

datatype wa_event =
    WaConnected
  | WaLoggedOut
  | WaStreamReplaced
  | WaNote
  | WaCallOffer "node option" string "int option"
  | WaCallAccept "node option" string
  | WaCallTransport "node option" string
  | WaCallTerminate "node option" string
  | WaCallReject "node option" string
  | WaReceipt bool string
  | WaDisconnected

definition to_call :: "srv_env \<Rightarrow> srv_draws \<Rightarrow> server \<Rightarrow> string \<Rightarrow> string option \<Rightarrow> cm_event \<Rightarrow> server" where
  "to_call e w s sid i ev = (case i of None \<Rightarrow> s | Some c \<Rightarrow> fst (cm_step e w s sid c ev))"

definition or_peer :: "srv_env \<Rightarrow> server \<Rightarrow> string \<Rightarrow> string \<Rightarrow> node option \<Rightarrow> string option" where
  "or_peer e s sid from inner =
     (case callForEvent s sid from inner of Some i \<Rightarrow> Some i | None \<Rightarrow> callByPeer e s sid from)"

fun handleEvent :: "srv_env \<Rightarrow> srv_draws \<Rightarrow> server \<Rightarrow> string \<Rightarrow> wa_event \<Rightarrow> server" where
  "handleEvent e w s sid WaConnected =
     (let s1 = upd_session s sid (\<lambda>x. x\<lparr>ss_connected_once := True, ss_online := True\<rparr>)
      in if sv_blocked s1 then upd_session s1 sid (\<lambda>x. x\<lparr>ss_online := False\<rparr>)
         else case gm_get (sv_sessions s1) sid of
           None \<Rightarrow> s1
         | Some x \<Rightarrow>
             setAuth (case ss_jid x of None \<Rightarrow> s1 | Some j \<Rightarrow> setJID (dw_sql w) s1 sid j) sid (auth ''open'' True []))"
| "handleEvent e w s sid WaDisconnected = upd_session s sid (\<lambda>x. x\<lparr>ss_online := False\<rparr>)"
| "handleEvent e w s sid WaLoggedOut = setAuth s sid (auth ''logged_out'' False [])"
| "handleEvent e w s sid WaStreamReplaced = setAuth s sid (auth ''replaced'' True [])"
| "handleEvent e w s sid WaNote = s"
| "handleEvent e w s sid (WaCallOffer inner from age) = onIncomingOffer e w s sid inner from age"
| "handleEvent e w s sid (WaCallAccept inner from) =
     to_call e w s sid (or_peer e s sid from inner) (CmAccept (wrapCall from inner) from)"
| "handleEvent e w s sid (WaCallTransport inner from) =
     to_call e w s sid (callForEvent s sid from inner) (CmTransport (wrapCall from inner))"
| "handleEvent e w s sid (WaCallTerminate inner from) =
     to_call e w s sid (or_peer e s sid from inner) (CmTerminate (wrapCall from inner))"
| "handleEvent e w s sid (WaCallReject inner from) =
     to_call e w s sid (or_peer e s sid from inner) (CmTerminate (wrapCall from inner))"
| "handleEvent e w s sid (WaReceipt delivered sender) =
     (if \<not> delivered then s else to_call e w s sid (callByPeer e s sid sender) CmRinging)"

text \<open>The QR channel of startPairing.\<close>

datatype qr_event = QrCode string | QrSuccess | QrTimeout

fun pairing_event :: "srv_draws \<Rightarrow> server \<Rightarrow> string \<Rightarrow> qr_event \<Rightarrow> server" where
  "pairing_event w s sid (QrCode code) =
     on_broker (setAuth s sid (auth ''qr'' False code)) (\<lambda>hook b. emitSessionQR hook b sid code)"
| "pairing_event w s sid QrSuccess =
     setAuth (case gm_get (sv_sessions s) sid of
         Some x \<Rightarrow> (case ss_jid x of None \<Rightarrow> s | Some j \<Rightarrow> setJID (dw_sql w) s sid j)
       | None \<Rightarrow> s) sid (auth ''open'' True [])"
| "pairing_event w s sid QrTimeout = setAuth s sid (auth ''logged_out'' False [])"

definition shutdown :: "srv_env \<Rightarrow> srv_draws \<Rightarrow> server \<Rightarrow> string \<Rightarrow> server" where
  "shutdown e w s sid = upd_session (teardownAllCalls e w s sid) sid (\<lambda>x. x\<lparr>ss_online := False\<rparr>)"

text \<open>A new client has no device of its own yet.\<close>

definition replaceClient :: "srv_env \<Rightarrow> srv_draws \<Rightarrow> server \<Rightarrow> string \<Rightarrow> server" where
  "replaceClient e w s sid =
     upd_session (teardownAllCalls e w s sid) sid (\<lambda>x. x\<lparr>ss_online := False, ss_jid := None\<rparr>)"

section \<open>The session manager (sessionmanager.go)\<close>

definition new_session :: "string \<Rightarrow> string \<Rightarrow> string \<Rightarrow> bool \<Rightarrow> string option \<Rightarrow> session" where
  "new_session sid name webhook panelInbound jid =
     \<lparr>ss_id = sid, ss_name = name, ss_webhook = webhook, ss_panel_inbound = panelInbound,
      ss_reg = newCallRegistry, ss_auth = auth ''connecting'' False [], ss_jid = jid, ss_online = False,
      ss_connected_once = False\<rparr>"

definition register :: "server \<Rightarrow> session \<Rightarrow> server" where
  "register s x = s\<lparr>sv_sessions := gm_put (ss_id x) x (sv_sessions s), sv_order := sv_order s @ [ss_id x]\<rparr>"

definition unregister :: "server \<Rightarrow> string \<Rightarrow> server" where
  "unregister s sid = s\<lparr>sv_sessions := gm_del sid (sv_sessions s), sv_order := remove1 sid (sv_order s)\<rparr>"

text \<open>By id, else the first in the map whose name or id matches up to case (ASCII folding); with the key it is under.\<close>

definition Get :: "server \<Rightarrow> string \<Rightarrow> (string \<times> session) option" where
  "Get s sid =
     (case gm_get (sv_sessions s) sid of
        Some x \<Rightarrow> Some (sid, x)
      | None \<Rightarrow> find (\<lambda>(_, x). map lower (ss_name x) = map lower sid \<or> map lower (ss_id x) = map lower sid)
                  (sv_sessions s))"

datatype manager_error = NoSession string | MigrationBlocked | StoreError | PairingError | ConnectError | AlreadyPaired

definition SetPanelInboundCalls :: "server \<Rightarrow> bool \<Rightarrow> bool \<Rightarrow> server \<times> manager_error option" where
  "SetPanelInboundCalls s ok enabled =
     (if \<not> ok then (s, Some StoreError)
      else (list_sessions (s\<lparr>sv_panel_inbound := enabled\<rparr>), None))"

text \<open>\<open>device\<close>: the device store has the keys of the row's JID; \<open>connects\<close>: Connect succeeds.\<close>

definition restore_row :: "(string \<Rightarrow> string option) \<Rightarrow> (string \<Rightarrow> bool) \<Rightarrow> server \<Rightarrow> session_row \<Rightarrow> server" where
  "restore_row device connects s r =
     (let fresh = (\<lambda>jid. new_session (sw_id r) (sw_name r) (sw_webhook r) (sw_panel_inbound r) jid);
          lost = register s ((fresh None)\<lparr>ss_auth := auth ''logged_out'' False []\<rparr>)
      in if sw_jid r = [] then lost
         else case device (sw_jid r) of
           None \<Rightarrow> lost
         | Some jid \<Rightarrow>
             (if sv_blocked s then register s ((fresh (Some jid))\<lparr>ss_auth := auth ''stopped'' True []\<rparr>)
              else register s ((fresh (Some jid))\<lparr>ss_online := connects (sw_id r)\<rparr>)))"

definition Restore ::
    "bool option \<Rightarrow> session_row list option \<Rightarrow> (string \<Rightarrow> string option) \<Rightarrow> (string \<Rightarrow> bool) \<Rightarrow> server \<Rightarrow> server" where
  "Restore panel rows device connects s =
     (let s1 = s\<lparr>sv_panel_inbound := (case panel of None \<Rightarrow> True | Some b \<Rightarrow> b)\<rparr>
      in case rows of None \<Rightarrow> s1 | Some rs \<Rightarrow> list_sessions (foldl (restore_row device connects) s1 rs))"

definition Create :: "server \<Rightarrow> bool \<Rightarrow> bool \<Rightarrow> string \<Rightarrow> string \<Rightarrow> server \<times> (manager_error + string)" where
  "Create s stored pairs sid name =
     (if sv_blocked s then (s, Inl MigrationBlocked)
      else if \<not> stored then (s, Inl StoreError)
      else let s1 = s\<lparr>sv_rows := gm_put sid \<lparr>sw_id = sid, sw_name = name, sw_jid = [], sw_webhook = [],
                       sw_panel_inbound = False\<rparr> (sv_rows s)\<rparr>;
               s2 = list_sessions (register s1 (new_session sid name [] False None))
           in if pairs then (s2, Inr sid) else (s2, Inl PairingError))"

definition change_row :: "server \<Rightarrow> string \<Rightarrow> (session_row \<Rightarrow> session_row) \<Rightarrow> server" where
  "change_row s sid f =
     (case gm_get (sv_rows s) sid of None \<Rightarrow> s | Some r \<Rightarrow> s\<lparr>sv_rows := gm_put sid (f r) (sv_rows s)\<rparr>)"

definition change_session ::
    "server \<Rightarrow> bool \<Rightarrow> string \<Rightarrow> (session_row \<Rightarrow> session_row) \<Rightarrow> (session \<Rightarrow> session) \<Rightarrow> server \<times> manager_error option" where
  "change_session s ok sid row mem =
     (if gm_get (sv_sessions s) sid = None then (s, Some (NoSession sid))
      else if \<not> ok then (s, Some StoreError)
      else (list_sessions (upd_session (change_row s sid row) sid mem), None))"

definition Rename :: "server \<Rightarrow> bool \<Rightarrow> string \<Rightarrow> string \<Rightarrow> server \<times> manager_error option" where
  "Rename s ok sid name = change_session s ok sid (\<lambda>r. r\<lparr>sw_name := name\<rparr>) (\<lambda>x. x\<lparr>ss_name := name\<rparr>)"

definition SetWebhookURL :: "server \<Rightarrow> bool \<Rightarrow> string \<Rightarrow> string \<Rightarrow> server \<times> manager_error option" where
  "SetWebhookURL s ok sid url = change_session s ok sid (\<lambda>r. r\<lparr>sw_webhook := url\<rparr>) (\<lambda>x. x\<lparr>ss_webhook := url\<rparr>)"

definition SetPanelInbound :: "server \<Rightarrow> bool \<Rightarrow> string \<Rightarrow> bool \<Rightarrow> server \<times> manager_error option" where
  "SetPanelInbound s ok sid on =
     change_session s ok sid (\<lambda>r. r\<lparr>sw_panel_inbound := on\<rparr>) (\<lambda>x. x\<lparr>ss_panel_inbound := on\<rparr>)"

text \<open>After a successful logout whatsmeow has deleted the device; then Delete drops the rest.\<close>

definition Delete :: "srv_env \<Rightarrow> srv_draws \<Rightarrow> server \<Rightarrow> string \<Rightarrow> server \<times> manager_error option" where
  "Delete e w s sid =
     (case Get s sid of
        None \<Rightarrow> (s, Some (NoSession sid))
      | Some (k, x) \<Rightarrow>
          (let s1 = teardownAllCalls e w (upd_session s k (\<lambda>x. x\<lparr>ss_online := False, ss_jid := None\<rparr>)) k;
               s2 = unregister s1 sid;
               s3 = (if dw_sql w then s2\<lparr>sv_rows := gm_del sid (sv_rows s2)\<rparr> else s2)
           in (list_sessions s3, None)))"

definition Logout :: "srv_env \<Rightarrow> srv_draws \<Rightarrow> server \<Rightarrow> string \<Rightarrow> server \<times> manager_error option" where
  "Logout e w s sid =
     (case Get s sid of
        None \<Rightarrow> (s, Some (NoSession sid))
      | Some (k, x) \<Rightarrow>
          (setAuth (setJID (dw_sql w) (replaceClient e w s k) sid []) k (auth ''logged_out'' False []), None))"

definition Stop :: "srv_env \<Rightarrow> srv_draws \<Rightarrow> server \<Rightarrow> string \<Rightarrow> server \<times> manager_error option" where
  "Stop e w s sid =
     (case Get s sid of
        None \<Rightarrow> (s, Some (NoSession sid))
      | Some (k, x) \<Rightarrow> (setAuth (shutdown e w s k) k (auth ''stopped'' (ss_jid x \<noteq> None) []), None))"

definition PairSession :: "srv_env \<Rightarrow> srv_draws \<Rightarrow> bool \<Rightarrow> server \<Rightarrow> string \<Rightarrow> server \<times> manager_error option" where
  "PairSession e w pairs s sid =
     (case Get s sid of
        None \<Rightarrow> (s, Some (NoSession sid))
      | Some (k, x) \<Rightarrow>
          (if sv_blocked s then (s, Some MigrationBlocked)
           else if ss_jid x \<noteq> None then (s, Some AlreadyPaired)
           else let s1 = replaceClient e w s k
                in if pairs then (list_sessions s1, None) else (s1, Some PairingError)))"

definition Start :: "srv_env \<Rightarrow> srv_draws \<Rightarrow> bool \<Rightarrow> bool \<Rightarrow> server \<Rightarrow> string \<Rightarrow> server \<times> manager_error option" where
  "Start e w connects pairs s sid =
     (case Get s sid of
        None \<Rightarrow> (s, Some (NoSession sid))
      | Some (k, x) \<Rightarrow>
          (if sv_blocked s then (s, Some MigrationBlocked)
           else if ss_online x then (s, None)
           else if ss_jid x \<noteq> None
           then let s1 = setAuth s k (auth ''connecting'' True [])
                in if connects then (upd_session s1 k (\<lambda>x. x\<lparr>ss_online := True\<rparr>), None)
                   else (s1, Some ConnectError)
           else PairSession e w pairs s sid))"

definition disconnectAll :: "srv_env \<Rightarrow> srv_draws \<Rightarrow> server \<Rightarrow> server" where
  "disconnectAll e w s = foldl (shutdown e w) s (gm_keys (sv_sessions s))"

definition activeCallCount :: "server \<Rightarrow> nat" where
  "activeCallCount s = sum_list (map (\<lambda>x. reg_count (ss_reg x)) (all_sessions s))"

definition pairedCount :: "server \<Rightarrow> nat" where
  "pairedCount s = length (filter (\<lambda>x. ss_jid x \<noteq> None) (all_sessions s))"

definition stopForMigration :: "srv_env \<Rightarrow> srv_draws \<Rightarrow> server \<Rightarrow> server" where
  "stopForMigration e w s =
     foldl (\<lambda>s k. case gm_get (sv_sessions s) k of None \<Rightarrow> s
          | Some x \<Rightarrow> setAuth (shutdown e w s k) k (auth ''stopped'' (ss_jid x \<noteq> None) []))
       s (sv_order s)"

text \<open>\<open>logged_in\<close>: client.IsLoggedIn() of a connected client.\<close>

definition connectedCount :: "(string \<Rightarrow> bool) \<Rightarrow> server \<Rightarrow> nat \<times> nat \<times> nat \<times> string list" where
  "connectedCount logged_in s =
     (let ps = filter (\<lambda>x. ss_jid x \<noteq> None) (all_sessions s)
      in (length (filter (\<lambda>x. ss_online x \<and> logged_in (ss_id x)) ps), length (filter ss_connected_once ps),
          length ps, map ss_name (filter (\<lambda>x. \<not> ss_connected_once x) ps)))"

definition reconnectAll :: "(string \<Rightarrow> bool) \<Rightarrow> server \<Rightarrow> server" where
  "reconnectAll connects s =
     foldl (\<lambda>s k. case gm_get (sv_sessions s) k of None \<Rightarrow> s
          | Some x \<Rightarrow> (if ss_jid x = None then s
               else upd_session (setAuth s k (auth ''connecting'' True [])) k (\<lambda>y. y\<lparr>ss_online := connects k\<rparr>)))
       s (sv_order s)"

definition dropAll :: "srv_env \<Rightarrow> srv_draws \<Rightarrow> server \<Rightarrow> server" where
  "dropAll e w s =
     (foldl (shutdown e w) s (filter (gm_has (sv_sessions s)) (sv_order s)))\<lparr>sv_sessions := [], sv_order := []\<rparr>"

definition SessionCounts :: "server \<Rightarrow> nat \<times> nat" where
  "SessionCounts s = (length (sv_sessions s), length (filter (ss_online \<circ> snd) (sv_sessions s)))"

end
