(* ===== verification/ServerApi.thy ===== *)
theory ServerApi
  imports Session PanelAuth
begin

text \<open>
  The HTTP interface to sessions and calls: src/cmd/server/httpapi.go, httpapi_audio.go and
  attachAgent of httpapi_agent.go.

  A reply is a datatype instead of a status with a JSON body (\<open>status_of\<close> gives the status).
  Decoded request bodies are arguments.  A leg is named by its number, chosen by the caller as Go
  chooses addresses.
\<close>

section \<open>Telephone numbers and paths\<close>

definition is_digit_char :: "char \<Rightarrow> bool" where
  "is_digit_char c \<longleftrightarrow> CHR ''0'' \<le> c \<and> c \<le> CHR ''9''"

definition cleanOnlyDigits :: "string \<Rightarrow> string" where
  "cleanOnlyDigits s = filter is_digit_char s"

definition cut_prefix :: "string \<Rightarrow> string \<Rightarrow> string option" where
  "cut_prefix pre s = (if take (length pre) s = pre then Some (drop (length pre) s) else None)"

definition has_prefix :: "string \<Rightarrow> string \<Rightarrow> bool" where
  "has_prefix s pre = (take (length pre) s = pre)"

definition normalizePhone :: "string \<Rightarrow> string" where
  "normalizePhone p =
     (let t = trim_space p; u = (case cut_prefix ''+'' t of None \<Rightarrow> t | Some r \<Rightarrow> r)
      in filter is_digit_char u)"

definition isSamePhoneNumber :: "string \<Rightarrow> string \<Rightarrow> bool" where
  "isSamePhoneNumber a b =
     (let x = cleanOnlyDigits a; y = cleanOnlyDigits b
      in if x = [] \<or> y = [] then False
         else if x = y then True
         else has_prefix x ''55'' \<and> has_prefix y ''55'' \<and> length x \<in> {12, 13} \<and> length y \<in> {12, 13}
              \<and> take 2 (drop 2 x) = take 2 (drop 2 y)
              \<and> drop (length x - 8) x = drop (length y - 8) y)"

fun split_on :: "char \<Rightarrow> string \<Rightarrow> string list" where
  "split_on c [] = [[]]"
| "split_on c (x # xs) =
     (if x = c then [] # split_on c xs
      else case split_on c xs of [] \<Rightarrow> [[x]] | p # ps \<Rightarrow> (x # p) # ps)"

definition isAudioWSPath :: "string \<Rightarrow> bool" where
  "isAudioWSPath path =
     (case cut_prefix ''/api/sessions/'' path of
        None \<Rightarrow> False
      | Some rest \<Rightarrow>
          (case split_on (CHR ''/'') rest of
             [a, b, c, d] \<Rightarrow> a \<noteq> [] \<and> b = ''calls'' \<and> c \<noteq> [] \<and> d = ''audio''
           | _ \<Rightarrow> False))"

definition maxPrebufferMs :: int where "maxPrebufferMs = 500"

text \<open>\<open>v\<close> is the value of the environment variable.\<close>

definition envPrebufferMs :: "string \<Rightarrow> int \<Rightarrow> int" where
  "envPrebufferMs v def =
     (if trim_space v = [] then def
      else case atoi (trim_space v) of
        None \<Rightarrow> def | Some n \<Rightarrow> (if n < 0 \<or> maxPrebufferMs < n then def else n))"

section \<open>Who may ask (withAuth)\<close>

record api_request =
  rq_method :: string
  rq_path :: string
  rq_ticket :: "string option"
  rq_session_cookie :: "string option"
  rq_admin_cookie :: "string option"
  rq_x_api_key :: string
  rq_authorization :: string
  rq_query_apikey :: string
  rq_header_client :: string
  rq_query_client :: string

record api_guard =
  gd_panel :: "panel_auth option"
  gd_admin_token :: string
  gd_api_key :: string
  gd_tickets :: audio_tickets

definition apiKeyOK :: "api_guard \<Rightarrow> api_request \<Rightarrow> bool" where
  "apiKeyOK g r =
     (let bearer = (if rq_x_api_key r \<noteq> [] then rq_x_api_key r
                    else case cut_prefix ''Bearer '' (rq_authorization r) of None \<Rightarrow> [] | Some k \<Rightarrow> k);
          key = (if bearer = [] then rq_query_apikey r else bearer)
      in gd_api_key g \<noteq> [] \<and> key = gd_api_key g)"

definition cookie_ok :: "int \<Rightarrow> api_guard \<Rightarrow> api_request \<Rightarrow> api_guard \<times> bool" where
  "cookie_ok now g r =
     (let (p, ok) = panelCookieOK now (gd_panel g) (gd_admin_token g) (rq_session_cookie r) (rq_admin_cookie r)
      in (g\<lparr>gd_panel := p\<rparr>, ok))"

definition withAuth :: "int \<Rightarrow> api_guard \<Rightarrow> api_request \<Rightarrow> api_guard \<times> bool" where
  "withAuth now g r =
     (if \<not> has_prefix (rq_path r) ''/api/'' \<or> has_prefix (rq_path r) ''/api/auth/'' then (g, True)
      else if rq_method r = ''GET'' \<and> rq_ticket r \<noteq> None \<and> isAudioWSPath (rq_path r) then (g, True)
      else let (g1, ok) = cookie_ok now g r
           in if ok then (g1, True) else (g1, apiKeyOK g1 r))"

text \<open>The credential handleAudioWS asks for again: a ticket for this call, a cookie, or the key.\<close>

definition audio_credential :: "int \<Rightarrow> api_guard \<Rightarrow> api_request \<Rightarrow> string \<Rightarrow> api_guard \<times> bool" where
  "audio_credential now g r callID =
     (case rq_ticket r of
        Some t \<Rightarrow> (let (ts, ok) = ticket_consume now (gd_tickets g) t callID in (g\<lparr>gd_tickets := ts\<rparr>, ok))
      | None \<Rightarrow> (let (g1, ok) = cookie_ok now g r in if ok then (g1, True) else (g1, apiKeyOK g1 r)))"

definition clientID :: "api_request \<Rightarrow> string" where
  "clientID r = (if rq_header_client r \<noteq> [] then rq_header_client r else rq_query_client r)"

section \<open>Replies\<close>

datatype api_reply =
    CallCreated string
  | Accepted string
  | DoneOK
  | NoContent
  | NotPaired
  | PhoneRequired
  | OperatorBusy
  | MaxConcurrentCalls
  | CallingYourself
  | LookupFailed
  | NotOnWhatsApp
  | NumberBusy string
  | AgentFailed nat
  | StartFailed
  | NoSuchCall
  | ClaimedByOther
  | AcceptFailed
  | SendFailed
  | SdpRequired
  | BridgeFailed
  | AudioUnauthorized
  | AudioUpgradeFailed

fun status_of :: "api_reply \<Rightarrow> nat" where
  "status_of (CallCreated i) = 200"
| "status_of (Accepted i) = 200"
| "status_of DoneOK = 200"
| "status_of NoContent = 204"
| "status_of NotPaired = 503"
| "status_of PhoneRequired = 400"
| "status_of OperatorBusy = 409"
| "status_of MaxConcurrentCalls = 429"
| "status_of CallingYourself = 400"
| "status_of LookupFailed = 500"
| "status_of NotOnWhatsApp = 404"
| "status_of (NumberBusy i) = 409"
| "status_of (AgentFailed code) = code"
| "status_of StartFailed = 500"
| "status_of NoSuchCall = 404"
| "status_of ClaimedByOther = 409"
| "status_of AcceptFailed = 500"
| "status_of SendFailed = 502"
| "status_of SdpRequired = 400"
| "status_of BridgeFailed = 500"
| "status_of AudioUnauthorized = 401"
| "status_of AudioUpgradeFailed = 403"

section \<open>Placing a call (doStartCall)\<close>

record start_request =
  sr_phone :: string
  sr_owner :: string
  sr_record :: bool
  sr_clinic :: string
  sr_agent :: bool

text \<open>\<open>lookup\<close> is IsOnWhatsApp: an error, or JIDs with whether they are registered.\<close>

definition start_checks ::
    "srv_env \<Rightarrow> server \<Rightarrow> string \<Rightarrow> start_request \<Rightarrow> (string \<Rightarrow> (string \<times> bool) list option) \<Rightarrow> api_reply + string" where
  "start_checks e s sid q lookup =
     (case gm_get (sv_sessions s) sid of
        None \<Rightarrow> Inl NotPaired
      | Some x \<Rightarrow> (case ss_jid x of
          None \<Rightarrow> Inl NotPaired
        | Some jid \<Rightarrow>
            (let own = se_jid_user e jid; norm = normalizePhone (sr_phone q) in
             if trim_space (sr_phone q) = [] then Inl PhoneRequired
             else if ownerActiveCall (sv_broker s) (sr_owner q) \<noteq> [] then Inl OperatorBusy
             else if 0 < sv_max_calls s \<and> sv_max_calls s \<le> int (reg_count (ss_reg x)) then Inl MaxConcurrentCalls
             else if own \<noteq> [] \<and> isSamePhoneNumber own norm then Inl CallingYourself
             else case lookup (CHR ''+'' # norm) of
                None \<Rightarrow> Inl LookupFailed
              | Some [] \<Rightarrow> Inl NotOnWhatsApp
              | Some ((peer, isIn) # _) \<Rightarrow>
                  (if \<not> isIn then Inl NotOnWhatsApp
                   else if own \<noteq> [] \<and> (se_jid_user e peer = own \<or> isSamePhoneNumber (se_jid_user e peer) own)
                   then Inl CallingYourself
                   else Inr peer))))"

definition start_reserve :: "server \<Rightarrow> string \<Rightarrow> string \<Rightarrow> server \<times> api_reply option" where
  "start_reserve s sid number =
     (case gm_get (sv_sessions s) sid of
        None \<Rightarrow> (s, Some NotPaired)
      | Some x \<Rightarrow> (case reservePeer (ss_reg x) number of
          (r, existing, ok) \<Rightarrow> if ok then (upd_reg s sid (\<lambda>_. r), None) else (s, Some (NumberBusy existing))))"

definition release :: "server \<Rightarrow> string \<Rightarrow> string \<Rightarrow> server" where
  "release s sid number = upd_reg s sid (\<lambda>r. releasePeer r number)"

definition attachAgent :: "server \<Rightarrow> string \<Rightarrow> string \<Rightarrow> nat \<Rightarrow> server" where
  "attachAgent s sid i n =
     (if call_of s sid i = None then s else setBridge s sid i (n, VoiceAgentLeg))"

definition arm_call :: "server \<Rightarrow> string \<Rightarrow> string \<Rightarrow> string \<Rightarrow> string \<Rightarrow> string \<Rightarrow> server" where
  "arm_call s sid i clinic dir peer =
     s\<lparr>sv_rec := rec_arm (sv_rec s) \<lparr>mt_call = i, mt_session = sid, mt_clinic = trim_space clinic,
        mt_direction = dir, mt_peer = peer\<rparr>\<rparr>"

text \<open>What follows a successful startOutgoing.\<close>

definition start_finish ::
    "srv_draws \<Rightarrow> server \<Rightarrow> string \<Rightarrow> start_request \<Rightarrow> string \<Rightarrow> string \<Rightarrow> string \<Rightarrow> nat \<Rightarrow> server" where
  "start_finish w s sid q number peer i n =
     (let s1 = upd_reg s sid (\<lambda>r. bindPeer r number i);
          s2 = (if sr_agent q then attachAgent s1 sid i n else s1);
          s3 = (if sr_record q then arm_call s2 sid i (sr_clinic q) ''outbound'' peer else s2);
          (st, started) = (case getCall (sv_broker s3) i of
             None \<Rightarrow> (StatusStarting, now_ms w) | Some r \<Rightarrow> (cr_status r, cr_started r))
      in on_broker s3 (\<lambda>hook b. upsertCall hook b
           \<lparr>cr_session = sid, cr_id = i, cr_owner = Some (sr_owner q), cr_direction = ''outbound'', cr_peer = peer,
            cr_peer_name = [], cr_started = started, cr_status = st, cr_ended = None, cr_reason = []\<rparr>))"

text \<open>
  The whole handler; \<open>agent\<close> is the answer of prepareAgent, the status of its error or success.
\<close>

definition doStartCall ::
    "srv_env \<Rightarrow> srv_draws \<Rightarrow> server \<Rightarrow> string \<Rightarrow> start_request \<Rightarrow> (string \<Rightarrow> (string \<times> bool) list option)
     \<Rightarrow> nat option \<Rightarrow> string \<Rightarrow> nat \<Rightarrow> server \<times> api_reply" where
  "doStartCall e w s sid q lookup agent i n =
     (case start_checks e s sid q lookup of
        Inl reply \<Rightarrow> (s, reply)
      | Inr peer \<Rightarrow>
          (let number = se_jid_user e (se_non_ad e peer) in
           case start_reserve s sid number of
             (s1, Some reply) \<Rightarrow> (s1, reply)
           | (s1, None) \<Rightarrow>
               (case (if sr_agent q then agent else None) of
                  Some code \<Rightarrow> (release s1 sid number, AgentFailed code)
                | None \<Rightarrow> (case startOutgoing e w s1 sid i False of
                    (s2, Inl err) \<Rightarrow> (release s2 sid number, StartFailed)
                  | (s2, Inr ack) \<Rightarrow> (start_finish w s2 sid q number peer i n, CallCreated i)))))"

section \<open>Operations on a call\<close>

definition findCall :: "server \<Rightarrow> string \<Rightarrow> string \<Rightarrow> string option" where
  "findCall s sid i =
     (if call_of s sid i \<noteq> None then Some sid
      else case FindSessionByCall s i of
        None \<Rightarrow> None | Some other \<Rightarrow> (if call_of s other i \<noteq> None then Some other else None))"

text \<open>
  doAccept: \<open>claim\<close> is the random claim of a client without an id, \<open>inbound\<close> the session's
  setting to record incoming calls if it can be read, \<open>want\<close> and \<open>clinic\<close> the body.
\<close>

definition doAccept ::
    "srv_env \<Rightarrow> srv_draws \<Rightarrow> server \<Rightarrow> string \<Rightarrow> string \<Rightarrow> string \<Rightarrow> string \<Rightarrow> bool \<Rightarrow> string \<Rightarrow> bool option
     \<Rightarrow> server \<times> api_reply" where
  "doAccept e w s sid0 i client claim want clinic inbound =
     (case findCall s sid0 i of
        None \<Rightarrow> (s, NoSuchCall)
      | Some sid \<Rightarrow>
          (let owner = (if client = [] then ''claim-'' @ claim else client);
               (b, ok) = setOwner (getWebhookURL s) (sv_broker s) i owner
           in if \<not> ok then (s, ClaimedByOther)
              else let s1 = on_broker (s\<lparr>sv_broker := b\<rparr>) (\<lambda>hook b. emitIncomingClaimed hook b sid i owner);
                       wantRec = (want \<or> inbound = Some True);
                       s2 = (if wantRec
                             then arm_call s1 sid i clinic ''inbound''
                                    (case getCall (sv_broker s1) i of None \<Rightarrow> [] | Some r \<Rightarrow> cr_peer r)
                             else s1)
                   in case cm_step e w s2 sid i CmAcceptCall of
                        (s3, Some None) \<Rightarrow> (s3, Accepted i)
                      | (s3, _) \<Rightarrow> (s3, AcceptFailed)))"

text \<open>doReject and doEndCall.\<close>

definition hang_up ::
    "srv_env \<Rightarrow> srv_draws \<Rightarrow> server \<Rightarrow> string \<Rightarrow> string \<Rightarrow> cm_event \<Rightarrow> end_reason \<Rightarrow> api_reply \<Rightarrow> server \<times> api_reply" where
  "hang_up e w s sid0 i ev reason ok_reply =
     (case findCall s sid0 i of
        None \<Rightarrow> (s, NoSuchCall)
      | Some sid \<Rightarrow>
          (case cm_step e w s sid i ev of
             (s1, Some None) \<Rightarrow>
               (on_broker (fst (removeCall s1 sid i))
                  (\<lambda>hook b. endCall hook (now_ms w) b i (reason_text reason) None), ok_reply)
           | (s1, _) \<Rightarrow> (s1, SendFailed)))"

definition doReject :: "srv_env \<Rightarrow> srv_draws \<Rightarrow> server \<Rightarrow> string \<Rightarrow> string \<Rightarrow> server \<times> api_reply" where
  "doReject e w s sid i = hang_up e w s sid i (CmReject EndCallReasonDeclined) EndCallReasonDeclined DoneOK"

definition doEndCall :: "srv_env \<Rightarrow> srv_draws \<Rightarrow> server \<Rightarrow> string \<Rightarrow> string \<Rightarrow> server \<times> api_reply" where
  "doEndCall e w s sid i = hang_up e w s sid i (CmEnd EndCallReasonUserEnded) EndCallReasonUserEnded NoContent"

definition doHold ::
    "srv_env \<Rightarrow> srv_draws \<Rightarrow> server \<Rightarrow> string \<Rightarrow> string \<Rightarrow> bool \<Rightarrow> string option \<Rightarrow> server \<times> api_reply" where
  "doHold e w s sid i hold mode =
     (if call_of s sid i = None then (s, NoSuchCall)
      else (fst (cm_step e w s sid i (CmHold hold (if hold then mode else None))), DoneOK))"

text \<open>\<open>sdp\<close> is the offer, \<open>built\<close> whether NewBridge succeeds.\<close>

definition doWebRTC :: "server \<Rightarrow> string \<Rightarrow> string \<Rightarrow> string \<Rightarrow> bool \<Rightarrow> nat \<Rightarrow> server \<times> api_reply" where
  "doWebRTC s sid0 i sdp built n =
     (case findCall s sid0 i of
        None \<Rightarrow> (s, NoSuchCall)
      | Some sid \<Rightarrow>
          (if sdp = [] then (s, SdpRequired)
           else if \<not> built then (s, BridgeFailed)
           else (setBridge s sid i (n, WebRTCLeg), DoneOK)))"

text \<open>handleAudioWS up to the loops; \<open>upgraded\<close>: the handshake and the first message succeed.\<close>

definition handleAudioWS ::
    "int \<Rightarrow> api_guard \<Rightarrow> api_request \<Rightarrow> server \<Rightarrow> string \<Rightarrow> string \<Rightarrow> bool \<Rightarrow> nat \<Rightarrow> api_guard \<times> server \<times> api_reply" where
  "handleAudioWS now g r s sid0 i upgraded n =
     (case audio_credential now g r i of
        (g1, False) \<Rightarrow> (g1, s, AudioUnauthorized)
      | (g1, True) \<Rightarrow>
          (case findCall s sid0 i of
             None \<Rightarrow> (g1, s, NoSuchCall)
           | Some sid \<Rightarrow>
               (if \<not> upgraded then (g1, s, AudioUpgradeFailed)
                else (g1, setBridge s sid i (n, WebSocketLeg), DoneOK))))"

definition handleAudioTicket ::
    "int \<Rightarrow> api_guard \<Rightarrow> server \<Rightarrow> string \<Rightarrow> string \<Rightarrow> string \<Rightarrow> api_guard \<times> api_reply" where
  "handleAudioTicket now g s sid i token =
     (case findCall s sid i of
        None \<Rightarrow> (g, NoSuchCall)
      | Some _ \<Rightarrow> (g\<lparr>gd_tickets := ticket_issue now token (gd_tickets g) i\<rparr>, DoneOK))"

section \<open>Legs that drop\<close>

definition current_leg :: "server \<Rightarrow> string \<Rightarrow> string \<Rightarrow> leg \<Rightarrow> bool" where
  "current_leg s sid i l \<longleftrightarrow> (case call_of s sid i of None \<Rightarrow> False | Some ac \<Rightarrow> ac_leg ac = Some l)"

definition on_hold :: "server \<Rightarrow> string \<Rightarrow> string \<Rightarrow> bool" where
  "on_hold s sid i \<longleftrightarrow> (case call_of s sid i of None \<Rightarrow> False | Some ac \<Rightarrow> cm_hold (ac_cm ac))"

text \<open>
  A browser leg that failed ends the call unless it was replaced or the call is on hold: at once
  for WebRTC (OnTerminalICE), after the grace time for a WebSocket (onAudioLegDropped, whose
  timer calls this only if the leg was current when it dropped).  A voice agent ends the call
  also on hold.
\<close>

definition leg_gone :: "srv_env \<Rightarrow> srv_draws \<Rightarrow> server \<Rightarrow> string \<Rightarrow> string \<Rightarrow> leg \<Rightarrow> server" where
  "leg_gone e w s sid i l =
     (if \<not> current_leg s sid i l then s
      else if snd l \<noteq> VoiceAgentLeg \<and> on_hold s sid i then s
      else terminateCall e w s sid i EndCallReasonUserEnded)"

text \<open>Audio from a leg (OnBrowserPCM, OnAudio), through the entry the leg was made for.\<close>

definition leg_audio :: "srv_env \<Rightarrow> srv_draws \<Rightarrow> server \<Rightarrow> string \<Rightarrow> string \<Rightarrow> pcm \<Rightarrow> server" where
  "leg_audio e w s sid i p =
     (let s1 = fst (cm_step e w s sid i (CmFeed p)) in
      case call_of s1 sid i of
        None \<Rightarrow> s1
      | Some ac \<Rightarrow> (case ac_rec ac of None \<Rightarrow> s1 | Some path \<Rightarrow> s1\<lparr>sv_rec := rec_feed True (sv_rec s1) path p\<rparr>))"

end
