(* ===== verification/Server.thy ===== *)
theory Server
  imports ServerApi
begin

text \<open>
  The server as a machine over everything that happens to its sessions and calls, and what holds
  of every run of it.  Requests that take several steps in the code (placing a call) are several
  events here, so other events come in between.
\<close>

section \<open>Events\<close>

datatype srv_event =
    SvWhatsApp string wa_event
  | SvPairing string qr_event
  | SvCall string string cm_event
  | SvTimeout string string
  | SvReserve string string
  | SvRelease string string
  | SvDial string string
  | SvDialled string start_request string string string nat
  | SvAccept string string string string bool string "bool option"
  | SvReject string string
  | SvEndCall string string
  | SvLeg string string leg
  | SvLegGone string string leg
  | SvLegAudio string string pcm
  | SvStop string
  | SvStart string bool bool
  | SvLogout string
  | SvDelete string
  | SvPair string bool
  | SvCreate string string bool bool
  | SvStopAll
  | SvReconnect "string \<Rightarrow> bool"

fun srv_step :: "srv_env \<Rightarrow> server \<Rightarrow> srv_draws \<times> srv_event \<Rightarrow> server" where
  "srv_step e s (w, SvWhatsApp sid ev) = handleEvent e w s sid ev"
| "srv_step e s (w, SvPairing sid ev) = pairing_event w s sid ev"
| "srv_step e s (w, SvCall sid i ev) = fst (cm_step e w s sid i ev)"
| "srv_step e s (w, SvTimeout sid i) =
     (case call_of s sid i of
        None \<Rightarrow> s | Some ac \<Rightarrow> (if ac_timer ac then ringing_timeout e w s sid i else s))"
| "srv_step e s (w, SvReserve sid number) = fst (start_reserve s sid number)"
| "srv_step e s (w, SvRelease sid number) = release s sid number"
| "srv_step e s (w, SvDial sid i) =
     (if call_of s sid i = None then fst (startOutgoing e w s sid i False) else s)"
| "srv_step e s (w, SvDialled sid q number peer i n) = start_finish w s sid q number peer i n"
| "srv_step e s (w, SvAccept sid i client claim want clinic inbound) =
     fst (doAccept e w s sid i client claim want clinic inbound)"
| "srv_step e s (w, SvReject sid i) = fst (doReject e w s sid i)"
| "srv_step e s (w, SvEndCall sid i) = fst (doEndCall e w s sid i)"
| "srv_step e s (w, SvLeg sid i l) = setBridge s sid i l"
| "srv_step e s (w, SvLegGone sid i l) = leg_gone e w s sid i l"
| "srv_step e s (w, SvLegAudio sid i p) = leg_audio e w s sid i p"
| "srv_step e s (w, SvStop sid) = fst (Stop e w s sid)"
| "srv_step e s (w, SvStart sid connects pairs) = fst (Start e w connects pairs s sid)"
| "srv_step e s (w, SvLogout sid) = fst (Logout e w s sid)"
| "srv_step e s (w, SvDelete sid) = fst (Delete e w s sid)"
| "srv_step e s (w, SvPair sid pairs) = fst (PairSession e w pairs s sid)"
| "srv_step e s (w, SvCreate sid name stored pairs) =
     (if gm_has (sv_sessions s) sid then s else fst (Create s stored pairs sid name))"
| "srv_step e s (w, SvStopAll) = stopForMigration e w s"
| "srv_step e s (w, SvReconnect connects) = reconnectAll connects s"

section \<open>What a handler of the call manager may do\<close>

definition harmless :: "cm_output \<Rightarrow> bool" where
  "harmless x \<longleftrightarrow> (case x of OutSend _ \<Rightarrow> True | OutQuery _ \<Rightarrow> True | OutAudio _ \<Rightarrow> True
     | OutRelayConnected \<Rightarrow> True | _ \<Rightarrow> False)"

definition call_key :: "call_mgr \<Rightarrow> (string \<times> call_state) option" where
  "call_key m = map_option (\<lambda>c. (ci_id c, ci_state c)) (cm_call m)"

definition quiet_ext :: "call_mgr \<Rightarrow> call_mgr \<Rightarrow> bool" where
  "quiet_ext m m' \<longleftrightarrow> call_key m' = call_key m \<and> (\<exists>xs. cm_out m' = cm_out m @ xs \<and> list_all harmless xs)"

named_theorems quiets

lemma quiet_refl [quiets]: "quiet_ext m m"
  by (simp add: quiet_ext_def)

lemma quiet_trans: "quiet_ext a b \<Longrightarrow> quiet_ext b c \<Longrightarrow> quiet_ext a c"
  unfolding quiet_ext_def by (metis append.assoc list_all_append)

lemma quiet_same: "cm_call m' = cm_call m \<Longrightarrow> cm_out m' = cm_out m \<Longrightarrow> quiet_ext m m'"
  by (simp add: quiet_ext_def call_key_def)

lemma quiet_send [quiets]: "quiet_ext m (send_node m n)"
  by (simp add: quiet_ext_def call_key_def send_node_def emit_def harmless_def)

lemma quiet_emit: "harmless x \<Longrightarrow> quiet_ext m (emit m x)"
  by (simp add: quiet_ext_def call_key_def emit_def)

lemma quiet_keys [quiets]:
  "quiet_ext m (initSrtpKeys env m)" "quiet_ext m (reinitSrtp env m k j)" "quiet_ext m (set_subscription m)"
  "quiet_ext m (init_media env d m i p)" "quiet_ext m (startSilenceKeepalive m)" "quiet_ext m (cleanupMedia m)"
  by (auto intro!: quiet_same simp: initSrtpKeys_def reinitSrtp_def set_subscription_def init_media_def initCodec_def
      startSilenceKeepalive_def cleanupMedia_def Let_def split: option.splits)

lemma quiet_connect [quiets]: "quiet_ext m (connectRelays d m eps)"
  by (auto intro!: quiet_same simp: connectRelays_def set_subscription_def Let_def)

lemma quiet_sendOpus [quiets]: "quiet_ext m (sendOpusFrame env m f)"
  by (auto intro!: quiet_same simp: sendOpusFrame_def Let_def split: option.splits prod.splits sum.splits)

lemma quiet_encode [quiets]: "quiet_ext m (encode_and_send env m f)"
proof -
  have "quiet_ext (m\<lparr>cm_encoded := cm_encoded m + 1\<rparr>) (encode_and_send env m f)"
    by (auto simp: encode_and_send_def Let_def quiet_refl quiet_sendOpus split: option.split)
  then show ?thesis by (rule quiet_trans [rotated]) (simp add: quiet_same)
qed

lemma quiet_feed_loop [quiets]: "quiet_ext m (feed_loop env m buf data)"
proof (induction env m buf data rule: feed_loop.induct)
  case (1 env m buf data)
  let ?k = "min (length data) (frameSize - length buf)"
  let ?buf = "buf @ take ?k data"
  show ?case
  proof (cases "data = [] \<or> length ?buf < frameSize")
    case True
    then show ?thesis by (subst feed_loop.simps) (auto simp: Let_def quiet_ext_def call_key_def)
  next
    case False
    then have eq: "feed_loop env m buf data
        = feed_loop env (encode_and_send env (m\<lparr>cm_buf := []\<rparr>) ?buf) [] (drop ?k data)"
      by (subst feed_loop.simps) (simp add: Let_def)
    have "quiet_ext m (encode_and_send env (m\<lparr>cm_buf := []\<rparr>) ?buf)"
      by (rule quiet_trans [OF _ quiet_encode]) (simp add: quiet_same)
    then show ?thesis unfolding eq
      by (rule quiet_trans) (rule "1.IH" [OF _ refl refl], use False in auto)
  qed
qed

lemma quiet_rx [quiets]: "quiet_ext m (rx_learn_peer env d m ssrc)"
  by (auto intro!: quiet_same simp: rx_learn_peer_def Let_def)

lemma quiet_deliver [quiets]: "quiet_ext m (deliver env now m ssrc fo data relay)"
  by (auto simp: deliver_def Let_def quiet_ext_def call_key_def emit_def harmless_def
      split: option.split sum.split prod.split)

lemma quiet_relay_data [quiets]: "quiet_ext m (onRelayData env d m data relay)"
proof -
  have "quiet_ext m (deliver env now (rx_learn_peer env d (m\<lparr>cm_lock := l, cm_window := w\<rparr>) ssrc) ssrc' fo data relay)"
    for now l w ssrc ssrc' fo
    by (rule quiet_trans [OF quiet_trans [OF _ quiet_rx] quiet_deliver]) (simp add: quiet_same)
  moreover have "quiet_ext m (m\<lparr>cm_lock := l\<rparr>)" for l by (simp add: quiet_same)
  ultimately show ?thesis by (simp add: onRelayData_def quiet_refl split: option.split prod.split)
qed

lemma quiet_media [quiets]:
  "quiet_ext m (FeedCapturedPCM env now m p)" "quiet_ext m (keepalive_tick env now m)"
  "quiet_ext m (hold_tick env m)" "quiet_ext m (SetHold env now m h mode)"
proof -
  have "quiet_ext m (m\<lparr>cm_last_capture := now\<rparr>)" by (simp add: quiet_same)
  then show "quiet_ext m (FeedCapturedPCM env now m p)"
    by (auto simp: FeedCapturedPCM_def quiet_refl intro: quiet_trans quiet_feed_loop)
  show "quiet_ext m (keepalive_tick env now m)"
    by (simp add: keepalive_tick_def quiets)
  have "quiet_ext m (m\<lparr>cm_hold_loop := x\<rparr>)" for x by (simp add: quiet_same)
  then show "quiet_ext m (hold_tick env m)"
    by (auto simp: hold_tick_def quiet_refl intro: quiet_trans quiet_encode split: option.split)
  show "quiet_ext m (SetHold env now m h mode)"
    by (auto intro!: quiet_same simp: SetHold_def Let_def)
qed

lemma quiet_relay_update: "cm_call m = Some c \<Longrightarrow> quiet_ext m (m\<lparr>cm_call := Some (c\<lparr>ci_relay := r\<rparr>)\<rparr>)"
  by (simp add: quiet_ext_def call_key_def ci_state_def)

lemma quiet_transport [quiets]: "quiet_ext m (HandleCallTransport env d m n)"
  by (auto simp: HandleCallTransport_def Let_def quiet_refl split: option.split
      intro!: quiet_trans [OF quiet_relay_update quiet_connect])

lemma cm_out_simps [simp]:
  "cm_out (initSrtpKeys env m) = cm_out m" "cm_out (connectRelays d m eps) = cm_out m"
  "cm_out (send_node m n) = cm_out m @ [OutSend n]" "cm_out (set_subscription m) = cm_out m"
  "cm_out (cleanupMedia m) = cm_out m" "cm_out (init_media env d m i p) = cm_out m"
  "cm_call (init_media env d m i p) = cm_call m" "cm_call (cleanupMedia m) = cm_call m"
  by (auto simp: initSrtpKeys_def connectRelays_def send_node_def emit_def set_subscription_def cleanupMedia_def
      init_media_def initCodec_def Let_def split: option.splits)

lemma quiet_if: "quiet_ext a b \<Longrightarrow> quiet_ext a c \<Longrightarrow> quiet_ext a (if P then b else c)"
  by simp

lemma quiet_ack [quiets]: "quiet_ext m (HandleCallAck env d m n)"
proof (cases "HandleCallAck env d m n = m")
  case False
  then obtain c where c: "cm_call m = Some c"
    by (auto simp: HandleCallAck_def Let_def split: if_splits option.splits)
  show ?thesis
    using c by (simp add: HandleCallAck_def Let_def quiet_ext_def call_key_def harmless_def ci_state_def)
qed (simp add: quiet_refl)

text \<open>
  While a handler runs for call \<open>i\<close>: it only knows that call, every state it has told is one the
  call has reached (\<open>k\<close> is how far it had come before), and an ended call has been told.
\<close>

definition rank_of :: "call_mgr \<Rightarrow> nat" where
  "rank_of m = (case call_key m of None \<Rightarrow> 0 | Some (_, st) \<Rightarrow> Suc (call_rank st))"

definition cm_traced :: "string \<Rightarrow> nat \<Rightarrow> call_mgr \<Rightarrow> bool" where
  "cm_traced i k m \<longleftrightarrow> (\<forall>j st. call_key m = Some (j, st) \<longrightarrow> j = i) \<and> k \<le> rank_of m
     \<and> (\<forall>c. OutState c \<in> set (cm_out m) \<longrightarrow> ci_id c = i \<and> Suc (call_rank (ci_state c)) \<le> rank_of m)
     \<and> (\<forall>c. OutEnded c \<in> set (cm_out m) \<longrightarrow> ci_id c = i)
     \<and> (\<forall>c. OutIncoming c \<in> set (cm_out m) \<longrightarrow> ci_id c = i)"

definition cm_told :: "call_mgr \<Rightarrow> bool" where
  "cm_told m \<longleftrightarrow> rank_of m = 5 \<longrightarrow> (\<exists>c. OutState c \<in> set (cm_out m) \<and> IsEnded c)"

lemma rank_5: "call_key m = Some (j, st) \<Longrightarrow> rank_of m = 5 \<longleftrightarrow> st = CallStateEnded"
  by (cases st) (simp_all add: rank_of_def)

lemma quiet_out:
  assumes "quiet_ext m m'"
  shows "OutState c \<in> set (cm_out m') \<longleftrightarrow> OutState c \<in> set (cm_out m)"
    "OutEnded c \<in> set (cm_out m') \<longleftrightarrow> OutEnded c \<in> set (cm_out m)"
    "OutIncoming c \<in> set (cm_out m') \<longleftrightarrow> OutIncoming c \<in> set (cm_out m)"
  using assms by (auto simp: quiet_ext_def list_all_iff harmless_def dest: bspec)

lemma quiet_rank: "quiet_ext m m' \<Longrightarrow> rank_of m' = rank_of m"
  by (simp add: quiet_ext_def rank_of_def)

lemma traced_quiet: "cm_traced i k m \<Longrightarrow> quiet_ext m m' \<Longrightarrow> cm_traced i k m'"
  unfolding cm_traced_def using quiet_out [of m m'] quiet_rank [of m m'] by (simp add: quiet_ext_def)

lemma told_quiet: "cm_told m \<Longrightarrow> quiet_ext m m' \<Longrightarrow> cm_told m'"
  unfolding cm_told_def using quiet_out [of m m'] quiet_rank [of m m'] by simp

lemma transit_out [simp]: "cm_out (fst (transit now m t)) = cm_out m"
  by (simp add: transit_def Let_def split: option.split prod.split)

lemma ApplyTransition_id: "ci_id (fst (ApplyTransition now c t)) = ci_id c"
  by (simp add: ApplyTransition_def split: option.split)

lemma transit_rank: "rank_of m \<le> rank_of (fst (transit now m t))"
  by (auto simp: transit_def rank_of_def call_key_def ApplyTransition_def ci_state_def Let_def
      dest: apply_data_rank split: option.split)

lemma transit_id: "call_key (fst (transit now m t)) = Some (j, st) \<Longrightarrow> \<exists>st0. call_key m = Some (j, st0)"
  using ApplyTransition_id [of now "the (cm_call m)" t]
  by (auto simp: transit_def call_key_def Let_def split: option.splits prod.splits)

lemma traced_transit:
  assumes "cm_traced i k m" shows "cm_traced i k (fst (transit now m t))"
  using assms transit_rank [of m now t] unfolding cm_traced_def
  by (auto dest!: transit_id intro: order_trans)

lemma traced_emitState: "cm_traced i k m \<Longrightarrow> cm_traced i k (emitState m)"
  by (auto simp: cm_traced_def emitState_def emit_def rank_of_def call_key_def split: option.splits)

lemma told_emitState: "cm_told (emitState m)"
proof (cases "cm_call m")
  case (Some c)
  then show ?thesis
    using rank_5 [of "emitState m" "ci_id c" "ci_state c"]
    by (auto simp: cm_told_def emitState_def emit_def call_key_def IsEnded_def)
qed (simp add: cm_told_def emitState_def rank_of_def call_key_def)

definition cm_fine :: "string \<Rightarrow> nat \<Rightarrow> call_mgr \<Rightarrow> bool" where
  "cm_fine i k m \<longleftrightarrow> cm_traced i k m \<and> cm_told m"

lemma fine_quiet: "cm_fine i k m \<Longrightarrow> quiet_ext m m' \<Longrightarrow> cm_fine i k m'"
  unfolding cm_fine_def using traced_quiet told_quiet by blast

lemma fine_told: "cm_traced i k m \<Longrightarrow> cm_fine i k (emitState m)"
  by (simp add: cm_fine_def traced_emitState told_emitState)

lemma fine_transit: "cm_fine i k m \<Longrightarrow> cm_fine i k (emitState (fst (transit now m t)))"
  by (simp add: cm_fine_def fine_told traced_transit told_emitState traced_emitState)

lemma transit_fail: "\<not> snd (transit now m t) \<Longrightarrow> quiet_ext m (fst (transit now m t))"
  by (auto simp: transit_def ApplyTransition_def quiet_ext_def call_key_def Let_def split: option.splits)

lemma fine_ended: "cm_fine i k m \<Longrightarrow> cm_call m = Some c \<Longrightarrow> cm_fine i k (emit m (OutEnded c))"
  by (auto simp: cm_fine_def cm_traced_def cm_told_def emit_def rank_of_def call_key_def)

lemma quiet_accept [quiets]:
  "quiet_ext m (accept_new_key env m n j c)" "quiet_ext m (accept_replies env d m n j c)"
proof -
  show "quiet_ext m (accept_new_key env m n j c)"
    by (simp add: accept_new_key_def quiets split: option.split sum.split)
  show "quiet_ext m (accept_replies env d m n j c)"
    by (simp add: accept_replies_def quiet_ext_def call_key_def harmless_def Let_def)
qed

lemma fine_accept_keys: "cm_fine i k m \<Longrightarrow> cm_fine i k (accept_keys env d m j c)"
  unfolding accept_keys_def Let_def
  by (rule fine_quiet, erule fine_transit) (auto simp: quiet_ext_def call_key_def)

lemma fine_media:
  assumes "cm_fine i k m" and "\<And>x. quiet_ext x (f x)"
  shows "cm_fine i k (let (m', ok) = transit now m t in if ok then f (emitState m') else m')"
proof (cases "snd (transit now m t)")
  case True
  then show ?thesis using fine_quiet [OF fine_transit [OF assms(1)] assms(2)] by (simp add: case_prod_beta Let_def)
next
  case False
  then show ?thesis using fine_quiet [OF assms(1) transit_fail] by (simp add: case_prod_beta Let_def)
qed

lemma fine_accept: "cm_fine i k m \<Longrightarrow> cm_fine i k (HandleCallAccept env d m n j)"
proof (cases "cm_call m")
  case (Some c)
  assume "cm_fine i k m"
  then have "cm_fine i k (accept_keys env d (accept_new_key env m n j c) j c)"
    by (rule fine_accept_keys [OF fine_quiet [OF _ quiet_accept(1)]])
  from fine_quiet [OF this quiet_accept(2)]
  have m9: "cm_fine i k (accept_replies env d (accept_keys env d (accept_new_key env m n j c) j c) n j c)" .
  show ?thesis
    using fine_media [OF m9 quiet_keys(5)] fine_quiet [OF m9 quiet_connect] m9 Some
    by (simp add: HandleCallAccept_def Let_def split: option.split)
qed (simp add: HandleCallAccept_def)

lemma quiet_twice [quiets]: "quiet_ext m (fst (send_twice d m n))"
  by (simp add: send_twice_def Let_def quiet_ext_def call_key_def harmless_def)

lemma quiet_relay_event: "quiet_ext m (m\<lparr>cm_relay := r\<rparr>)"
  by (simp add: quiet_same)

lemma transit_some: "cm_call m \<noteq> None \<Longrightarrow> cm_call (fst (transit now m t)) \<noteq> None"
  by (auto simp: transit_def Let_def split: option.split prod.split)

lemma fine_terminate: "cm_fine i k m \<Longrightarrow> cm_fine i k (HandleCallTerminate d m n)"
proof (cases "cm_call m")
  case (Some c)
  assume m: "cm_fine i k m"
  let ?t = "\<lambda>r. emitState (fst (transit (dr_now d) m (reason_transition TransitionTerminated r)))"
  have "cm_call (?t r) \<noteq> None" for r using transit_some [of m] Some by simp
  then have "cm_fine i k (emit (?t r) (OutEnded (the (cm_call (?t r)))))" for r
    by (intro fine_ended fine_transit m) simp
  from fine_quiet [OF this quiet_keys(6)] show ?thesis
    using Some by (simp add: HandleCallTerminate_def Let_def)
qed (simp add: HandleCallTerminate_def)

lemma fine_end: "cm_fine i k m \<Longrightarrow> cm_fine i k (fst (EndCall env d m reason))"
proof (cases "cm_call m")
  case (Some c)
  assume m: "cm_fine i k m"
  let ?t = "emitState (fst (transit (dr_now d) m (reason_transition TransitionTerminated reason)))"
  let ?s = "fst (send_twice d ?t (BuildTerminateStanza (dr_ids d 0) (ev_must_jid env (ci_peer c)) (ci_id c)
    (ev_must_jid env (ci_creator c))))"
  have call: "cm_call ?s = cm_call ?t" by (simp add: send_twice_def Let_def)
  have "cm_call ?t \<noteq> None" using transit_some [of m] Some by simp
  then have "cm_fine i k (emit ?s (OutEnded (the (cm_call ?t))))"
    by (intro fine_ended fine_quiet [OF fine_transit [OF m] quiet_twice]) (simp add: call)
  from fine_quiet [OF this quiet_keys(6)] show ?thesis
    using Some m by (simp add: EndCall_def Let_def case_prod_beta)
qed (simp add: EndCall_def)

lemma fine_reject: "cm_fine i k m \<Longrightarrow> cm_fine i k (fst (RejectCall env d m j reason))"
proof (cases "cm_call m")
  case (Some c)
  assume m: "cm_fine i k m"
  have "cm_fine i k (cleanupMedia (fst (send_twice d (emitState (fst (transit (dr_now d) m t))) n)))" for t n
    by (rule fine_quiet [OF fine_quiet [OF fine_transit [OF m] quiet_twice] quiet_keys(6)])
  then show ?thesis using Some m by (simp add: RejectCall_def Let_def case_prod_beta)
qed (simp add: RejectCall_def)

lemma quiet_setup [quiets]: "quiet_ext m (setupIncomingMedia env d m c rd)"
  by (simp add: setupIncomingMedia_def Let_def quiet_ext_def call_key_def)

lemma fine_accept_local: "cm_fine i k m \<Longrightarrow> cm_fine i k (fst (AcceptCall env d m j))"
proof (cases "cm_call m")
  case (Some c)
  assume m: "cm_fine i k m"
  define m1 where "m1 = emitState (fst (transit (dr_now d) m (simple_transition TransitionLocalAccepted)))"
  have m1: "cm_fine i k m1" unfolding m1_def by (rule fine_transit [OF m])
  have sent: "cm_fine i k (send_node m1 n)" for n by (rule fine_quiet [OF m1 quiet_send])
  have up: "cm_fine i k (connectRelays d (setupIncomingMedia env d x c rd) eps)" if "cm_fine i k x" for x rd eps
    by (rule fine_quiet [OF fine_quiet [OF that quiet_setup] quiet_connect])
  show ?thesis
    using Some m m1 sent up by (simp add: AcceptCall_def Let_def m1_def split: option.split sum.split)
qed (simp add: AcceptCall_def)

lemma fine_ringing: "cm_fine i k m \<Longrightarrow> cm_fine i k (HandleCallRinging d m)"
  by (simp add: HandleCallRinging_def case_prod_beta fine_transit)

lemma fine_relay_up: "cm_fine i k m \<Longrightarrow> cm_fine i k (onRelayConnected now m)"
proof -
  assume m: "cm_fine i k m"
  have "cm_fine i k (let (m', ok) = transit now m t in if ok then startSilenceKeepalive (emitState m') else m')" for t
    by (rule fine_media [OF m quiet_keys(5)])
  moreover have "cm_fine i k (emit x OutRelayConnected)" if "cm_fine i k x" for x
    by (rule fine_quiet [OF that quiet_emit]) (simp add: harmless_def)
  ultimately show ?thesis using m by (simp add: onRelayConnected_def Let_def split: option.split)
qed

lemma cm_apply_fine: "cm_fine i k m \<Longrightarrow> cm_fine i k (fst (cm_apply v d j ev m))"
  by (cases ev) (simp_all add: fine_accept fine_terminate fine_ringing fine_relay_up fine_accept_local fine_reject
      fine_end fine_quiet [OF _ quiet_transport] fine_quiet [OF _ quiet_ack] fine_quiet [OF _ quiet_relay_event]
      fine_quiet [OF _ quiet_relay_data] fine_quiet [OF _ quiet_media(1)] fine_quiet [OF _ quiet_media(2)]
      fine_quiet [OF _ quiet_media(3)] fine_quiet [OF _ quiet_media(4)])

section \<open>The entries of the registries\<close>

lemma get_upd_session [simp]:
  "gm_get (sv_sessions (upd_session s sid f)) sid' =
     (if sid' = sid then map_option f (gm_get (sv_sessions s) sid) else gm_get (sv_sessions s) sid')"
  by (auto simp: upd_session_def split: option.split)

lemma call_of_fields [simp]:
  "call_of (on_broker s g) = call_of s" "call_of (leg_acts s as) = call_of s" "call_of (s\<lparr>sv_rec := r\<rparr>) = call_of s"
  "call_of (s\<lparr>sv_broker := b\<rparr>) = call_of s" "call_of (s\<lparr>sv_rows := rows\<rparr>) = call_of s"
  "call_of (s\<lparr>sv_panel_inbound := p\<rparr>) = call_of s"
  by (auto simp: call_of_def on_broker_def leg_acts_def fun_eq_iff)

lemma call_of_upd_session:
  "(\<And>x. ss_reg (f x) = ss_reg x) \<Longrightarrow> call_of (upd_session s sid f) = call_of s"
  by (auto simp: call_of_def fun_eq_iff split: option.split)

lemma call_of_upd_reg:
  "call_of (upd_reg s sid f) sid' j =
     (if sid' = sid then (case gm_get (sv_sessions s) sid of None \<Rightarrow> None | Some x \<Rightarrow> reg_get (f (ss_reg x)) j)
      else call_of s sid' j)"
  by (auto simp: call_of_def upd_reg_def split: option.split)

lemma call_of_upd_call [simp]:
  "call_of (upd_call s sid i f) sid' j =
     (if sid' = sid \<and> j = i then map_option f (call_of s sid i) else call_of s sid' j)"
proof (cases "call_of s sid i")
  case (Some ac)
  then obtain x where x: "gm_get (sv_sessions s) sid = Some x" "reg_get (ss_reg x) i = Some ac"
    by (auto simp: call_of_def split: option.splits)
  then have "call_of s sid j = reg_get (ss_reg x) j" by (simp add: call_of_def)
  then show ?thesis using Some x by (simp add: upd_call_def call_of_upd_reg reg_get_def gm_get_put)
qed (simp add: upd_call_def)

lemma call_of_remove [simp]:
  "call_of (fst (removeCall s sid i)) sid' j = (if sid' = sid \<and> j = i then None else call_of s sid' j)"
proof (cases "call_of s sid i")
  case (Some ac)
  then obtain x where x: "gm_get (sv_sessions s) sid = Some x" "reg_get (ss_reg x) i = Some ac"
    by (auto simp: call_of_def split: option.splits)
  then have "call_of s sid j = reg_get (ss_reg x) j" by (simp add: call_of_def)
  then show ?thesis using Some x by (simp add: removeCall_def call_of_upd_reg reg_get_def gm_get_del)
qed (simp add: removeCall_def)

lemma call_of_finish [simp]:
  "call_of (finishCall w s sid c) sid' j = (if sid' = sid \<and> j = ci_id c then None else call_of s sid' j)"
  using call_of_remove [of "s\<lparr>sv_rec := r\<rparr>" for r] by (simp add: finishCall_def Let_def case_prod_beta)

lemma call_of_incoming [simp]: "call_of (onIncoming e w s sid c) = call_of s"
  by (simp add: onIncoming_def Let_def)

lemma call_of_agent [simp]: "call_of (answer_agent s sid i) = call_of s"
  by (auto simp: answer_agent_def split: option.split leg_kind.split)

text \<open>An entry as a callback leaves it: only its recorder, its flags, its counter and its timer move.\<close>

definition entry_moves :: "active_call \<Rightarrow> active_call \<Rightarrow> bool" where
  "entry_moves a a' \<longleftrightarrow> ac_cm a' = ac_cm a \<and> ac_leg a' = ac_leg a \<and> (ac_relayed a \<longrightarrow> ac_relayed a')
     \<and> (ac_timer a \<longrightarrow> ac_timer a' \<or> ac_relayed a' \<or> 3 \<le> rank_of (ac_cm a))"

lemma moves_refl: "entry_moves a a"
  by (simp add: entry_moves_def)

lemma moves_trans: "entry_moves a b \<Longrightarrow> entry_moves b c \<Longrightarrow> entry_moves a c"
  by (auto simp: entry_moves_def)

definition entry_rel :: "server \<Rightarrow> server \<Rightarrow> string \<Rightarrow> string \<Rightarrow> bool" where
  "entry_rel s s' sid i \<longleftrightarrow>
     (\<forall>sid' j. (sid', j) \<noteq> (sid, i) \<longrightarrow> call_of s' sid' j = call_of s sid' j)
     \<and> (\<forall>a'. call_of s' sid i = Some a' \<longrightarrow> (\<exists>a. call_of s sid i = Some a \<and> entry_moves a a'))"

lemma entry_rel_refl: "entry_rel s s sid i"
  by (auto simp: entry_rel_def moves_refl)

lemma entry_rel_trans: "entry_rel s t sid i \<Longrightarrow> entry_rel t u sid i \<Longrightarrow> entry_rel s u sid i"
  unfolding entry_rel_def by (fastforce dest: moves_trans)

lemma entry_rel_same: "call_of s' = call_of s \<Longrightarrow> entry_rel s s' sid i"
  by (auto simp: entry_rel_def moves_refl)

lemma entry_rel_upd: "(\<And>a. call_of s sid i = Some a \<Longrightarrow> entry_moves a (f a)) \<Longrightarrow> entry_rel s (upd_call s sid i f) sid i"
  by (auto simp: entry_rel_def)

lemma entry_rel_recording: "entry_rel s (startRecordingIfArmed w s sid i) sid i"
proof -
  have "entry_rel s (upd_call (s\<lparr>sv_rec := r\<rparr>) sid i (\<lambda>a. a\<lparr>ac_rec := p\<rparr>)) sid i" for r p
    by (rule entry_rel_trans [OF entry_rel_same entry_rel_upd]) (auto simp: entry_moves_def)
  then show ?thesis
    by (auto simp: startRecordingIfArmed_def Let_def entry_rel_same split: option.split prod.split)
qed

lemma entry_rel_finish: "ci_id c = i \<Longrightarrow> entry_rel s (finishCall w s sid c) sid i"
  by (auto simp: entry_rel_def)

lemma entry_rel_state:
  assumes "ci_id c = i" and "\<And>a. call_of s sid i = Some a \<Longrightarrow> Suc (call_rank (ci_state c)) \<le> rank_of (ac_cm a)"
  shows "entry_rel s (onStateChange e w s sid c) sid i"
proof (cases "IsEnded c")
  case True
  then show ?thesis using assms(1) by (simp add: onStateChange_def entry_rel_finish)
next
  case False
  define s1 where "s1 = (if ci_state c \<in> {CallStateActive, CallStateConnecting} then stopTimeout s sid i else s)"
  define s2 where "s2 = (if ci_state c = CallStateActive
    then answer_agent (startRecordingIfArmed w s1 sid i) sid i else s1)"
  have "entry_rel s s1 sid i"
    using assms(2) by (auto simp: s1_def stopTimeout_def entry_moves_def entry_rel_refl intro!: entry_rel_upd)
  moreover have "entry_rel s1 s2 sid i"
    using entry_rel_trans [OF entry_rel_recording entry_rel_same [OF call_of_agent], of s1 w sid i]
    by (simp add: s2_def entry_rel_refl)
  moreover have "entry_rel s2 (onStateChange e w s sid c) sid i"
    using False assms(1) by (intro entry_rel_same) (simp add: onStateChange_def Let_def s1_def s2_def)
  ultimately show ?thesis by (blast intro: entry_rel_trans)
qed

lemma entry_rel_audio: "entry_rel s (onPeerAudio w s sid i frame) sid i"
proof (cases "call_of s sid i")
  case (Some ac)
  define s1 where "s1 = (if ac_tried ac then s
    else startRecordingIfArmed w (upd_call s sid i (\<lambda>a. a\<lparr>ac_tried := True\<rparr>)) sid i)"
  define s2 where "s2 = (case ac_leg ac of None \<Rightarrow> s1
    | Some l \<Rightarrow> (let s' = leg_acts s1 [LegWrote l frame]
                 in if dw_write w then s' else upd_call s' sid i (\<lambda>a. a\<lparr>ac_errors := ac_errors a + 1\<rparr>)))"
  have "entry_rel s s1 sid i"
    unfolding s1_def
    by (auto intro!: entry_rel_trans [OF entry_rel_upd entry_rel_recording] simp: entry_rel_refl entry_moves_def)
  moreover have "entry_rel s1 s2 sid i"
  proof -
    have "entry_rel s1 (upd_call (leg_acts s1 x) sid i (\<lambda>a. a\<lparr>ac_errors := ac_errors a + 1\<rparr>)) sid i" for x
      by (rule entry_rel_trans [OF entry_rel_same entry_rel_upd]) (auto simp: entry_moves_def)
    then show ?thesis
      unfolding s2_def by (auto simp: Let_def entry_rel_refl entry_rel_same split: option.split)
  qed
  moreover have "entry_rel s2 (onPeerAudio w s sid i frame) sid i"
  proof (rule entry_rel_same)
    have "onPeerAudio w s sid i frame = (case call_of s2 sid i of None \<Rightarrow> s2
        | Some ac2 \<Rightarrow> (case ac_rec ac2 of None \<Rightarrow> s2
            | Some path \<Rightarrow> s2\<lparr>sv_rec := rec_feed False (sv_rec s2) path frame\<rparr>))"
      unfolding onPeerAudio_def Some option.case Let_def s1_def s2_def ..
    then show "call_of (onPeerAudio w s sid i frame) = call_of s2" by (simp split: option.split)
  qed
  ultimately show ?thesis by (blast intro: entry_rel_trans)
qed (simp add: onPeerAudio_def entry_rel_refl)

lemma entry_rel_up: "entry_rel s (onRelayUp s sid i) sid i"
  unfolding onRelayUp_def by (rule entry_rel_upd) (simp add: entry_moves_def)

text \<open>One callback of a handler that was run for this call and ended with \<open>m\<close>.\<close>

definition out_fits :: "string \<Rightarrow> call_mgr \<Rightarrow> cm_output \<Rightarrow> bool" where
  "out_fits i m out \<longleftrightarrow> (case out of OutState c \<Rightarrow> ci_id c = i \<and> Suc (call_rank (ci_state c)) \<le> rank_of m
     | OutEnded c \<Rightarrow> ci_id c = i | _ \<Rightarrow> True)"

lemma entry_rel_callback:
  assumes "out_fits i m out" and "\<And>a. call_of s sid i = Some a \<Longrightarrow> ac_cm a = m"
  shows "entry_rel s (call_back e w sid i s out) sid i"
proof (cases out)
  case (OutState c)
  then show ?thesis using assms entry_rel_state [of c i s sid] by (simp add: call_back_def out_fits_def)
next
  case (OutEnded c)
  then show ?thesis using assms by (simp add: call_back_def out_fits_def entry_rel_finish)
qed (simp_all add: call_back_def entry_rel_refl entry_rel_same entry_rel_audio entry_rel_up)

lemma entry_rel_callbacks:
  assumes "list_all (out_fits i m) outs" and "\<And>a. call_of s sid i = Some a \<Longrightarrow> ac_cm a = m"
  shows "entry_rel s (foldl (call_back e w sid i) s outs) sid i"
  using assms
proof (induction outs arbitrary: s)
  case (Cons out outs)
  have 1: "entry_rel s (call_back e w sid i s out) sid i"
    by (rule entry_rel_callback [where m = m]) (use Cons.prems in auto)
  then have "ac_cm a = m" if "call_of (call_back e w sid i s out) sid i = Some a" for a
    using that Cons.prems(2) by (auto simp: entry_rel_def entry_moves_def)
  from Cons.IH [OF _ this] Cons.prems(1) 1 show ?case by (auto intro: entry_rel_trans)
qed (simp add: entry_rel_refl)

text \<open>A callback with the end of the call takes it out of the registry, and nothing brings it back.\<close>

lemma callbacks_end:
  assumes "list_all (out_fits i m) outs" and "\<And>a. call_of s sid i = Some a \<Longrightarrow> ac_cm a = m"
    and "OutState c \<in> set outs" and "IsEnded c"
  shows "call_of (foldl (call_back e w sid i) s outs) sid i = None"
  using assms
proof (induction outs arbitrary: s)
  case (Cons out outs)
  let ?s = "call_back e w sid i s out"
  have 1: "entry_rel s ?s sid i"
    by (rule entry_rel_callback [where m = m]) (use Cons.prems in auto)
  have fits: "list_all (out_fits i m) outs" using Cons.prems(1) by simp
  have cm: "ac_cm a = m" if "call_of ?s sid i = Some a" for a
    using that 1 Cons.prems(2) by (auto simp: entry_rel_def entry_moves_def)
  show ?case
  proof (cases "out = OutState c")
    case True
    then have "call_of ?s sid i = None" using Cons.prems(1,4) by (simp add: call_back_def onStateChange_def out_fits_def)
    moreover have "entry_rel ?s (foldl (call_back e w sid i) ?s outs) sid i"
      by (rule entry_rel_callbacks [OF fits cm])
    ultimately show ?thesis unfolding entry_rel_def by (cases "call_of (foldl (call_back e w sid i) ?s outs) sid i") simp_all
  next
    case False
    then show ?thesis using Cons.IH [OF fits cm] Cons.prems(3,4) by auto
  qed
qed simp

section \<open>No call goes unwatched\<close>

text \<open>
  An entry under the id of its call, not ended, that is still watched by its timer unless a relay
  came up or the call was answered.
\<close>

definition entry_ok :: "string \<Rightarrow> active_call \<Rightarrow> bool" where
  "entry_ok i a \<longleftrightarrow> (\<forall>j st. call_key (ac_cm a) = Some (j, st) \<longrightarrow> j = i \<and> st \<noteq> CallStateEnded)
     \<and> (ac_timer a \<or> ac_relayed a \<or> 3 \<le> rank_of (ac_cm a))"

definition calls_watched :: "server \<Rightarrow> bool" where
  "calls_watched s \<longleftrightarrow> (\<forall>sid i a. call_of s sid i = Some a \<longrightarrow> entry_ok i a)"

lemma fine_outs: "cm_fine i k m \<Longrightarrow> list_all (out_fits i m) (cm_out m)"
  by (auto simp: cm_fine_def cm_traced_def list_all_iff out_fits_def split: cm_output.split)

lemma fine_key: "cm_fine i k m \<Longrightarrow> call_key m = Some (j, st) \<Longrightarrow> j = i"
  by (simp add: cm_fine_def cm_traced_def)

lemma fine_start:
  "entry_ok i a \<Longrightarrow> cm_fine i (rank_of (ac_cm a)) ((ac_cm a)\<lparr>cm_out := []\<rparr>)"
  using rank_5 [of "ac_cm a"]
  by (cases "call_key (ac_cm a)")
     (auto simp: entry_ok_def cm_fine_def cm_traced_def cm_told_def rank_of_def call_key_def)

lemma run_cm_entries:
  assumes a: "call_of s sid i = Some a"
    and fine: "cm_fine i (rank_of (ac_cm a)) (fst (h ((ac_cm a)\<lparr>cm_out := []\<rparr>)))"
    and watched: "ac_timer a \<or> ac_relayed a \<or> 3 \<le> rank_of (ac_cm a)"
  shows "(\<forall>sid' j. (sid', j) \<noteq> (sid, i) \<longrightarrow> call_of (fst (run_cm e w s sid i h)) sid' j = call_of s sid' j)
    \<and> (\<forall>a'. call_of (fst (run_cm e w s sid i h)) sid i = Some a' \<longrightarrow> entry_ok i a' \<and> ac_leg a' = ac_leg a)"
proof -
  define m where "m = fst (h ((ac_cm a)\<lparr>cm_out := []\<rparr>))"
  define s1 where "s1 = upd_call s sid i (\<lambda>a. a\<lparr>ac_cm := m\<rparr>)"
  define s2 where "s2 = foldl (call_back e w sid i) s1 (cm_out m)"
  have s2: "fst (run_cm e w s sid i h) = s2"
    using a by (simp add: run_cm_def case_prod_beta Let_def s2_def s1_def m_def)
  have m: "cm_fine i (rank_of (ac_cm a)) m" using fine by (simp add: m_def)
  have s1: "call_of s1 sid i = Some (a\<lparr>ac_cm := m\<rparr>)" using a by (simp add: s1_def)
  then have cm: "ac_cm x = m" if "call_of s1 sid i = Some x" for x using that by simp
  have rel: "entry_rel s1 s2 sid i"
    unfolding s2_def by (rule entry_rel_callbacks [OF fine_outs [OF m] cm])
  have "entry_ok i a' \<and> ac_leg a' = ac_leg a" if a': "call_of s2 sid i = Some a'" for a'
  proof -
    have moves: "entry_moves (a\<lparr>ac_cm := m\<rparr>) a'" using rel s1 a' by (auto simp: entry_rel_def)
    have "st \<noteq> CallStateEnded" if st: "call_key m = Some (j, st)" for j st
    proof
      assume "st = CallStateEnded"
      then have "rank_of m = 5" using rank_5 [OF st] by simp
      then obtain c where "OutState c \<in> set (cm_out m)" "IsEnded c"
        using m by (auto simp: cm_fine_def cm_told_def)
      from callbacks_end [OF fine_outs [OF m] cm this] show False using a' by (simp add: s2_def)
    qed
    moreover have "rank_of (ac_cm a) \<le> rank_of m" using m by (simp add: cm_fine_def cm_traced_def)
    ultimately show ?thesis
      using moves watched fine_key [OF m] by (auto simp: entry_ok_def entry_moves_def)
  qed
  moreover have "call_of s2 sid' j = call_of s sid' j" if "(sid', j) \<noteq> (sid, i)" for sid' j
    using rel that by (auto simp: entry_rel_def s1_def)
  ultimately show ?thesis unfolding s2 by blast
qed

lemma watched_run_cm:
  assumes "calls_watched s"
    and "\<And>a. call_of s sid i = Some a \<Longrightarrow> entry_ok i a
           \<Longrightarrow> cm_fine i (rank_of (ac_cm a)) (fst (h ((ac_cm a)\<lparr>cm_out := []\<rparr>)))"
  shows "calls_watched (fst (run_cm e w s sid i h))"
proof (cases "call_of s sid i")
  case None
  then show ?thesis using assms(1) by (simp add: run_cm_def)
next
  case (Some a)
  then have ok: "entry_ok i a" using assms(1) by (simp add: calls_watched_def)
  have "ac_timer a \<or> ac_relayed a \<or> 3 \<le> rank_of (ac_cm a)" using ok by (simp add: entry_ok_def)
  note run = run_cm_entries [where e = e and w = w and h = h, OF Some assms(2) [OF Some ok] this]
  show ?thesis
    unfolding calls_watched_def
  proof (intro allI impI)
    fix sid' j a' assume a': "call_of (fst (run_cm e w s sid i h)) sid' j = Some a'"
    show "entry_ok j a'"
    proof (cases "(sid', j) = (sid, i)")
      case True
      then show ?thesis using run a' by simp
    next
      case False
      then show ?thesis using run a' assms(1) by (auto simp: calls_watched_def)
    qed
  qed
qed

lemma watched_cm_step: "calls_watched s \<Longrightarrow> calls_watched (fst (cm_step e w s sid i ev))"
  unfolding cm_step_def by (rule watched_run_cm) (auto intro: cm_apply_fine fine_start)

lemma watched_same: "call_of s' = call_of s \<Longrightarrow> calls_watched s \<Longrightarrow> calls_watched s'"
  by (simp add: calls_watched_def)

lemma watched_cong [simp]:
  "calls_watched (on_broker s g) = calls_watched s" "calls_watched (leg_acts s as) = calls_watched s"
  "calls_watched (s\<lparr>sv_rec := r\<rparr>) = calls_watched s" "calls_watched (s\<lparr>sv_rows := rows\<rparr>) = calls_watched s"
  "calls_watched (s\<lparr>sv_broker := b\<rparr>) = calls_watched s"
  by (simp_all add: calls_watched_def)

lemma watched_remove: "calls_watched s \<Longrightarrow> calls_watched (fst (removeCall s sid i))"
  by (simp add: calls_watched_def)

lemma call_of_upd_reg_same: "(\<And>r. rg_calls (f r) = rg_calls r) \<Longrightarrow> call_of (upd_reg s sid f) = call_of s"
  by (auto simp: call_of_upd_reg call_of_def [of s] reg_get_def fun_eq_iff split: option.split)

lemma call_of_create [simp]:
  "call_of (createCall s sid i) sid' j =
     (if sid' = sid \<and> j = i \<and> gm_get (sv_sessions s) sid \<noteq> None then Some new_call else call_of s sid' j)"
  by (auto simp: createCall_def call_of_upd_reg reg_add_def reg_get_def gm_get_put call_of_def [of s sid]
      split: option.split)

lemma created_call_ok: "entry_ok i new_call"
  by (simp add: entry_ok_def new_call_def NewCallManager_def call_key_def)

lemma watched_create: "calls_watched s \<Longrightarrow> calls_watched (createCall s sid i)"
  by (simp add: calls_watched_def created_call_ok)

text \<open>The two handlers that make the call: on a new call manager.\<close>

lemma fine_StartCall:
  assumes "cm_call m = None" and "cm_out m = []"
  shows "cm_fine i 0 (fst (StartCall v d m i isVideo))"
proof -
  define c where "c = (NewOutgoingCall (dr_now d) i (dr_resolved d) (ownCredJid v)
    (if isVideo then CallMediaTypeVideo else CallMediaTypeAudio))\<lparr>ci_key := Some (dr_key d)\<rparr>"
  define m2 where "m2 = emitState (init_media v d (m\<lparr>cm_call := Some c, cm_initial_transport := False,
    cm_preaccept_sent := False\<rparr>) i (dr_resolved d))"
  have "cm_traced i 0 (init_media v d (m\<lparr>cm_call := Some c, cm_initial_transport := False,
      cm_preaccept_sent := False\<rparr>) i (dr_resolved d))"
    using assms(2) by (simp add: cm_traced_def call_key_def rank_of_def c_def NewOutgoingCall_def)
  then have m2: "cm_fine i 0 m2" unfolding m2_def by (rule fine_told)
  have q: "cm_fine i 0 (emit m2 (OutQuery x))" for x
    by (rule fine_quiet [OF m2 quiet_emit]) (simp add: harmless_def)
  have "StartCall v d m i isVideo =
    (case BuildOfferStanza (ev_own_lid v) (ev_own_pn v) (dr_identity d) (dr_participants d) (dr_tctoken d)
        (dr_ids d 0) i (dr_resolved d) isVideo of
       Inl x \<Rightarrow> (m2, Inl (StanzaError x))
     | Inr offer \<Rightarrow> (case dr_query d of Inl x \<Rightarrow> (emit m2 (OutQuery offer), Inl (StanzaError x))
         | Inr ack \<Rightarrow> (emitState (fst (transit (dr_now d) (emit m2 (OutQuery offer))
             (simple_transition TransitionOfferSent))), Inr ack)))"
    unfolding StartCall_def assms option.case if_False Let_def c_def m2_def ..
  then show ?thesis using m2 q fine_transit [OF q] by (simp split: sum.split)
qed

lemma fine_HandleCallOffer:
  assumes "cm_call m = None" and "cm_out m = []" and "callIDFromNode n = i"
  shows "cm_fine i 0 (fst (HandleCallOffer v d m n from))"
proof (cases "ExtractNodeInfo n")
  case None
  then show ?thesis using assms
    by (simp add: HandleCallOffer_def cm_fine_def cm_traced_def cm_told_def call_key_def rank_of_def)
next
  case (Some info)
  have "ci_id c = i \<Longrightarrow> cm_fine i 0 (emitState (emit (send_node (init_media v d
      (m\<lparr>cm_call := Some c, cm_initial_transport := False\<rparr>) i from) x) (OutIncoming c)))" for c x
    using assms(2) by (intro fine_told) (simp add: cm_traced_def call_key_def rank_of_def)
  then show ?thesis using Some assms(3)
    by (simp add: HandleCallOffer_def Let_def callIDFromNode_def NewIncomingCall_def)
qed

lemma watched_made:
  assumes "calls_watched s" and "\<And>m. cm_call m = None \<Longrightarrow> cm_out m = [] \<Longrightarrow> cm_fine i 0 (fst (h m))"
    and "call_of s sid i = None"
  shows "calls_watched (fst (run_cm e w (createCall s sid i) sid i h))"
proof (rule watched_run_cm [OF watched_create [OF assms(1)]])
  fix a assume "call_of (createCall s sid i) sid i = Some a"
  then have "a = new_call"
    using assms(3) by (simp split: if_splits)
  then show "cm_fine i (rank_of (ac_cm a)) (fst (h ((ac_cm a)\<lparr>cm_out := []\<rparr>)))"
    by (simp add: new_call_def NewCallManager_def rank_of_def call_key_def assms(2))
qed

lemma watched_outgoing:
  assumes "calls_watched s" and "call_of s sid i = None"
  shows "calls_watched (fst (startOutgoing e w s sid i v))"
proof -
  have "calls_watched (fst (run_cm e w (createCall s sid i) sid i (\<lambda>m. StartCall (se_voip e sid) (dw_cm w) m i v)))"
    by (rule watched_made [OF assms(1) fine_StartCall assms(2)])
  then show ?thesis
    by (auto simp: startOutgoing_def watched_remove split: prod.split option.split sum.split)
qed

lemma watched_offer:
  assumes "calls_watched s" shows "calls_watched (onIncomingOffer e w s sid inner from age)"
proof -
  let ?n = "wrapCall from inner"
  let ?i = "callIDFromNode ?n"
  let ?r = "run_cm e w (createCall s sid ?i) sid ?i (\<lambda>m. HandleCallOffer (se_voip e sid) (dw_cm w) m ?n from)"
  have "onIncomingOffer e w s sid inner from age = s \<or> call_of s sid ?i = None
    \<and> (onIncomingOffer e w s sid inner from age = fst ?r
       \<or> onIncomingOffer e w s sid inner from age = fst (removeCall (fst ?r) sid ?i))"
    by (auto simp: onIncomingOffer_def Let_def call_of_def case_prod_beta split: option.splits if_splits bool.splits)
  moreover have "call_of s sid ?i = None \<Longrightarrow> calls_watched (fst ?r)"
    by (rule watched_made [OF assms]) (simp_all add: fine_HandleCallOffer)
  ultimately show ?thesis using assms watched_remove by auto
qed

lemma watched_end: "calls_watched s \<Longrightarrow> calls_watched (end_with e w s sid i reason)"
  unfolding end_with_def
  by (rule watched_run_cm) (auto intro: fine_end fine_start)

lemma watched_timeout: "calls_watched s \<Longrightarrow> calls_watched (ringing_timeout e w s sid i)"
  by (simp add: ringing_timeout_def watched_remove watched_end)

text \<open>When nothing of a session is registered any more, late callbacks find nothing.\<close>

lemma callback_gone:
  assumes "\<forall>j. call_of s sid j = None"
  shows "call_of (call_back e w sid i s out) = call_of s"
proof -
  have "upd_call s sid j f = s" for j f using assms by (simp add: upd_call_def)
  moreover have "startRecordingIfArmed w s sid j = s" for j using assms by (simp add: startRecordingIfArmed_def)
  moreover have "answer_agent s sid j = s" for j using assms by (simp add: answer_agent_def)
  moreover have "call_of (finishCall w s sid c) = call_of s" for c using assms by (auto simp: fun_eq_iff)
  ultimately show ?thesis using assms
    by (simp add: call_back_def onStateChange_def stopTimeout_def Let_def onPeerAudio_def onRelayUp_def
        split: cm_output.split)
qed

lemma callbacks_gone:
  assumes "\<forall>j. call_of s sid j = None"
  shows "call_of (foldl (call_back e w sid i) s outs) = call_of s"
  using assms
proof (induction outs arbitrary: s)
  case (Cons out outs)
  then show ?case using callback_gone [OF Cons.prems, of e w i out] Cons.IH [of "call_back e w sid i s out"] by simp
qed simp

lemma drained_gone:
  assumes "\<forall>j. call_of s sid j = None"
  shows "call_of (foldl (end_drained e w sid) s ps) = call_of s"
  using assms
proof (induction ps arbitrary: s)
  case (Cons p ps)
  have "call_of (end_drained e w sid s p) = call_of s"
    by (cases p) (simp add: end_drained_def Let_def callbacks_gone [OF Cons.prems])
  with Cons show ?case by simp
qed simp

lemma call_of_teardown [simp]:
  "call_of (teardownAllCalls e w s sid) sid' j = (if sid' = sid then None else call_of s sid' j)"
proof (cases "gm_get (sv_sessions s) sid")
  case (Some x)
  let ?d = "upd_reg s sid (\<lambda>r. fst (drain r))"
  have d: "call_of ?d sid' j = (if sid' = sid then None else call_of s sid' j)" for sid' j
    using Some by (simp add: call_of_upd_reg drain_def reg_get_def)
  then show ?thesis using Some drained_gone [of ?d sid e w "rg_calls (ss_reg x)"] by (simp add: teardownAllCalls_def)
qed (auto simp: teardownAllCalls_def call_of_def)

lemma call_of_setAuth [simp]: "call_of (setAuth s sid a) = call_of s"
  by (simp add: setAuth_def list_sessions_def Let_def call_of_upd_session)

lemma call_of_list [simp]: "call_of (list_sessions s) = call_of s"
  by (simp add: list_sessions_def)

lemma call_of_jid [simp]: "call_of (setJID ok s sid j) = call_of s"
  by (simp add: setJID_def split: option.split)

lemma call_of_shutdown [simp]:
  "call_of (shutdown e w s sid) sid' j = (if sid' = sid then None else call_of s sid' j)"
  "call_of (replaceClient e w s sid) sid' j = (if sid' = sid then None else call_of s sid' j)"
  by (simp_all add: shutdown_def replaceClient_def call_of_upd_session)

lemma watched_fewer:
  "calls_watched s \<Longrightarrow> (\<And>sid i. call_of s' sid i = None \<or> call_of s' sid i = call_of s sid i) \<Longrightarrow> calls_watched s'"
  unfolding calls_watched_def by (metis option.distinct(1))

lemma watched_or_gone:
  "calls_watched s \<Longrightarrow> call_of s' = (\<lambda>sid' j. if sid' = sid then None else call_of s sid' j) \<Longrightarrow> calls_watched s'"
  by (rule watched_fewer) auto

lemma call_of_leg [simp]:
  "call_of (setBridge s sid i l) sid' j =
     (if sid' = sid \<and> j = i then map_option (\<lambda>a. a\<lparr>ac_leg := Some l\<rparr>) (call_of s sid i) else call_of s sid' j)"
proof -
  have "call_of (upd_reg s sid (\<lambda>r. fst (reg_setBridge ac_leg (\<lambda>x a. a\<lparr>ac_leg := x\<rparr>) r i (Some l)))) sid' j
      = (if sid' = sid \<and> j = i then map_option (\<lambda>a. a\<lparr>ac_leg := Some l\<rparr>) (call_of s sid i) else call_of s sid' j)"
    by (auto simp: call_of_upd_reg reg_setBridge_def reg_get_def gm_get_put call_of_def [of s sid]
        split: option.split)
  then show ?thesis by (auto simp: setBridge_def Let_def split: option.split)
qed

lemma entry_ok_leg [simp]: "entry_ok i (a\<lparr>ac_leg := l\<rparr>) = entry_ok i a"
  by (simp add: entry_ok_def)

lemma watched_manager_parts [simp]:
  "calls_watched (setAuth s sid a) = calls_watched s" "calls_watched (list_sessions s) = calls_watched s"
  "calls_watched (setJID ok s sid j) = calls_watched s"
  "(\<And>x. ss_reg (f x) = ss_reg x) \<Longrightarrow> calls_watched (upd_session s sid f) = calls_watched s"
  by (simp_all add: calls_watched_def call_of_upd_session)

lemma watched_down:
  "calls_watched s \<Longrightarrow> calls_watched (shutdown e w s sid)"
  "calls_watched s \<Longrightarrow> calls_watched (replaceClient e w s sid)"
  "calls_watched s \<Longrightarrow> calls_watched (teardownAllCalls e w s sid)"
  "calls_watched s \<Longrightarrow> calls_watched (unregister s sid)"
proof -
  have "call_of (unregister s sid) = (\<lambda>sid' j. if sid' = sid then None else call_of s sid' j)"
    by (auto simp: unregister_def call_of_def gm_get_del fun_eq_iff)
  then show "calls_watched s \<Longrightarrow> calls_watched (unregister s sid)" by (rule watched_or_gone [rotated])
qed (rule watched_or_gone [where sid = sid], assumption, simp add: fun_eq_iff)+

lemma watched_leg: "calls_watched s \<Longrightarrow> calls_watched (setBridge s sid i l)"
  unfolding calls_watched_def by auto

lemma watched_hang_up: "calls_watched s \<Longrightarrow> calls_watched (fst (hang_up e w s sid i ev reason ok_reply))"
proof (cases "findCall s sid i")
  case (Some x)
  assume w: "calls_watched s"
  obtain s1 r where step: "cm_step e w s x i ev = (s1, r)" by (cases "cm_step e w s x i ev")
  then have "calls_watched s1" using watched_cm_step [OF w, of e w x i ev] by simp
  then show ?thesis using Some step
    by (simp add: hang_up_def watched_remove watched_same [OF call_of_fields(1)] split: option.split)
qed (simp add: hang_up_def)

lemma watched_accept: "calls_watched s \<Longrightarrow> calls_watched (fst (doAccept e w s sid i client claim want clinic inbound))"
proof (cases "findCall s sid i")
  case (Some x)
  assume w: "calls_watched s"
  let ?owner = "if client = [] then ''claim-'' @ claim else client"
  let ?c = "setOwner (getWebhookURL s) (sv_broker s) i ?owner"
  define s1 where "s1 = on_broker (s\<lparr>sv_broker := fst ?c\<rparr>) (\<lambda>hook b. emitIncomingClaimed hook b x i ?owner)"
  define s2 where "s2 = (if want \<or> inbound = Some True
    then arm_call s1 x i clinic ''inbound'' (case getCall (sv_broker s1) i of None \<Rightarrow> [] | Some r \<Rightarrow> cr_peer r) else s1)"
  have "calls_watched s2" using w by (simp add: s2_def s1_def arm_call_def)
  moreover obtain s3 r where step: "cm_step e w s2 x i CmAcceptCall = (s3, r)"
    by (cases "cm_step e w s2 x i CmAcceptCall")
  ultimately have "calls_watched s3" using watched_cm_step [of s2 e w x i CmAcceptCall] by simp
  moreover have "fst (doAccept e w s sid i client claim want clinic inbound) = (if \<not> snd ?c then s else s3)"
    unfolding doAccept_def Some option.case Let_def case_prod_beta s1_def [symmetric] s2_def [symmetric]
    using step by (simp split: option.split)
  ultimately show ?thesis using w by simp
qed (simp add: doAccept_def)

lemma watched_finish: "calls_watched s \<Longrightarrow> calls_watched (start_finish w s sid q number peer i n)"
proof -
  assume w: "calls_watched s"
  have 1: "calls_watched (upd_reg s sid (\<lambda>r. bindPeer r number i))"
    by (rule watched_same [OF call_of_upd_reg_same w]) (simp add: bindPeer_def)
  have 2: "calls_watched (attachAgent s' sid i n)" if "calls_watched s'" for s'
    using that by (simp add: attachAgent_def watched_leg)
  have 3: "calls_watched (arm_call s' sid i a b c)" if "calls_watched s'" for s' a b c
    using that by (rule watched_same [rotated]) (simp add: arm_call_def)
  show ?thesis
    by (rule watched_same [where s = "if sr_record q then arm_call
          (if sr_agent q then attachAgent (upd_reg s sid (\<lambda>r. bindPeer r number i)) sid i n
           else upd_reg s sid (\<lambda>r. bindPeer r number i)) sid i (sr_clinic q) ''outbound'' peer
        else (if sr_agent q then attachAgent (upd_reg s sid (\<lambda>r. bindPeer r number i)) sid i n
           else upd_reg s sid (\<lambda>r. bindPeer r number i))"])
       (simp_all add: start_finish_def Let_def case_prod_beta 1 2 3)
qed

lemma watched_event: "calls_watched s \<Longrightarrow> calls_watched (handleEvent e w s sid ev)"
proof -
  assume w: "calls_watched s"
  have "calls_watched (to_call e w s sid i ev)" for i ev
    using w by (simp add: to_call_def watched_cm_step split: option.split)
  moreover have "call_of (handleEvent e w s sid WaConnected) = call_of s"
    by (simp add: Let_def call_of_upd_session split: option.split)
  ultimately show ?thesis using w
    by (cases ev) (simp_all del: handleEvent.simps(1) add: watched_same [of _ s] watched_offer call_of_upd_session)
qed

lemma watched_stop_all: "calls_watched s \<Longrightarrow> calls_watched (stopForMigration e w s)"
proof -
  have "calls_watched s \<Longrightarrow> calls_watched (foldl (\<lambda>s k. case gm_get (sv_sessions s) k of None \<Rightarrow> s
      | Some x \<Rightarrow> setAuth (shutdown e w s k) k (auth ''stopped'' (ss_jid x \<noteq> None) [])) s ks)" for ks
    by (induction ks arbitrary: s) (simp_all add: watched_down split: option.split)
  then show "calls_watched s \<Longrightarrow> ?thesis" by (simp add: stopForMigration_def)
qed

lemma call_of_reconnect: "call_of (reconnectAll connects s) = call_of s"
proof -
  have "call_of (foldl (\<lambda>s k. case gm_get (sv_sessions s) k of None \<Rightarrow> s
      | Some x \<Rightarrow> (if ss_jid x = None then s
           else upd_session (setAuth s k (auth ''connecting'' True [])) k
             (\<lambda>y. y\<lparr>ss_online := connects k\<rparr>))) s ks) = call_of s" for ks
    by (induction ks arbitrary: s) (simp_all add: call_of_upd_session split: option.split)
  then show ?thesis by (simp add: reconnectAll_def)
qed

lemma call_of_reserve: "call_of (fst (start_reserve s sid number)) = call_of s"
proof (cases "gm_get (sv_sessions s) sid")
  case (Some x)
  then show ?thesis
    by (auto simp: start_reserve_def reservePeer_def call_of_def reg_get_def upd_reg_def fun_eq_iff
        split: option.split)
qed (simp add: start_reserve_def)

lemma call_of_registered:
  "\<not> gm_has (sv_sessions s) sid
     \<Longrightarrow> call_of (register (s\<lparr>sv_rows := rows\<rparr>) (new_session sid name wh pan jid)) = call_of s"
  by (auto simp: register_def call_of_def new_session_def newCallRegistry_def reg_get_def gm_has_def gm_get_put fun_eq_iff
      split: option.split)

lemma watched_manager:
  assumes "calls_watched s"
  shows "calls_watched (fst (Stop e w s sid))" "calls_watched (fst (PairSession e w p s sid))"
    "calls_watched (fst (Start e w c p s sid))" "calls_watched (fst (Logout e w s sid))"
    "calls_watched (fst (Delete e w s sid))"
    "\<not> gm_has (sv_sessions s) sid \<Longrightarrow> calls_watched (fst (Create s stored p sid name))"
proof -
  show "calls_watched (fst (Stop e w s sid))"
    using assms by (simp add: Stop_def watched_down split: option.split)
  show pair: "calls_watched (fst (PairSession e w p s sid))"
    using assms by (simp add: PairSession_def Let_def watched_down split: option.split)
  show "calls_watched (fst (Start e w c p s sid))"
    using assms pair by (simp add: Start_def Let_def split: option.split)
  show "calls_watched (fst (Logout e w s sid))"
    using assms by (simp add: Logout_def watched_down split: option.split)
  show "calls_watched (fst (Delete e w s sid))"
    using assms by (simp add: Delete_def Let_def watched_down split: option.split)
  assume "\<not> gm_has (sv_sessions s) sid"
  then show "calls_watched (fst (Create s stored p sid name))"
    using assms by (simp add: Create_def Let_def watched_same [OF call_of_registered])
qed

lemma watched_step: "calls_watched s \<Longrightarrow> calls_watched (srv_step e s p)"
proof (cases p)
  case (Pair w ev)
  assume s: "calls_watched s"
  show ?thesis
  proof (cases ev)
    case (SvPairing sid q)
    have "call_of (pairing_event w s sid q) = call_of s"
      by (cases q) (simp_all split: option.split)
    then show ?thesis using s Pair SvPairing by (simp add: watched_same [of _ s])
  next
    case (SvReserve sid number)
    then show ?thesis using s Pair by (simp add: watched_same [OF call_of_reserve])
  next
    case (SvRelease sid number)
    have "call_of (release s sid number) = call_of s"
      unfolding release_def by (rule call_of_upd_reg_same) (simp add: releasePeer_def)
    then show ?thesis using s Pair SvRelease by (simp add: watched_same [of _ s])
  next
    case (SvLegGone sid i l)
    then show ?thesis using s Pair by (simp add: leg_gone_def terminateCall_def watched_end)
  next
    case (SvLegAudio sid i q)
    then show ?thesis using watched_cm_step [OF s, of e w sid i "CmFeed q"] Pair
      by (simp add: leg_audio_def Let_def watched_same [OF call_of_fields(3)] split: option.split)
  qed (use s Pair in \<open>simp_all add: watched_event watched_cm_step watched_timeout watched_outgoing watched_finish
      watched_accept watched_hang_up doReject_def doEndCall_def watched_leg watched_manager watched_stop_all
      watched_same [OF call_of_reconnect] split: option.split\<close>)
qed

interpretation server: step_machine "srv_step e" calls_watched
  by unfold_locales (rule watched_step)

lemma get_broadcast [simp]: "bk_calls (broadcast hook b ev) = bk_calls b"
  by (simp add: broadcast_def Let_def)

lemma get_endCall: "getCall (endCall hook now b i reason stats) i = None"
  by (simp add: endCall_def getCall_def broadcastCallList_def Let_def split: option.split)

lemma finish_unlists: "getCall (sv_broker (finishCall w s sid c)) (ci_id c) = None"
  by (simp add: finishCall_def Let_def case_prod_beta on_broker_def get_endCall)

lemma remove_keeps_broker [simp]: "sv_broker (fst (removeCall s sid i)) = sv_broker s"
  by (simp add: removeCall_def leg_acts_def upd_reg_def upd_session_def split: option.split)

text \<open>The outputs of EndCall on a running call: its end is the last.\<close>

lemma end_outputs:
  assumes "cm_call m = Some c" and "\<not> IsEnded c" and "cm_out m = []"
  shows "\<exists>xs c'. cm_out (fst (EndCall v d m r)) = xs @ [OutEnded c'] \<and> ci_id c' = ci_id c"
proof -
  let ?m1 = "fst (transit (dr_now d) m (reason_transition TransitionTerminated r))"
  have "ci_id (the (cm_call ?m1)) = ci_id c"
    using assms(1) ApplyTransition_id [of "dr_now d" c "reason_transition TransitionTerminated r"]
    by (simp add: transit_def Let_def case_prod_beta)
  then show ?thesis using assms by (simp add: EndCall_def Let_def case_prod_beta)
qed

text \<open>C3: no ghost calls: however sessions, requests, messages from WhatsApp and timers interleave from
  a server without calls, every call in a registry stands under its own id and has not ended;
  unless a relay came up for it or it was answered, its ringing timer is armed; and when that
  timer fires, the call leaves the registry, and unless another session has it connected or it
  never became a call, it leaves the broker's list too.\<close>

theorem no_ghost_calls:
  assumes "\<forall>sid i. call_of s0 sid i = None" and "s = run_steps (srv_step e) s0 evs"
    and "call_of s sid i = Some a"
  shows "(\<forall>c. cm_call (ac_cm a) = Some c \<longrightarrow> ci_id c = i \<and> \<not> IsEnded c)
    \<and> (ac_timer a \<or> ac_relayed a
       \<or> (\<exists>c. cm_call (ac_cm a) = Some c \<and> ci_state c \<in> {CallStateConnecting, CallStateActive, CallStateOnHold}))
    \<and> (ac_timer a \<longrightarrow> call_of (srv_step e s (w, SvTimeout sid i)) sid i = None)
    \<and> (ac_timer a \<and> \<not> isCallConnected (sv_broker s) i \<and> cm_call (ac_cm a) \<noteq> None
       \<longrightarrow> getCall (sv_broker (srv_step e s (w, SvTimeout sid i))) i = None)"
proof -
  have "calls_watched s0" using assms(1) by (simp add: calls_watched_def)
  then have "calls_watched s" unfolding assms(2) by (rule server.run_inv)
  then have ok: "entry_ok i a" using assms(3) by (simp add: calls_watched_def)
  have own: "ci_id c = i \<and> \<not> IsEnded c" if "cm_call (ac_cm a) = Some c" for c
    using ok that by (simp add: entry_ok_def call_key_def IsEnded_def ci_state_def)
  have "\<exists>c. cm_call (ac_cm a) = Some c \<and> ci_state c \<in> {CallStateConnecting, CallStateActive, CallStateOnHold}"
    if "3 \<le> rank_of (ac_cm a)"
  proof -
    from that obtain c where c: "cm_call (ac_cm a) = Some c" "2 \<le> call_rank (ci_state c)"
      by (auto simp: rank_of_def call_key_def split: option.splits)
    moreover have "ci_state c \<noteq> CallStateEnded" using own [OF c(1)] by (simp add: IsEnded_def)
    ultimately show ?thesis by (cases "ci_state c") auto
  qed
  then have watched: "ac_timer a \<or> ac_relayed a \<or> (\<exists>c. cm_call (ac_cm a) = Some c
      \<and> ci_state c \<in> {CallStateConnecting, CallStateActive, CallStateOnHold})"
    using ok by (auto simp: entry_ok_def)
  have gone: "getCall (sv_broker (end_with e w s sid i EndCallReasonTimeout)) i = None"
    if "cm_call (ac_cm a) \<noteq> None"
  proof -
    from that obtain c where c: "cm_call (ac_cm a) = Some c" by blast
    let ?m = "fst (EndCall (se_voip e sid) (dw_cm w) ((ac_cm a)\<lparr>cm_out := []\<rparr>) EndCallReasonTimeout)"
    obtain xs c' where out: "cm_out ?m = xs @ [OutEnded c']" "ci_id c' = i"
      using end_outputs [of "(ac_cm a)\<lparr>cm_out := []\<rparr>" c "se_voip e sid" "dw_cm w" EndCallReasonTimeout] c own [OF c]
      by auto
    have "end_with e w s sid i EndCallReasonTimeout
      = finishCall w (foldl (call_back e w sid i) (upd_call s sid i (\<lambda>a. a\<lparr>ac_cm := ?m\<rparr>)) xs) sid c'"
      using assms(3) out(1) by (simp add: end_with_def run_cm_def case_prod_beta Let_def call_back_def)
    then show ?thesis using finish_unlists [of w _ sid c'] out(2) by simp
  qed
  have timeout: "srv_step e s (w, SvTimeout sid i)
      = (if isCallConnected (sv_broker s) i then fst (removeCall s sid i)
         else fst (removeCall (end_with e w s sid i EndCallReasonTimeout) sid i))" if "ac_timer a"
    using that assms(3) by (simp add: ringing_timeout_def)
  show ?thesis using own watched gone timeout by simp
qed

definition demo_srv_env :: srv_env where
  "demo_srv_env = \<lparr>se_voip = (\<lambda>_. demo_env), se_jid_server = (\<lambda>_. None), se_jid_user = (\<lambda>s. s),
     se_non_ad = (\<lambda>s. s), se_pn_for_lid = (\<lambda>_. None), se_contact = (\<lambda>_. None)\<rparr>"

definition demo_srv_draws :: srv_draws where
  "demo_srv_draws = \<lparr>dw_cm = demo_draws, dw_dir = ''rec'', dw_disk = None, dw_db = True, dw_closes = True,
     dw_creates = True, dw_write = True, dw_sql = True\<rparr>"

definition demo_server :: server where
  "demo_server = \<lparr>sv_sessions = [(''s'', new_session ''s'' ''one'' [] False (Some ''1''))], sv_order = [''s''],
     sv_broker = NewBroker, sv_rec = no_recordings, sv_max_calls = 0, sv_blocked = False,
     sv_panel_inbound = True, sv_rows = [], sv_legs = []\<rparr>"

lemma state_change_keeps:
  "ci_state c \<notin> {CallStateActive, CallStateConnecting, CallStateEnded} \<Longrightarrow> call_of (onStateChange e w s sid c) = call_of s"
  by (simp add: onStateChange_def IsEnded_def Let_def)

lemma state_change_lists:
  assumes "ci_state c \<notin> {CallStateActive, CallStateConnecting, CallStateEnded}"
  shows "\<exists>r. bk_calls (sv_broker (onStateChange e w s sid c)) = gm_put (ci_id c) r (bk_calls (sv_broker s))"
  using assms by (simp add: onStateChange_def IsEnded_def Let_def on_broker_def stateUpdate_def keep_owner_def record_of_def)
    (auto split: option.split)

lemma demo_dial:
  "\<exists>a. call_of (fst (startOutgoing demo_srv_env demo_srv_draws demo_server ''s'' ''C'' False)) ''s'' ''C'' = Some a
     \<and> ac_timer a \<and> cm_call (ac_cm a) \<noteq> None
     \<and> (\<forall>sid. sid \<noteq> ''s'' \<longrightarrow> call_of (fst (startOutgoing demo_srv_env demo_srv_draws demo_server ''s'' ''C'' False)) sid ''C'' = None)
     \<and> (\<forall>p \<in> set (bk_calls (sv_broker (fst (startOutgoing demo_srv_env demo_srv_draws demo_server ''s'' ''C'' False)))). fst p = ''C'')"
proof -
  let ?s1 = "createCall demo_server ''s'' ''C''"
  let ?m = "fst (StartCall demo_env demo_draws (NewCallManager\<lparr>cm_out := []\<rparr>) ''C'' False)"
  let ?c = "(NewOutgoingCall 5 ''C'' ''b@lid'' (ownCredJid demo_env) CallMediaTypeAudio)\<lparr>ci_key := Some (replicate 32 1)\<rparr>"
  have st: "ci_state ?c = CallStateInitiating"
    by (simp add: NewOutgoingCall_def ci_state_def new_state_data_def)
  have tr: "transit 5 m (simple_transition TransitionOfferSent) = (m\<lparr>cm_call := Some ?c\<rparr>, True)"
    if "cm_call m = Some ?c" for m
    using that by (simp add: transit_def call_simps simple_transition_def NewOutgoingCall_def new_state_data_def)
  obtain offer where m: "cm_call ?m = Some ?c" "cm_out ?m = [OutState ?c, OutQuery offer, OutState ?c]"
    "snd (StartCall demo_env demo_draws (NewCallManager\<lparr>cm_out := []\<rparr>) ''C'' False) = Inr None"
    by (simp add: StartCall_def NewCallManager_def demo_draws_def BuildOfferStanza_def Let_def tr emitState_def)
  have out: "call_back demo_srv_env demo_srv_draws ''s'' ''C'' s (OutState ?c)
      = onStateChange demo_srv_env demo_srv_draws s ''s'' ?c"
    "call_back demo_srv_env demo_srv_draws ''s'' ''C'' s (OutQuery offer) = s" for s
    by (simp_all add: call_back_def)
  have keeps: "call_of (onStateChange demo_srv_env demo_srv_draws s ''s'' ?c) = call_of s" for s
    by (rule state_change_keeps) (simp add: st)
  have created: "call_of ?s1 ''s'' ''C'' = Some new_call"
    by (simp add: demo_server_def gm_get_def)
  have env: "se_voip demo_srv_env ''s'' = demo_env" "dw_cm demo_srv_draws = demo_draws" "ac_cm new_call = NewCallManager"
    by (simp_all add: demo_srv_env_def demo_srv_draws_def new_call_def)
  let ?s2 = "fst (run_cm demo_srv_env demo_srv_draws ?s1 ''s'' ''C'' (\<lambda>m. StartCall demo_env demo_draws m ''C'' False))"
  have entries: "call_of ?s2 sid ''C'' = (if sid = ''s'' then Some (new_call\<lparr>ac_cm := ?m\<rparr>) else None)" for sid
    using created by (simp add: run_cm_def env case_prod_beta Let_def m out keeps)
      (simp add: demo_server_def call_of_def gm_get_def)
  have put: "\<forall>p \<in> set (bk_calls (sv_broker (onStateChange demo_srv_env demo_srv_draws s ''s'' ?c))). fst p = ''C''"
    if "\<forall>p \<in> set (bk_calls (sv_broker s)). fst p = ''C''" for s
    using state_change_lists [of ?c demo_srv_env demo_srv_draws s "''s''"] that st
    by (auto simp: NewOutgoingCall_def dest!: gm_in_put)
  let ?s0 = "upd_call ?s1 ''s'' ''C'' (\<lambda>a. a\<lparr>ac_cm := ?m\<rparr>)"
  let ?on = "\<lambda>s. onStateChange demo_srv_env demo_srv_draws s ''s'' ?c"
  have twice: "?s2 = ?on (?on ?s0)"
    using created by (simp add: run_cm_def env case_prod_beta Let_def m out)
  have "\<forall>p \<in> set (bk_calls (sv_broker ?s0)). fst p = ''C''"
    by (simp add: demo_server_def createCall_def upd_call_def upd_reg_def upd_session_def NewBroker_def split: option.split)
  from put [OF put [OF this]] have "\<forall>p \<in> set (bk_calls (sv_broker ?s2)). fst p = ''C''"
    by (simp only: twice)
  moreover have "startOutgoing demo_srv_env demo_srv_draws demo_server ''s'' ''C'' False = (?s2, Inr None)"
    using created by (simp add: startOutgoing_def run_cm_def env case_prod_beta Let_def m)
  ultimately show ?thesis using entries by (simp add: m new_call_def)
qed

theorem no_ghost_calls_witness:
  "\<exists>a. call_of (srv_step demo_srv_env demo_server (demo_srv_draws, SvDial ''s'' ''C'')) ''s'' ''C'' = Some a
     \<and> ac_timer a \<and> (\<exists>c. cm_call (ac_cm a) = Some c \<and> ci_id c = ''C'' \<and> \<not> IsEnded c)
     \<and> call_of (srv_step demo_srv_env (srv_step demo_srv_env demo_server (demo_srv_draws, SvDial ''s'' ''C''))
         (demo_srv_draws, SvTimeout ''s'' ''C'')) ''s'' ''C'' = None"
proof -
  let ?s = "run_steps (srv_step demo_srv_env) demo_server [(demo_srv_draws, SvDial ''s'' ''C'')]"
  have none: "\<forall>sid i. call_of demo_server sid i = None"
    by (simp add: demo_server_def call_of_def new_session_def newCallRegistry_def reg_get_def gm_get_def)
  then have s: "?s = fst (startOutgoing demo_srv_env demo_srv_draws demo_server ''s'' ''C'' False)" by simp
  with demo_dial obtain a where a: "call_of ?s ''s'' ''C'' = Some a" "ac_timer a" "cm_call (ac_cm a) \<noteq> None" by auto
  from no_ghost_calls [OF none refl a(1), of demo_srv_draws] a show ?thesis by auto
qed

section \<open>A call that ends while it is being placed\<close>

lemma terminated_ends:
  assumes "\<not> IsEnded c"
  shows "IsEnded (fst (ApplyTransition t c (reason_transition TransitionTerminated r)))"
proof -
  have "sd_state (ci_data c) \<noteq> CallStateEnded" using assms by (simp add: IsEnded_def ci_state_def)
  then show ?thesis
    by (simp add: IsEnded_def ApplyTransition_def apply_data_def ci_state_def reason_transition_def simple_transition_def
        Let_def)
qed

lemma terminate_outputs:
  assumes "cm_call m = Some c" and "\<not> IsEnded c" and "cm_out m = []"
  shows "\<exists>c'. cm_out (HandleCallTerminate d m n) = [OutState c', OutEnded c'] \<and> ci_id c' = ci_id c \<and> IsEnded c'"
proof -
  obtain r where r: "HandleCallTerminate d m n
      = (let m1 = fst (transit (dr_now d) m (reason_transition TransitionTerminated r))
         in cleanupMedia (emit (emitState m1) (OutEnded (the (cm_call m1)))))"
    by (simp add: HandleCallTerminate_def assms(1) Let_def)
  let ?c = "fst (ApplyTransition (dr_now d) c (reason_transition TransitionTerminated r))"
  have "fst (transit (dr_now d) m (reason_transition TransitionTerminated r)) = m\<lparr>cm_call := Some ?c\<rparr>"
    by (simp add: transit_def assms(1) case_prod_beta)
  then have "cm_out (HandleCallTerminate d m n) = [OutState ?c, OutEnded ?c]"
    by (simp add: r Let_def emitState_def assms(3))
  then show ?thesis using terminated_ends [OF assms(2)] ApplyTransition_id by blast
qed

lemma finish_lists: "set (bk_calls (sv_broker (finishCall w s sid c))) \<subseteq> set (bk_calls (sv_broker s))"
  by (auto simp: finishCall_def Let_def case_prod_beta on_broker_def endCall_def broadcastCallList_def gm_in_del
      split: option.splits)

text \<open>A terminate from the peer takes a running call out of its registry and out of the broker.\<close>

lemma terminate_finishes:
  assumes a: "call_of s sid i = Some a" and ok: "entry_ok i a" and c: "cm_call (ac_cm a) \<noteq> None"
    and s1: "s1 = fst (cm_step e w s sid i (CmTerminate n))"
  shows "(\<forall>sid' j. call_of s1 sid' j = (if sid' = sid \<and> j = i then None else call_of s sid' j))
    \<and> getCall (sv_broker s1) i = None \<and> set (bk_calls (sv_broker s1)) \<subseteq> set (bk_calls (sv_broker s))"
proof -
  from c obtain c where c: "cm_call (ac_cm a) = Some c" by blast
  then have id: "ci_id c = i" "\<not> IsEnded c" using ok by (auto simp: entry_ok_def call_key_def IsEnded_def)
  let ?m = "HandleCallTerminate (dw_cm w) ((ac_cm a)\<lparr>cm_out := []\<rparr>) n"
  obtain c' where out: "cm_out ?m = [OutState c', OutEnded c']" "ci_id c' = i" "IsEnded c'"
    using terminate_outputs [of "(ac_cm a)\<lparr>cm_out := []\<rparr>" c "dw_cm w" n] c id by auto
  let ?s0 = "upd_call s sid i (\<lambda>a. a\<lparr>ac_cm := ?m\<rparr>)"
  have s1': "s1 = finishCall w (finishCall w ?s0 sid c') sid c'"
    using a out(1,3) by (simp add: s1 cm_step_def run_cm_def case_prod_beta Let_def call_back_def onStateChange_def)
  have "sv_broker ?s0 = sv_broker s"
    by (simp add: upd_call_def upd_reg_def upd_session_def split: option.split)
  then have "set (bk_calls (sv_broker s1)) \<subseteq> set (bk_calls (sv_broker s))"
    unfolding s1' using finish_lists [of w "finishCall w ?s0 sid c'" sid c'] finish_lists [of w ?s0 sid c'] by auto
  then show ?thesis using out(2) finish_unlists [of w _ sid c'] by (simp add: s1')
qed


definition demo_start :: start_request where
  "demo_start = \<lparr>sr_phone = ''55'', sr_owner = ''ana'', sr_record = True, sr_clinic = [], sr_agent = False\<rparr>"


end
