(* ===== verification/Legs.thy ===== *)
theory Legs
  imports Server
begin

text \<open>
  The audio legs of the calls (WebRTC, WebSocket, voice agent): no leg the server was given is
  ever forgotten without being closed.
\<close>

section \<open>No leg is left behind\<close>

text \<open>A leg is accounted for while it is the leg of a registered call, and once it is closed.\<close>

definition leg_known :: "leg \<Rightarrow> server \<Rightarrow> bool" where
  "leg_known l s \<longleftrightarrow> (\<exists>sid i a. call_of s sid i = Some a \<and> ac_leg a = Some l) \<or> LegClosed l \<in> set (sv_legs s)"

definition legs_kept :: "server \<Rightarrow> server \<Rightarrow> bool" where
  "legs_kept s s' \<longleftrightarrow> (\<forall>l. leg_known l s \<longrightarrow> leg_known l s')"

lemma kept_refl [simp]: "legs_kept s s"
  by (simp add: legs_kept_def)

lemma kept_trans: "legs_kept a b \<Longrightarrow> legs_kept b c \<Longrightarrow> legs_kept a c"
  by (simp add: legs_kept_def)

lemma legs_upd [simp]:
  "sv_legs (upd_session s sid f) = sv_legs s" "sv_legs (upd_reg s sid g) = sv_legs s"
  "sv_legs (upd_call s sid i h) = sv_legs s" "sv_legs (on_broker s b) = sv_legs s"
  "sv_legs (leg_acts s as) = sv_legs s @ as" "sv_legs (setJID ok s sid j) = sv_legs s"
  "sv_legs (list_sessions s) = sv_legs s" "sv_legs (setAuth s sid x) = sv_legs s"
  "sv_legs (createCall s sid i) = sv_legs s"
  by (simp_all add: createCall_def upd_session_def upd_reg_def upd_call_def on_broker_def leg_acts_def setJID_def list_sessions_def
      setAuth_def Let_def split: option.split)

lemma kept_same: "call_of s' = call_of s \<Longrightarrow> set (sv_legs s) \<subseteq> set (sv_legs s') \<Longrightarrow> legs_kept s s'"
  by (auto simp: legs_kept_def leg_known_def)

text \<open>Entries may go when their legs have been closed.\<close>

lemma kept_closed:
  assumes "\<And>sid i a l. call_of s sid i = Some a \<Longrightarrow> ac_leg a = Some l
      \<Longrightarrow> (\<exists>a'. call_of s' sid i = Some a' \<and> ac_leg a' = Some l) \<or> LegClosed l \<in> set (sv_legs s')"
    and "set (sv_legs s) \<subseteq> set (sv_legs s')"
  shows "legs_kept s s'"
  unfolding legs_kept_def leg_known_def using assms by blast

lemma kept_upd: "(\<And>a. ac_leg (f a) = ac_leg a) \<Longrightarrow> legs_kept s (upd_call s sid i f)"
  by (rule kept_closed) auto

lemma kept_remove: "legs_kept s (fst (removeCall s sid i))"
proof (rule kept_closed)
  show "set (sv_legs s) \<subseteq> set (sv_legs (fst (removeCall s sid i)))"
    by (auto simp: removeCall_def split: option.split)
  fix sid' j a l assume a: "call_of s sid' j = Some a" "ac_leg a = Some l"
  show "(\<exists>a'. call_of (fst (removeCall s sid i)) sid' j = Some a' \<and> ac_leg a' = Some l)
      \<or> LegClosed l \<in> set (sv_legs (fst (removeCall s sid i)))"
  proof (cases "sid' = sid \<and> j = i")
    case True
    then show ?thesis using a by (simp add: removeCall_def close_leg_def)
  qed (use a in auto)
qed

lemma kept_finish: "legs_kept s (finishCall w s sid c)"
proof -
  define s1 where "s1 = s\<lparr>sv_rec := onCallEnded (dw_db w) (dw_disk w) (dw_closes w) (dr_now (dw_cm w)) (now_ms w) (sv_rec s) (ci_id c)\<rparr>"
  have "legs_kept s s1" by (rule kept_same) (simp_all add: s1_def)
  moreover have "legs_kept s1 (fst (removeCall s1 sid (ci_id c)))" by (rule kept_remove)
  moreover have "legs_kept (fst (removeCall s1 sid (ci_id c))) (finishCall w s sid c)"
    by (rule kept_same) (simp_all add: finishCall_def Let_def case_prod_beta s1_def)
  ultimately show ?thesis by (blast intro: kept_trans)
qed

lemma kept_recording: "legs_kept s (startRecordingIfArmed w s sid i)"
proof -
  have "legs_kept s (upd_call (s\<lparr>sv_rec := r\<rparr>) sid i (\<lambda>a. a\<lparr>ac_rec := p\<rparr>))" for r p
    by (rule kept_trans [OF kept_same kept_upd]) auto
  then show ?thesis
    by (auto simp: startRecordingIfArmed_def Let_def kept_same split: option.split prod.split)
qed

lemma kept_state: "legs_kept s (onStateChange e w s sid c)"
proof (cases "IsEnded c")
  case True
  then show ?thesis by (simp add: onStateChange_def kept_finish)
next
  case False
  define s1 where "s1 = (if ci_state c \<in> {CallStateActive, CallStateConnecting} then stopTimeout s sid (ci_id c) else s)"
  define s2 where "s2 = (if ci_state c = CallStateActive
    then answer_agent (startRecordingIfArmed w s1 sid (ci_id c)) sid (ci_id c) else s1)"
  have "legs_kept s s1" by (simp add: s1_def stopTimeout_def kept_upd)
  moreover have "legs_kept x (answer_agent x sid j)" for x j
    by (rule kept_same) (auto simp: answer_agent_def split: option.split leg_kind.split)
  then have "legs_kept s1 s2" by (auto simp: s2_def intro: kept_trans [OF kept_recording])
  moreover have "legs_kept s2 (onStateChange e w s sid c)"
    using False by (intro kept_same) (simp_all add: onStateChange_def Let_def s1_def s2_def)
  ultimately show ?thesis by (blast intro: kept_trans)
qed

lemma kept_audio: "legs_kept s (onPeerAudio w s sid i frame)"
proof (cases "call_of s sid i")
  case (Some ac)
  define s1 where "s1 = (if ac_tried ac then s
    else startRecordingIfArmed w (upd_call s sid i (\<lambda>a. a\<lparr>ac_tried := True\<rparr>)) sid i)"
  define s2 where "s2 = (case ac_leg ac of None \<Rightarrow> s1
    | Some l \<Rightarrow> (let s' = leg_acts s1 [LegWrote l frame]
                 in if dw_write w then s' else upd_call s' sid i (\<lambda>a. a\<lparr>ac_errors := ac_errors a + 1\<rparr>)))"
  have eq: "onPeerAudio w s sid i frame = (case call_of s2 sid i of None \<Rightarrow> s2
      | Some ac2 \<Rightarrow> (case ac_rec ac2 of None \<Rightarrow> s2
          | Some path \<Rightarrow> s2\<lparr>sv_rec := rec_feed False (sv_rec s2) path frame\<rparr>))"
    unfolding onPeerAudio_def Some option.case Let_def s1_def s2_def ..
  have "legs_kept s s1"
    unfolding s1_def by (auto intro!: kept_trans [OF kept_upd kept_recording])
  moreover have "legs_kept s1 (leg_acts s1 x)" "legs_kept s1 (upd_call (leg_acts s1 x) sid i (\<lambda>a. a\<lparr>ac_errors := ac_errors a + 1\<rparr>))" for x
    by (rule kept_same, simp_all) (rule kept_trans [OF kept_same kept_upd], auto)
  then have "legs_kept s1 s2" unfolding s2_def by (simp add: Let_def split: option.split)
  moreover have "legs_kept s2 (onPeerAudio w s sid i frame)"
    unfolding eq by (auto intro: kept_same split: option.split)
  ultimately show ?thesis by (blast intro: kept_trans)
qed (simp add: onPeerAudio_def)

lemma kept_callback: "legs_kept s (call_back e w sid i s out)"
  by (cases out) (auto simp: call_back_def kept_state kept_finish kept_audio onRelayUp_def kept_upd onIncoming_def
      Let_def intro!: kept_same)

lemma kept_fold: "(\<And>s x. legs_kept s (f s x)) \<Longrightarrow> legs_kept s (foldl f s xs)"
proof (induction xs arbitrary: s)
  case (Cons x xs)
  from kept_trans [OF Cons.prems Cons.IH [OF Cons.prems]] show ?case by simp
qed simp

lemma kept_run_cm: "legs_kept s (fst (run_cm e w s sid i h))"
proof (cases "call_of s sid i")
  case (Some ac)
  let ?m = "fst (h ((ac_cm ac)\<lparr>cm_out := []\<rparr>))"
  have "legs_kept s (upd_call s sid i (\<lambda>a. a\<lparr>ac_cm := ?m\<rparr>))" by (rule kept_upd) simp
  moreover have "legs_kept x (foldl (call_back e w sid i) x outs)" for x outs
    by (rule kept_fold) (rule kept_callback)
  ultimately show ?thesis
    using Some kept_trans by (simp add: run_cm_def case_prod_beta Let_def)
qed (simp add: run_cm_def)

lemma kept_cm_step: "legs_kept s (fst (cm_step e w s sid i ev))"
  by (simp add: cm_step_def kept_run_cm)

lemma kept_end: "legs_kept s (end_with e w s sid i r)"
  by (simp add: end_with_def kept_run_cm)

lemma kept_timeout: "legs_kept s (ringing_timeout e w s sid i)"
  by (auto simp: ringing_timeout_def kept_remove intro: kept_trans [OF kept_end kept_remove])

lemma kept_create: "call_of s sid i = None \<Longrightarrow> legs_kept s (createCall s sid i)"
  by (rule kept_closed) auto

lemma kept_outgoing: "call_of s sid i = None \<Longrightarrow> legs_kept s (fst (startOutgoing e w s sid i v))"
proof -
  assume "call_of s sid i = None"
  then have run: "legs_kept s (fst (run_cm e w (createCall s sid i) sid i h))" for h :: "call_mgr \<Rightarrow> call_mgr \<times> 'r"
    by (rule kept_trans [OF kept_create kept_run_cm])
  obtain s1 r where r: "run_cm e w (createCall s sid i) sid i (\<lambda>m. StartCall (se_voip e sid) (dw_cm w) m i v) = (s1, r)"
    by (cases "run_cm e w (createCall s sid i) sid i (\<lambda>m. StartCall (se_voip e sid) (dw_cm w) m i v)")
  then have "legs_kept s s1" using run [of "\<lambda>m. StartCall (se_voip e sid) (dw_cm w) m i v"] by simp
  then show ?thesis using r kept_trans [OF _ kept_remove] by (auto simp: startOutgoing_def split: option.split sum.split)
qed

lemma kept_offer: "legs_kept s (onIncomingOffer e w s sid inner from age)"
proof -
  let ?n = "wrapCall from inner"
  let ?i = "callIDFromNode ?n"
  let ?r = "run_cm e w (createCall s sid ?i) sid ?i (\<lambda>m. HandleCallOffer (se_voip e sid) (dw_cm w) m ?n from)"
  have "onIncomingOffer e w s sid inner from age = s \<or> call_of s sid ?i = None
    \<and> (onIncomingOffer e w s sid inner from age = fst ?r
       \<or> onIncomingOffer e w s sid inner from age = fst (removeCall (fst ?r) sid ?i))"
    by (auto simp: onIncomingOffer_def Let_def call_of_def case_prod_beta split: option.splits if_splits bool.splits)
  moreover have "call_of s sid ?i = None \<Longrightarrow> legs_kept s (fst ?r)"
    by (rule kept_trans [OF kept_create kept_run_cm])
  ultimately show ?thesis using kept_trans [OF _ kept_remove] by auto
qed

lemma kept_leg: "legs_kept s (setBridge s sid i l)"
proof (rule kept_closed)
  show "set (sv_legs s) \<subseteq> set (sv_legs (setBridge s sid i l))"
    by (auto simp: setBridge_def Let_def split: option.split)
  fix sid' j a l' assume a: "call_of s sid' j = Some a" "ac_leg a = Some l'"
  show "(\<exists>a'. call_of (setBridge s sid i l) sid' j = Some a' \<and> ac_leg a' = Some l')
      \<or> LegClosed l' \<in> set (sv_legs (setBridge s sid i l))"
  proof (cases "sid' = sid \<and> j = i")
    case True
    then show ?thesis using a by (simp add: setBridge_def Let_def)
  qed (use a in auto)
qed

lemma set_leg_known: "leg_known l (setBridge s sid i l)"
proof (cases "call_of s sid i")
  case None
  then show ?thesis by (simp add: leg_known_def setBridge_def)
next
  case (Some a)
  then have "call_of (setBridge s sid i l) sid i = Some (a\<lparr>ac_leg := Some l\<rparr>)" by simp
  then show ?thesis unfolding leg_known_def by fastforce
qed

lemma kept_hang_up: "legs_kept s (fst (hang_up e w s sid i ev reason ok_reply))"
proof (cases "findCall s sid i")
  case (Some x)
  obtain s1 r where step: "cm_step e w s x i ev = (s1, r)" by (cases "cm_step e w s x i ev")
  then have s1: "legs_kept s s1" using kept_cm_step [of s e w x i ev] by simp
  have "legs_kept (fst (removeCall s1 x i)) (on_broker (fst (removeCall s1 x i)) b)" for b
    by (rule kept_same) auto
  then have "legs_kept s (on_broker (fst (removeCall s1 x i)) b)" for b
    using kept_trans [OF s1 kept_remove] kept_trans by blast
  then show ?thesis using Some step s1 by (simp add: hang_up_def split: option.split)
qed (simp add: hang_up_def)

lemma kept_accept: "legs_kept s (fst (doAccept e w s sid i client claim want clinic inbound))"
proof (cases "findCall s sid i")
  case (Some x)
  let ?owner = "if client = [] then ''claim-'' @ claim else client"
  let ?c = "setOwner (getWebhookURL s) (sv_broker s) i ?owner"
  define s1 where "s1 = on_broker (s\<lparr>sv_broker := fst ?c\<rparr>) (\<lambda>hook b. emitIncomingClaimed hook b x i ?owner)"
  define s2 where "s2 = (if want \<or> inbound = Some True
    then arm_call s1 x i clinic ''inbound'' (case getCall (sv_broker s1) i of None \<Rightarrow> [] | Some r \<Rightarrow> cr_peer r) else s1)"
  have "legs_kept s s2" by (rule kept_same) (simp_all add: s2_def s1_def arm_call_def)
  moreover obtain s3 r where step: "cm_step e w s2 x i CmAcceptCall = (s3, r)"
    by (cases "cm_step e w s2 x i CmAcceptCall")
  ultimately have "legs_kept s s3" using kept_trans kept_cm_step [of s2 e w x i CmAcceptCall] by simp
  moreover have "fst (doAccept e w s sid i client claim want clinic inbound) = (if \<not> snd ?c then s else s3)"
    unfolding doAccept_def Some option.case Let_def case_prod_beta s1_def [symmetric] s2_def [symmetric]
    using step by (simp split: option.split)
  ultimately show ?thesis by simp
qed (simp add: doAccept_def)

lemma kept_dialled: "legs_kept s (start_finish w s sid q number peer i n)"
proof -
  define s1 where "s1 = upd_reg s sid (\<lambda>r. bindPeer r number i)"
  define s2 where "s2 = (if sr_agent q then attachAgent s1 sid i n else s1)"
  have "legs_kept s s1"
    unfolding s1_def by (rule kept_same [OF call_of_upd_reg_same]) (simp_all add: bindPeer_def)
  moreover have "legs_kept s1 s2" by (simp add: s2_def attachAgent_def kept_leg)
  moreover have "legs_kept s2 (start_finish w s sid q number peer i n)"
    by (rule kept_same) (simp_all add: start_finish_def s1_def [symmetric] s2_def [symmetric] Let_def case_prod_beta arm_call_def)
  ultimately show ?thesis by (blast intro: kept_trans)
qed

lemma kept_agent_call: "legs_kept s (to_call e w s sid i ev)"
  by (simp add: to_call_def kept_cm_step split: option.split)

lemma kept_parts [simp]:
  "legs_kept s (setAuth s' sid a) = legs_kept s s'" "legs_kept s (list_sessions s') = legs_kept s s'"
  "legs_kept s (setJID ok s' sid j) = legs_kept s s'"
  "(\<And>x. ss_reg (f x) = ss_reg x) \<Longrightarrow> legs_kept s (upd_session s' sid f) = legs_kept s s'"
  by (simp_all add: legs_kept_def leg_known_def call_of_upd_session)

lemma kept_event: "legs_kept s (handleEvent e w s sid ev)"
  by (cases ev) (simp_all add: kept_agent_call kept_offer Let_def split: option.split)

lemma kept_drained: "legs_kept s (end_drained e w sid s p)"
proof (cases p)
  case (Pair i ac)
  have "legs_kept s (foldl (call_back e w sid i) s outs)" for outs
    by (rule kept_fold) (rule kept_callback)
  moreover have "legs_kept x (leg_acts x as)" for x as by (rule kept_same) auto
  ultimately show ?thesis unfolding Pair by (auto simp: end_drained_def Let_def intro: kept_trans)
qed

lemma drained_closes: "ac_leg ac = Some l \<Longrightarrow> LegClosed l \<in> set (sv_legs (end_drained e w sid s (i, ac)))"
  by (simp add: end_drained_def Let_def close_leg_def)

lemma kept_known: "legs_kept s s' \<Longrightarrow> leg_known l s \<Longrightarrow> leg_known l s'"
  by (simp only: legs_kept_def)

lemma closed_known: "LegClosed l \<in> set (sv_legs s) \<Longrightarrow> leg_known l s"
  by (simp add: leg_known_def)

lemma drained_known:
  "(i, ac) \<in> set ps \<Longrightarrow> ac_leg ac = Some l \<Longrightarrow> leg_known l (foldl (end_drained e w sid) s ps)"
proof (induction ps arbitrary: s)
  case (Cons p ps)
  have kept: "legs_kept x (foldl (end_drained e w sid) x ps)" for x
    by (rule kept_fold) (rule kept_drained)
  show ?case
  proof (cases "p = (i, ac)")
    case True
    then have "leg_known l (end_drained e w sid s p)" using Cons.prems(2) drained_closes closed_known by blast
    then show ?thesis using kept_known [OF kept] by simp
  qed (use Cons in auto)
qed simp

lemma kept_teardown: "legs_kept s (teardownAllCalls e w s sid)"
proof (cases "gm_get (sv_sessions s) sid")
  case (Some x)
  let ?d = "upd_reg s sid (\<lambda>r. fst (drain r))"
  have "leg_known l (teardownAllCalls e w s sid)" if "leg_known l s" for l
  proof -
    have gone: "leg_known l (teardownAllCalls e w s sid)" if a: "call_of s sid' i = Some a" "ac_leg a = Some l" for sid' i a
    proof (cases "sid' = sid")
      case False
      then have "call_of (teardownAllCalls e w s sid) sid' i = Some a" using a by simp
      then show ?thesis using a(2) unfolding leg_known_def by (intro disjI1 exI conjI)
    next
      case True
      then have "(i, a) \<in> set (rg_calls (ss_reg x))" using Some a(1) by (simp add: call_of_def reg_get_def gm_get_in)
      then show ?thesis using drained_known [OF _ a(2)] Some by (simp add: teardownAllCalls_def)
    qed
    have "leg_known l (foldl (end_drained e w sid) ?d ps)" if "LegClosed l \<in> set (sv_legs s)" for ps
      by (rule kept_known [OF kept_fold [OF kept_drained]], rule closed_known) (use that in simp)
    then show ?thesis using that gone Some unfolding leg_known_def [of l s] by (auto simp: teardownAllCalls_def)
  qed
  then show ?thesis by (simp add: legs_kept_def)
qed (simp add: teardownAllCalls_def)

lemma kept_down [simp]: "legs_kept s (shutdown e w s sid)" "legs_kept s (replaceClient e w s sid)"
  by (simp_all add: shutdown_def replaceClient_def kept_teardown)

lemma kept_delete: "legs_kept s (fst (Delete e w s sid))"
proof (cases "Get s sid")
  case (Some kx)
  obtain k x where kx: "kx = (k, x)" by (cases kx)
  define s1 where "s1 = teardownAllCalls e w (upd_session s k (\<lambda>x. x\<lparr>ss_online := False, ss_jid := None\<rparr>)) k"
  have s1: "legs_kept s s1"
    unfolding s1_def by (rule kept_trans [OF _ kept_teardown]) simp
  have "call_of s1 sid j = None" for j
  proof (cases "gm_get (sv_sessions s) sid")
    case None
    then have "call_of s sid j = None" by (simp add: call_of_def)
    then show ?thesis by (simp add: s1_def call_of_upd_session)
  next
    case (Some y)
    then have "k = sid" using \<open>Get s sid = Some kx\<close> kx by (simp add: Get_def)
    then show ?thesis by (simp add: s1_def)
  qed
  then have same: "call_of (unregister s1 sid) = call_of s1"
    by (auto simp: unregister_def call_of_def gm_get_del fun_eq_iff split: option.splits)
  have legs: "sv_legs (unregister s1 sid) = sv_legs s1" by (simp add: unregister_def)
  have "legs_kept s1 (fst (Delete e w s sid))"
    unfolding Delete_def Some kx by (simp add: Let_def s1_def [symmetric]) (auto intro!: kept_same simp: same legs)
  with s1 show ?thesis by (rule kept_trans)
qed (simp add: Delete_def)

lemma kept_manager:
  "legs_kept s (fst (Stop e w s sid))" "legs_kept s (fst (PairSession e w p s sid))"
  "legs_kept s (fst (Start e w c p s sid))" "legs_kept s (fst (Logout e w s sid))"
  "\<not> gm_has (sv_sessions s) sid \<Longrightarrow> legs_kept s (fst (Create s stored p sid name))"
proof -
  show "legs_kept s (fst (Stop e w s sid))" by (simp add: Stop_def split: option.split prod.split)
  show pair: "legs_kept s (fst (PairSession e w p s sid))"
    by (simp add: PairSession_def Let_def split: option.split prod.split)
  show "legs_kept s (fst (Start e w c p s sid))" using pair
    by (simp add: Start_def Let_def split: option.split prod.split)
  show "legs_kept s (fst (Logout e w s sid))" by (simp add: Logout_def split: option.split prod.split)
  assume "\<not> gm_has (sv_sessions s) sid"
  moreover have "sv_legs (register (s\<lparr>sv_rows := rows\<rparr>) x) = sv_legs s" for rows x by (simp add: register_def)
  ultimately show "legs_kept s (fst (Create s stored p sid name))"
    by (simp add: Create_def Let_def kept_same [OF call_of_registered])
qed

lemma kept_all:
  "legs_kept s (stopForMigration e w s)" "legs_kept s (reconnectAll connects s)"
  by (auto simp: stopForMigration_def reconnectAll_def intro!: kept_fold split: option.split)

lemma kept_step: "legs_kept s (srv_step e s p)"
proof (cases p)
  case (Pair w ev)
  show ?thesis
  proof (cases ev)
    case (SvPairing sid q)
    have "legs_kept s (pairing_event w s sid q)"
      by (cases q) (auto intro!: kept_same split: option.split)
    then show ?thesis using Pair SvPairing by simp
  next
    case (SvReserve sid number)
    have "sv_legs (fst (start_reserve s sid number)) = sv_legs s"
      by (simp add: start_reserve_def split: option.split prod.split)
    then show ?thesis using Pair SvReserve by (simp add: kept_same [OF call_of_reserve])
  next
    case (SvRelease sid number)
    have "legs_kept s (release s sid number)"
      unfolding release_def by (rule kept_same [OF call_of_upd_reg_same]) (simp_all add: releasePeer_def)
    then show ?thesis using Pair SvRelease by simp
  next
    case (SvLegGone sid i l)
    then show ?thesis using Pair by (simp add: leg_gone_def terminateCall_def kept_end)
  next
    case (SvLegAudio sid i q)
    have "legs_kept x (x\<lparr>sv_rec := r\<rparr>)" for x :: server and r by (rule kept_same) auto
    then have "legs_kept s ((fst (cm_step e w s sid i (CmFeed q)))\<lparr>sv_rec := r\<rparr>)" for r
      by (rule kept_trans [OF kept_cm_step])
    then show ?thesis using kept_cm_step [of s e w sid i "CmFeed q"] Pair SvLegAudio
      by (simp add: leg_audio_def Let_def split: option.split)
  next
    case (SvDelete sid)
    then show ?thesis using Pair kept_delete by simp
  qed (use Pair in \<open>simp_all add: kept_event kept_cm_step kept_timeout kept_outgoing kept_dialled
      kept_accept kept_hang_up doReject_def doEndCall_def kept_leg kept_manager kept_all split: option.split\<close>)
qed

interpretation legs: step_machine "srv_step e" "leg_known l"
  by unfold_locales (rule kept_known [OF kept_step])


end
