(* ===== verification/Accounts.thy ===== *)
theory Accounts
  imports Legs
begin

text \<open>
  Which accounts a server knows and which are connected, seen apart from their calls: the part of
  the session manager (src/cmd/server/sessionmanager.go, session.go) that the migration relies on.
\<close>

section \<open>The accounts of a server\<close>

definition account :: "session \<Rightarrow> string option \<times> bool \<times> bool" where
  "account x = (ss_jid x, ss_online x, ss_connected_once x)"

definition accounts :: "server \<Rightarrow> (string \<times> string option \<times> bool \<times> bool) list" where
  "accounts s = map (\<lambda>(k, x). (k, account x)) (sv_sessions s)"

definition jids :: "server \<Rightarrow> string set" where
  "jids s = {j. \<exists>k on once. (k, Some j, on, once) \<in> set (accounts s)}"

definition online_jids :: "server \<Rightarrow> string set" where
  "online_jids s = {j. \<exists>k once. (k, Some j, True, once) \<in> set (accounts s)}"

lemma online_sub: "online_jids s \<subseteq> jids s"
  by (auto simp: online_jids_def jids_def)

definition acct_ok :: "server \<Rightarrow> bool" where
  "acct_ok s \<longleftrightarrow> distinct (map fst (accounts s)) \<and> fst ` set (accounts s) \<subseteq> set (sv_order s)
     \<and> (sv_blocked s \<longrightarrow> online_jids s = {})"

definition acct_shape :: "server \<Rightarrow> bool" where
  "acct_shape s \<longleftrightarrow> distinct (map fst (accounts s)) \<and> fst ` set (accounts s) \<subseteq> set (sv_order s)"

lemma acct_ok_shape: "acct_ok s \<longleftrightarrow> acct_shape s \<and> (sv_blocked s \<longrightarrow> online_jids s = {})"
  by (auto simp: acct_ok_def acct_shape_def)

text \<open>Nobody gets new keys and nobody connects while the server is blocked.\<close>

definition acct_moves :: "server \<Rightarrow> server \<Rightarrow> bool" where
  "acct_moves s s' \<longleftrightarrow> sv_blocked s' = sv_blocked s \<and> jids s' \<subseteq> jids s \<and> (acct_ok s \<longrightarrow> acct_ok s')"

lemma acct_refl [simp]: "acct_moves s s"
  by (simp add: acct_moves_def)

lemma acct_trans: "acct_moves a b \<Longrightarrow> acct_moves b c \<Longrightarrow> acct_moves a c"
  unfolding acct_moves_def by simp blast

definition same_accounts :: "server \<Rightarrow> server \<Rightarrow> bool" where
  "same_accounts s s' \<longleftrightarrow> accounts s' = accounts s \<and> sv_order s' = sv_order s \<and> sv_blocked s' = sv_blocked s"

lemma same_refl [simp]: "same_accounts s s"
  by (simp add: same_accounts_def)

lemma same_trans: "same_accounts a b \<Longrightarrow> same_accounts b c \<Longrightarrow> same_accounts a c"
  by (simp add: same_accounts_def)

lemma acct_same: "same_accounts s s' \<Longrightarrow> acct_moves s s'"
  by (simp add: acct_moves_def same_accounts_def acct_ok_def jids_def online_jids_def)

lemma accounts_put:
  assumes "gm_get m k = Some x"
  shows "map (\<lambda>(k, x). (k, f x)) (gm_put k y m) = AList.update k (f y) (map (\<lambda>(k, x). (k, f x)) m)"
  using assms by (induction m) (auto simp: gm_get_def gm_put_def split: if_splits)

lemma put_same: "map_of m k = Some v \<Longrightarrow> AList.update k v m = m"
  by (induction m) (auto split: if_splits)

lemma account_of: "gm_get (sv_sessions s) k = Some x \<Longrightarrow> map_of (accounts s) k = Some (account x)"
  unfolding accounts_def gm_get_def by (simp add: map_of_map)

lemma accounts_upd_session:
  "accounts (upd_session s sid f) = (case gm_get (sv_sessions s) sid of None \<Rightarrow> accounts s
     | Some x \<Rightarrow> AList.update sid (account (f x)) (accounts s))"
  by (auto simp: upd_session_def accounts_def accounts_put split: option.split)

lemma upd_session_fields [simp]:
  "sv_order (upd_session s sid f) = sv_order s" "sv_blocked (upd_session s sid f) = sv_blocked s"
  by (simp_all add: upd_session_def split: option.split)

lemma same_upd_session:
  assumes "\<And>x. account (f x) = account x" shows "same_accounts s (upd_session s sid f)"
  using assms by (auto simp: same_accounts_def accounts_upd_session put_same account_of split: option.split)

named_theorems sames

lemma same_parts [sames]:
  "same_accounts s (upd_reg s sid g)" "same_accounts s (upd_call s sid i h)" "same_accounts s (on_broker s b)"
  "same_accounts s (leg_acts s as)" "same_accounts s (list_sessions s)" "same_accounts s (setJID ok s sid j)"
  "same_accounts s (s\<lparr>sv_rec := r\<rparr>)" "same_accounts s (s\<lparr>sv_broker := bk\<rparr>)" "same_accounts s (s\<lparr>sv_rows := rw\<rparr>)"
proof -
  show reg: "same_accounts s (upd_reg s sid g)" for g
    unfolding upd_reg_def by (rule same_upd_session) (simp add: account_def)
  show "same_accounts s (upd_call s sid i h)" by (simp add: upd_call_def reg split: option.split)
qed (simp_all add: same_accounts_def accounts_def on_broker_def leg_acts_def list_sessions_def setJID_def split: option.split)

lemma same_setAuth [sames]: "same_accounts s (setAuth s sid a)"
proof -
  have "same_accounts s (upd_session s sid (\<lambda>x. x\<lparr>ss_auth := a\<rparr>))"
    by (rule same_upd_session) (simp add: account_def)
  from same_trans [OF same_trans [OF this same_parts(3)] same_parts(5)] show ?thesis by (simp add: setAuth_def Let_def)
qed

lemma same_remove [sames]: "same_accounts s (fst (removeCall s sid i))"
  by (auto simp: removeCall_def sames intro: same_trans [OF same_parts(1) same_parts(4)] split: option.split)

lemma same_finish [sames]: "same_accounts s (finishCall w s sid c)"
  unfolding finishCall_def Let_def case_prod_beta
  by (rule same_trans [OF same_trans [OF same_parts(7) same_remove] same_parts(3)])

lemma same_recording [sames]: "same_accounts s (startRecordingIfArmed w s sid i)"
  by (auto simp: startRecordingIfArmed_def Let_def sames intro: same_trans [OF same_parts(7) same_parts(2)]
      split: option.split prod.split)

lemma same_agent [sames]: "same_accounts s (answer_agent s sid i)"
  by (auto simp: answer_agent_def sames split: option.split leg_kind.split)

lemma same_state [sames]: "same_accounts s (onStateChange e w s sid c)"
proof -
  have "same_accounts s (stopTimeout s sid i)" for s i by (simp add: stopTimeout_def sames)
  then show ?thesis
    by (auto simp: onStateChange_def Let_def sames intro!: same_trans [OF _ same_parts(3)] same_trans [OF _ same_agent]
        same_trans [OF _ same_recording])
qed

lemma same_audio [sames]: "same_accounts s (onPeerAudio w s sid i frame)"
proof (cases "call_of s sid i")
  case (Some ac)
  define s1 where "s1 = (if ac_tried ac then s
    else startRecordingIfArmed w (upd_call s sid i (\<lambda>a. a\<lparr>ac_tried := True\<rparr>)) sid i)"
  define s2 where "s2 = (case ac_leg ac of None \<Rightarrow> s1
    | Some l \<Rightarrow> (let s' = leg_acts s1 [LegWrote l frame]
                 in if dw_write w then s' else upd_call s' sid i (\<lambda>a. a\<lparr>ac_errors := ac_errors a + 1\<rparr>)))"
  have eq: "onPeerAudio w s sid i frame = (case call_of s2 sid i of None \<Rightarrow> s2
      | Some ac2 \<Rightarrow> (case ac_rec ac2 of None \<Rightarrow> s2
          | Some path \<Rightarrow> s2\<lparr>sv_rec := rec_feed False (sv_rec s2) path frame\<rparr>))"
    unfolding onPeerAudio_def Some option.case Let_def s1_def s2_def ..
  have "same_accounts s s1"
    unfolding s1_def by (auto intro!: same_trans [OF same_parts(2) same_recording])
  moreover have "same_accounts s1 s2"
    unfolding s2_def by (auto simp: Let_def sames intro: same_trans [OF same_parts(4) same_parts(2)] split: option.split)
  moreover have "same_accounts s2 (onPeerAudio w s sid i frame)"
    unfolding eq by (auto simp: sames split: option.split)
  ultimately show ?thesis by (blast intro: same_trans)
qed (simp add: onPeerAudio_def)

lemma same_callback [sames]: "same_accounts s (call_back e w sid i s out)"
  by (cases out) (auto simp: call_back_def onRelayUp_def onIncoming_def Let_def sames)

lemma same_fold: "(\<And>s x. same_accounts s (f s x)) \<Longrightarrow> same_accounts s (foldl f s xs)"
proof (induction xs arbitrary: s)
  case (Cons x xs)
  from same_trans [OF Cons.prems Cons.IH [OF Cons.prems]] show ?case by simp
qed simp

lemma same_callbacks [sames]: "same_accounts s (foldl (call_back e w sid i) s outs)"
  by (rule same_fold) (rule same_callback)

lemma same_run_cm [sames]: "same_accounts s (fst (run_cm e w s sid i h))"
  by (auto simp: run_cm_def case_prod_beta Let_def intro: same_trans [OF same_parts(2) same_callbacks] split: option.split)

lemma same_cm_step [sames]: "same_accounts s (fst (cm_step e w s sid i ev))"
  by (simp add: cm_step_def sames)

lemma same_end [sames]: "same_accounts s (end_with e w s sid i r)" "same_accounts s (to_call e w s sid x ev)"
  by (simp_all add: end_with_def to_call_def sames split: option.split)

lemma same_timeout [sames]: "same_accounts s (ringing_timeout e w s sid i)"
  by (auto simp: ringing_timeout_def sames intro: same_trans [OF same_end(1) same_remove])

lemma same_outgoing [sames]: "same_accounts s (fst (startOutgoing e w s sid i v))"
proof -
  obtain s1 r where r: "run_cm e w (createCall s sid i) sid i (\<lambda>m. StartCall (se_voip e sid) (dw_cm w) m i v) = (s1, r)"
    by (cases "run_cm e w (createCall s sid i) sid i (\<lambda>m. StartCall (se_voip e sid) (dw_cm w) m i v)")
  then have "same_accounts s s1"
    using same_trans [OF same_parts(1) same_run_cm [of _ e w sid i "\<lambda>m. StartCall (se_voip e sid) (dw_cm w) m i v"]]
    by (metis createCall_def fst_conv)
  then show ?thesis using r same_trans [OF _ same_remove] by (auto simp: startOutgoing_def split: option.split sum.split)
qed

lemma same_offer [sames]: "same_accounts s (onIncomingOffer e w s sid inner from age)"
proof -
  let ?n = "wrapCall from inner"
  let ?i = "callIDFromNode ?n"
  let ?r = "run_cm e w (createCall s sid ?i) sid ?i (\<lambda>m. HandleCallOffer (se_voip e sid) (dw_cm w) m ?n from)"
  have "onIncomingOffer e w s sid inner from age = s
    \<or> onIncomingOffer e w s sid inner from age = fst ?r
    \<or> onIncomingOffer e w s sid inner from age = fst (removeCall (fst ?r) sid ?i)"
    by (auto simp: onIncomingOffer_def Let_def case_prod_beta split: option.splits if_splits bool.splits)
  moreover have "same_accounts s (fst ?r)"
    unfolding createCall_def by (rule same_trans [OF same_parts(1) same_run_cm])
  ultimately show ?thesis using same_trans [OF _ same_remove] by auto
qed

lemma same_bridge [sames]: "same_accounts s (setBridge s sid i l)" "same_accounts s (attachAgent s sid i n)"
proof -
  show l: "same_accounts s (setBridge s sid i l)" for l
    by (auto simp: setBridge_def Let_def sames intro: same_trans [OF same_parts(1) same_parts(4)] split: option.split)
  show "same_accounts s (attachAgent s sid i n)" by (simp add: attachAgent_def l)
qed

lemma same_hang_up [sames]: "same_accounts s (fst (hang_up e w s sid i ev reason ok_reply))"
proof (cases "findCall s sid i")
  case (Some x)
  obtain s1 r where step: "cm_step e w s x i ev = (s1, r)" by (cases "cm_step e w s x i ev")
  then have s1: "same_accounts s s1" using same_cm_step [of s e w x i ev] by simp
  from same_trans [OF same_trans [OF this same_remove] same_parts(3)] step s1 Some show ?thesis
    by (simp add: hang_up_def split: option.split)
qed (simp add: hang_up_def)

lemma same_accept [sames]: "same_accounts s (fst (doAccept e w s sid i client claim want clinic inbound))"
proof (cases "findCall s sid i")
  case (Some x)
  let ?owner = "if client = [] then ''claim-'' @ claim else client"
  let ?c = "setOwner (getWebhookURL s) (sv_broker s) i ?owner"
  define s1 where "s1 = on_broker (s\<lparr>sv_broker := fst ?c\<rparr>) (\<lambda>hook b. emitIncomingClaimed hook b x i ?owner)"
  define s2 where "s2 = (if want \<or> inbound = Some True
    then arm_call s1 x i clinic ''inbound'' (case getCall (sv_broker s1) i of None \<Rightarrow> [] | Some r \<Rightarrow> cr_peer r) else s1)"
  have "same_accounts s s1" unfolding s1_def by (rule same_trans [OF same_parts(8) same_parts(3)])
  then have "same_accounts s s2" by (auto simp: s2_def arm_call_def intro: same_trans [OF _ same_parts(7)])
  moreover obtain s3 r where step: "cm_step e w s2 x i CmAcceptCall = (s3, r)"
    by (cases "cm_step e w s2 x i CmAcceptCall")
  ultimately have "same_accounts s s3" using same_trans same_cm_step [of s2 e w x i CmAcceptCall] by simp
  moreover have "fst (doAccept e w s sid i client claim want clinic inbound) = (if \<not> snd ?c then s else s3)"
    unfolding doAccept_def Some option.case Let_def case_prod_beta s1_def [symmetric] s2_def [symmetric]
    using step by (simp split: option.split)
  ultimately show ?thesis by simp
qed (simp add: doAccept_def)

lemma same_dialled [sames]: "same_accounts s (start_finish w s sid q number peer i n)"
proof -
  define s1 where "s1 = upd_reg s sid (\<lambda>r. bindPeer r number i)"
  define s2 where "s2 = (if sr_agent q then attachAgent s1 sid i n else s1)"
  have "same_accounts s s2" unfolding s2_def s1_def by (auto simp: sames intro: same_trans [OF same_parts(1) same_bridge(2)])
  moreover have "same_accounts s2 (start_finish w s sid q number peer i n)"
    by (auto simp: start_finish_def s1_def [symmetric] s2_def [symmetric] Let_def case_prod_beta arm_call_def sames
        intro: same_trans [OF same_parts(7) same_parts(3)])
  ultimately show ?thesis by (rule same_trans)
qed

lemma same_audio_in [sames]: "same_accounts s (leg_audio e w s sid i p)"
  by (auto simp: leg_audio_def Let_def sames intro: same_trans [OF same_cm_step same_parts(7)] split: option.split)

lemma same_teardown [sames]: "same_accounts s (teardownAllCalls e w s sid)"
proof -
  have "same_accounts s (end_drained e w sid s p)" for s p
    by (auto simp: end_drained_def Let_def intro: same_trans [OF same_callbacks same_parts(4)] split: prod.split)
  then show ?thesis
    by (auto simp: teardownAllCalls_def intro: same_trans [OF same_parts(1) same_fold] split: option.split)
qed

section \<open>What changes accounts\<close>

lemma moves_sames: "same_accounts s1 s2 \<Longrightarrow> acct_moves s s1 \<Longrightarrow> acct_moves s s2"
  using acct_trans acct_same by blast

lemma set_update: "set (AList.update k v m) \<subseteq> insert (k, v) (set m)"
  by (induction m) auto

lemma foldl_keeps: "(\<And>s k. f (g s k) = f s) \<Longrightarrow> f (foldl g s ks) = f s"
  by (induction ks arbitrary: s) simp_all

lemma map_fst_update: "map_of m k = Some u \<Longrightarrow> map fst (AList.update k v m) = map fst m"
  by (induction m) (auto split: if_splits)

text \<open>A session may lose its keys, and may connect unless the server is blocked.\<close>

lemma moves_upd_session:
  assumes "\<And>x. ss_jid (f x) = ss_jid x \<or> ss_jid (f x) = None"
    and "\<And>x. ss_online (f x) \<Longrightarrow> ss_online x \<or> \<not> sv_blocked s"
  shows "acct_moves s (upd_session s sid f)"
proof (cases "gm_get (sv_sessions s) sid")
  case None
  then show ?thesis by (simp add: upd_session_def)
next
  case (Some x)
  let ?s = "upd_session s sid f"
  have m: "map_of (accounts s) sid = Some (account x)" using Some by (rule account_of)
  have acc: "accounts ?s = AList.update sid (account (f x)) (accounts s)" by (simp add: accounts_upd_session Some)
  have sub: "set (accounts ?s) \<subseteq> insert (sid, account (f x)) (set (accounts s))" unfolding acc by (rule set_update)
  have x: "(sid, account x) \<in> set (accounts s)" using m by (rule map_of_SomeD)
  have jids: "jids ?s \<subseteq> jids s"
  proof
    fix j assume "j \<in> jids ?s"
    then obtain k on once where "(k, Some j, on, once) \<in> set (accounts ?s)" by (auto simp: jids_def)
    with sub have "(k, Some j, on, once) = (sid, account (f x)) \<or> (k, Some j, on, once) \<in> set (accounts s)" by blast
    then show "j \<in> jids s"
    proof
      assume "(k, Some j, on, once) = (sid, account (f x))"
      then have "ss_jid x = Some j" using assms(1) [of x] by (auto simp: account_def)
      then show ?thesis using x unfolding jids_def account_def by auto
    qed (auto simp: jids_def)
  qed
  have "online_jids ?s = {}" if "sv_blocked s" "online_jids s = {}"
  proof -
    have "j \<notin> online_jids ?s" for j
    proof
      assume "j \<in> online_jids ?s"
      then obtain k once where "(k, Some j, True, once) \<in> set (accounts ?s)" by (auto simp: online_jids_def)
      with sub have "(k, Some j, True, once) = (sid, account (f x)) \<or> (k, Some j, True, once) \<in> set (accounts s)" by blast
      moreover have "(k, Some j, True, once) \<notin> set (accounts s)" using that(2) by (auto simp: online_jids_def)
      ultimately have "ss_jid (f x) = Some j" "ss_online (f x)" by (auto simp: account_def)
      then have "ss_jid x = Some j" "ss_online x" using assms [of x] that(1) by auto
      then show False using x that(2) by (auto simp: online_jids_def account_def)
    qed
    then show ?thesis by blast
  qed
  then show ?thesis
    using jids by (simp add: acct_moves_def acct_ok_def acc map_fst_update [OF m])
      (metis list.set_map map_fst_update [OF m])
qed

lemma moves_offline: "acct_moves s (upd_session s sid (\<lambda>x. x\<lparr>ss_online := False\<rparr>))"
  by (rule moves_upd_session) auto

lemma moves_keyless: "acct_moves s (upd_session s sid (\<lambda>x. x\<lparr>ss_online := False, ss_jid := None\<rparr>))"
  by (rule moves_upd_session) auto

lemma moves_shutdown: "acct_moves s (shutdown e w s sid)" "acct_moves s (replaceClient e w s sid)"
  unfolding shutdown_def replaceClient_def
  by (rule acct_trans [OF acct_same [OF same_teardown] moves_offline],
      rule acct_trans [OF acct_same [OF same_teardown] moves_keyless])

lemma upd_session_twice: "upd_session (upd_session s sid f) sid g = upd_session s sid (\<lambda>x. g (f x))"
proof -
  have "gm_put k b (gm_put k a m) = gm_put k b m" for k :: string and a b and m :: "(string, session) gomap"
    by (induction m) (auto simp: gm_put_def)
  then show ?thesis by (auto simp: upd_session_def split: option.split)
qed

lemma moves_connected: "acct_moves s (handleEvent e w s sid WaConnected)"
proof (cases "sv_blocked s")
  case True
  have "acct_moves s (upd_session s sid (\<lambda>x. x\<lparr>ss_connected_once := True, ss_online := False\<rparr>))"
    by (rule moves_upd_session) auto
  then show ?thesis using True by (simp add: Let_def upd_session_twice)
next
  case False
  let ?s = "upd_session s sid (\<lambda>x. x\<lparr>ss_connected_once := True, ss_online := True\<rparr>)"
  have "acct_moves s ?s" by (rule moves_upd_session) (use False in auto)
  then show ?thesis
    using False by (auto simp: Let_def split: option.split intro: moves_sames [OF same_setAuth] moves_sames [OF same_parts(6)])
qed

lemma moves_event: "acct_moves s (handleEvent e w s sid ev)"
proof (cases "ev = WaConnected")
  case True
  then show ?thesis by (simp only: moves_connected)
next
  case False
  then show ?thesis
    by (cases ev) (auto simp: moves_offline intro: acct_same [OF same_setAuth] acct_same [OF same_offer] acct_same [OF same_end(2)])
qed

lemma accounts_register: "accounts (register s x) = (if gm_has (sv_sessions s) (ss_id x)
    then AList.update (ss_id x) (account x) (accounts s) else accounts s @ [(ss_id x, account x)])"
proof -
  have "gm_put k y m = m @ [(k, y)]" if "gm_get m k = None" for k y and m :: "(string, session) gomap"
    using that by (induction m) (auto simp: gm_put_def gm_get_def split: if_splits)
  then show ?thesis by (auto simp: register_def accounts_def accounts_put gm_has_def)
qed

lemma accounts_unregister: "accounts (unregister s sid) = filter (\<lambda>p. fst p \<noteq> sid) (accounts s)"
proof -
  have "map (\<lambda>(k, x). (k, account x)) (AList.delete sid m) = filter (\<lambda>p. fst p \<noteq> sid) (map (\<lambda>(k, x). (k, account x)) m)"
    for m by (induction m) auto
  then show ?thesis by (simp add: unregister_def accounts_def gm_del_def)
qed

lemma moves_register:
  assumes "\<not> gm_has (sv_sessions s) (ss_id x)" and "ss_jid x = None"
  shows "acct_moves s (register s x)"
proof -
  have acc: "accounts (register s x) = accounts s @ [(ss_id x, account x)]" using assms(1) by (simp add: accounts_register)
  have new: "ss_id x \<notin> fst ` set (accounts s)"
    using assms(1) by (auto simp: gm_has_def gm_get_def accounts_def map_of_eq_None_iff image_iff)
  have "jids (register s x) = jids s" "online_jids (register s x) = online_jids s"
    using assms(2) by (auto simp: jids_def online_jids_def acc account_def)
  moreover have "sv_order (register s x) = sv_order s @ [ss_id x]" "sv_blocked (register s x) = sv_blocked s"
    by (simp_all add: register_def)
  ultimately show ?thesis using new by (auto simp: acct_moves_def acct_ok_def acc)
qed

lemma moves_unregister: "acct_moves s (unregister s sid)"
proof -
  note acc = accounts_unregister [of s sid]
  have "jids (unregister s sid) \<subseteq> jids s" "online_jids (unregister s sid) \<subseteq> online_jids s"
    by (auto simp: jids_def online_jids_def acc)
  moreover have "sv_order (unregister s sid) = remove1 sid (sv_order s)" "sv_blocked (unregister s sid) = sv_blocked s"
    by (simp_all add: unregister_def)
  moreover have "k \<in> set (remove1 sid xs)" if "k \<in> set xs" "k \<noteq> sid" for k and xs :: "string list"
    using that by simp
  moreover have "distinct (map fst (filter (\<lambda>p. fst p \<noteq> sid) xs))" if "distinct (map fst xs)" for xs :: "(string \<times> 'x) list"
    using that by (induction xs) auto
  ultimately show ?thesis unfolding acct_moves_def acct_ok_def acc by (auto simp: image_subset_iff)
qed

lemma moves_delete: "acct_moves s (fst (Delete e w s sid))"
proof (cases "Get s sid")
  case (Some kx)
  obtain k x where kx: "kx = (k, x)" by (cases kx)
  define s1 where "s1 = teardownAllCalls e w (upd_session s k (\<lambda>x. x\<lparr>ss_online := False, ss_jid := None\<rparr>)) k"
  have "acct_moves s s1" unfolding s1_def by (rule moves_sames [OF same_teardown moves_keyless])
  then have "acct_moves s (unregister s1 sid)" by (rule acct_trans [OF _ moves_unregister])
  then show ?thesis
    unfolding Delete_def Some kx
    by (auto simp: Let_def s1_def [symmetric] intro: moves_sames [OF same_parts(5)] moves_sames [OF same_parts(9)])
qed (simp add: Delete_def)

lemma moves_manager:
  "acct_moves s (fst (Stop e w s sid))" "acct_moves s (fst (PairSession e w p s sid))"
  "acct_moves s (fst (Start e w c p s sid))" "acct_moves s (fst (Logout e w s sid))"
  "\<not> gm_has (sv_sessions s) sid \<Longrightarrow> acct_moves s (fst (Create s stored p sid name))"
proof -
  show "acct_moves s (fst (Stop e w s sid))"
    by (auto simp: Stop_def moves_shutdown intro: moves_sames [OF same_setAuth] split: option.split prod.split)
  show pair: "acct_moves s (fst (PairSession e w p s sid))"
    by (auto simp: PairSession_def Let_def moves_shutdown intro: moves_sames [OF same_parts(5)] split: option.split prod.split)
  have "acct_moves s (upd_session (setAuth s k a) k (\<lambda>x. x\<lparr>ss_online := True\<rparr>))" if "\<not> sv_blocked s" for k a
  proof (rule acct_trans [OF acct_same [OF same_setAuth]])
    have "sv_blocked (setAuth s k a) = sv_blocked s" using same_setAuth [of s k a] by (simp add: same_accounts_def)
    then show "acct_moves (setAuth s k a) (upd_session (setAuth s k a) k (\<lambda>x. x\<lparr>ss_online := True\<rparr>))"
      using that by (intro moves_upd_session) auto
  qed
  then show "acct_moves s (fst (Start e w c p s sid))"
    using pair by (auto simp: Start_def Let_def acct_same [OF same_setAuth] split: option.split prod.split)
  show "acct_moves s (fst (Logout e w s sid))"
    by (auto simp: Logout_def intro!: moves_sames [OF same_setAuth moves_sames [OF same_parts(6) moves_shutdown(2)]]
        split: option.split prod.split)
  assume new: "\<not> gm_has (sv_sessions s) sid"
  have "acct_moves s (register (s\<lparr>sv_rows := rows\<rparr>) x)" if "ss_id x = sid" "ss_jid x = None" for rows x
    by (rule acct_trans [OF acct_same [OF same_parts(9)] moves_register]) (use that new in auto)
  then show "acct_moves s (fst (Create s stored p sid name))"
    by (auto simp: Create_def Let_def new_session_def intro!: moves_sames [OF same_parts(5)])
qed

lemma moves_pairing: "acct_moves s (pairing_event w s sid q)"
  by (cases q) (auto intro: acct_same [OF same_setAuth] moves_sames [OF same_setAuth] acct_same [OF same_parts(6)]
      moves_sames [OF same_parts(3)] split: option.split)

lemma same_reservation: "same_accounts s (fst (start_reserve s sid number))" "same_accounts s (release s sid number)"
  by (auto simp: start_reserve_def release_def sames split: option.split prod.split)

lemma moves_fold: "(\<And>s x. acct_moves s (f s x)) \<Longrightarrow> acct_moves s (foldl f s xs)"
proof (induction xs arbitrary: s)
  case (Cons x xs)
  from acct_trans [OF Cons.prems Cons.IH [OF Cons.prems]] show ?case by simp
qed simp

lemma moves_stop_all: "acct_moves s (stopForMigration e w s)"
  unfolding stopForMigration_def
  by (rule moves_fold) (auto intro: moves_sames [OF same_setAuth moves_shutdown(1)] split: option.split)

text \<open>Everything that happens to a server except the end of a migration (reconnectAll).\<close>

theorem accounts_move:
  assumes "\<nexists>c. ev = SvReconnect c"
  shows "acct_moves s (srv_step e s (w, ev))"
proof (cases ev)
  case (SvTimeout sid i)
  then show ?thesis by (auto intro: acct_same [OF same_timeout] split: option.split)
next
  case (SvDial sid i)
  then show ?thesis by (auto intro: acct_same [OF same_outgoing])
next
  case (SvLegGone sid i l)
  then show ?thesis by (auto simp: leg_gone_def terminateCall_def intro: acct_same [OF same_end(1)])
qed (use assms in \<open>auto simp: moves_event moves_pairing moves_manager moves_delete moves_stop_all doReject_def doEndCall_def
    intro: acct_same [OF same_cm_step] acct_same [OF same_reservation(1)] acct_same [OF same_reservation(2)]
      acct_same [OF same_dialled] acct_same [OF same_accept] acct_same [OF same_hang_up] acct_same [OF same_bridge(1)]
      acct_same [OF same_audio_in]\<close>)

section \<open>What the migration does to the accounts\<close>

lemma accounts_offline: "accounts (upd_session s sid (\<lambda>x. x\<lparr>ss_online := False\<rparr>))
    = map (\<lambda>(k, j, on, once). (k, j, on \<and> k \<noteq> sid, once)) (accounts s)" if "distinct (map fst (accounts s))"
proof -
  have gen: "map (\<lambda>(k, x). (k, account x)) (gm_put sid (x\<lparr>ss_online := False\<rparr>) m)
      = map (\<lambda>(k, j, on, once). (k, j, on \<and> k \<noteq> sid, once)) (map (\<lambda>(k, x). (k, account x)) m)"
    if "distinct (map fst m)" "gm_get m sid = Some x" for m x
    using that by (induction m) (auto simp: gm_put_def gm_get_def account_def split: if_splits
        intro!: map_cong, force)
  have none: "map (\<lambda>(k, x). (k, account x)) m
      = map (\<lambda>(k, j, on, once). (k, j, on \<and> k \<noteq> sid, once)) (map (\<lambda>(k, x). (k, account x)) m)"
    if "gm_get m sid = None" for m :: "(string \<times> session) list"
    using that by (induction m) (auto simp: gm_get_def account_def split: if_splits)
  have "distinct (map fst (sv_sessions s))" using that by (simp add: accounts_def case_prod_beta comp_def)
  then show ?thesis
    using gen none by (auto simp: upd_session_def accounts_def split: option.split)
qed

lemma accounts_setAuth [simp]: "accounts (setAuth s sid a) = accounts s" "sv_order (setAuth s sid a) = sv_order s"
  "sv_blocked (setAuth s sid a) = sv_blocked s"
  using same_setAuth [of s sid a] by (simp_all add: same_accounts_def)

lemma accounts_shutdown:
  assumes "distinct (map fst (accounts s))"
  shows "accounts (shutdown e w s sid) = map (\<lambda>(k, j, on, once). (k, j, on \<and> k \<noteq> sid, once)) (accounts s)"
    and "sv_order (shutdown e w s sid) = sv_order s" and "sv_blocked (shutdown e w s sid) = sv_blocked s"
  using same_teardown [of s e w sid] assms
  by (simp_all add: shutdown_def same_accounts_def accounts_offline)

lemma has_account: "gm_get (sv_sessions s) k = None \<longleftrightarrow> k \<notin> fst ` set (accounts s)"
  by (auto simp: gm_get_def accounts_def map_of_eq_None_iff image_iff)

text \<open>Shutting the sessions of a list down leaves those outside it alone.\<close>

lemma shutdowns:
  assumes "distinct (map fst (accounts s))" and "\<And>s k. accounts (g s k) = accounts (shutdown e w s k)"
    and "\<And>s k. sv_order (g s k) = sv_order (shutdown e w s k)" and "\<And>s k. sv_blocked (g s k) = sv_blocked (shutdown e w s k)"
  shows "accounts (foldl g s ks) = map (\<lambda>(k, j, on, once). (k, j, on \<and> k \<notin> set ks, once)) (accounts s)
    \<and> sv_order (foldl g s ks) = sv_order s \<and> sv_blocked (foldl g s ks) = sv_blocked s"
  using assms(1)
proof (induction ks arbitrary: s)
  case Nil
  then show ?case by (simp add: case_prod_beta)
next
  case (Cons k ks)
  note step = accounts_shutdown [OF Cons.prems, of e w k]
  have "distinct (map fst (accounts (g s k)))"
    using Cons.prems by (simp add: assms step case_prod_beta comp_def)
  from Cons.IH [OF this] show ?case by (simp add: assms step case_prod_beta comp_def conj_ac)
qed

lemma stopped:
  assumes "acct_shape s"
  shows "accounts (stopForMigration e w s) = map (\<lambda>(k, j, on, once). (k, j, False, once)) (accounts s)"
    and "sv_order (stopForMigration e w s) = sv_order s" and "sv_blocked (stopForMigration e w s) = sv_blocked s"
proof -
  let ?g = "\<lambda>s k. case gm_get (sv_sessions s) k of None \<Rightarrow> s
    | Some x \<Rightarrow> setAuth (shutdown e w s k) k (auth ''stopped'' (ss_jid x \<noteq> None) [])"
  have none: "shutdown e w s k = s" if "gm_get (sv_sessions s) k = None" for s k
    using that by (simp add: shutdown_def teardownAllCalls_def upd_session_def)
  have g: "accounts (?g s k) = accounts (shutdown e w s k)" "sv_order (?g s k) = sv_order (shutdown e w s k)"
    "sv_blocked (?g s k) = sv_blocked (shutdown e w s k)" for s k
    by (simp_all add: none split: option.split)
  have d: "distinct (map fst (accounts s))" using assms by (simp add: acct_shape_def)
  note all = shutdowns [where g = ?g and ks = "sv_order s", OF d g]
  have "k \<in> set (sv_order s)" if "(k, p) \<in> set (accounts s)" for k p
    using that assms by (auto simp: acct_shape_def image_subset_iff)
  then have "map (\<lambda>(k, j, on, once). (k, j, on \<and> k \<notin> set (sv_order s), once)) (accounts s)
    = map (\<lambda>(k, j, on, once). (k, j, False, once)) (accounts s)" by (intro map_cong) auto
  with all show "accounts (stopForMigration e w s) = map (\<lambda>(k, j, on, once). (k, j, False, once)) (accounts s)"
    "sv_order (stopForMigration e w s) = sv_order s" "sv_blocked (stopForMigration e w s) = sv_blocked s"
    by (simp_all add: stopForMigration_def)
qed

lemma stopped_jids:
  assumes "acct_shape s"
  shows "jids (stopForMigration e w s) = jids s" "online_jids (stopForMigration e w s) = {}"
    "acct_ok (stopForMigration e w s)"
proof -
  note st = stopped [OF assms, of e w]
  show "online_jids (stopForMigration e w s) = {}" by (auto simp: online_jids_def st)
  moreover show "jids (stopForMigration e w s) = jids s" by (force simp: jids_def st)
  ultimately show "acct_ok (stopForMigration e w s)"
    using assms by (simp add: acct_ok_def acct_shape_def st case_prod_beta comp_def image_image)
qed

lemma dropped:
  "accounts (dropAll e w s) = []" "sv_order (dropAll e w s) = []" "jids (dropAll e w s) = {}"
  "online_jids (dropAll e w s) = {}"
  by (simp_all add: dropAll_def accounts_def jids_def online_jids_def)

lemma dropped_blocked: "sv_blocked (dropAll e w s) = sv_blocked s"
proof -
  have "acct_moves s (foldl (shutdown e w) s ks)" for ks by (rule moves_fold) (rule moves_shutdown(1))
  then show ?thesis by (simp add: dropAll_def acct_moves_def)
qed

text \<open>Reconnecting changes only who is connected.\<close>

lemma reconnected:
  shows "map (\<lambda>(k, j, on, once). (k, j)) (accounts (reconnectAll connects s)) = map (\<lambda>(k, j, on, once). (k, j)) (accounts s)"
    and "sv_order (reconnectAll connects s) = sv_order s" and "sv_blocked (reconnectAll connects s) = sv_blocked s"
proof -
  let ?g = "\<lambda>s k. case gm_get (sv_sessions s) k of None \<Rightarrow> s
    | Some x \<Rightarrow> (if ss_jid x = None then s
         else upd_session (setAuth s k (auth ''connecting'' True [])) k (\<lambda>y. y\<lparr>ss_online := connects k\<rparr>))"
  have put: "map (\<lambda>(k, x). (k, ss_jid x)) (gm_put k (x\<lparr>ss_online := b\<rparr>) m) = map (\<lambda>(k, x). (k, ss_jid x)) m"
    if "gm_get m k = Some x" for k x b and m :: "(string \<times> session) list"
    using that by (induction m) (auto simp: gm_put_def gm_get_def split: if_splits)
  have key: "map (\<lambda>(k, j, on, once). (k, j)) (accounts s) = map (\<lambda>(k, x). (k, ss_jid x)) (sv_sessions s)" for s
    by (simp add: accounts_def account_def case_prod_beta comp_def)
  have upd: "map (\<lambda>(k, j, on, once). (k, j)) (accounts (upd_session s k (\<lambda>y. y\<lparr>ss_online := b\<rparr>)))
      = map (\<lambda>(k, j, on, once). (k, j)) (accounts s)" for s k b
    unfolding key by (simp add: upd_session_def put split: option.split)
  define view where "view s = (map (\<lambda>(k, j, on, once). (k, j)) (accounts s), sv_order s, sv_blocked s)" for s
  have "view (?g s k) = view s" for s k by (simp add: view_def upd split: option.split)
  from foldl_keeps [of view ?g, OF this] have "view (reconnectAll connects s) = view s"
    by (simp add: reconnectAll_def)
  then show "map (\<lambda>(k, j, on, once). (k, j)) (accounts (reconnectAll connects s)) = map (\<lambda>(k, j, on, once). (k, j)) (accounts s)"
    "sv_order (reconnectAll connects s) = sv_order s" "sv_blocked (reconnectAll connects s) = sv_blocked s"
    by (simp_all add: view_def)
qed

lemma jids_key: "jids s = {j. (\<exists>k. (k, Some j) \<in> set (map (\<lambda>(k, j, on, once). (k, j)) (accounts s)))}"
  by (force simp: jids_def)

lemma reconnected_jids:
  "jids (reconnectAll connects s) = jids s"
  "acct_shape s \<Longrightarrow> \<not> sv_blocked s \<Longrightarrow> acct_ok (reconnectAll connects s)"
proof -
  show "jids (reconnectAll connects s) = jids s" by (simp only: jids_key reconnected)
  have "map fst (accounts (reconnectAll connects s)) = map fst (accounts s)"
    using arg_cong [OF reconnected(1) [of connects s], of "map fst"] by (simp add: case_prod_beta comp_def)
  then show "acct_shape s \<Longrightarrow> \<not> sv_blocked s \<Longrightarrow> acct_ok (reconnectAll connects s)"
    by (simp add: acct_ok_def acct_shape_def reconnected) (metis list.set_map)
qed

text \<open>Restoring registers the sessions of the table with the keys the device store has.\<close>

definition restorable :: "(string \<Rightarrow> string option) \<Rightarrow> session_row list \<Rightarrow> string set" where
  "restorable device rows = {j. \<exists>r \<in> set rows. sw_jid r \<noteq> [] \<and> device (sw_jid r) = Some j}"

lemma registered:
  assumes "acct_shape s"
  shows "acct_shape (register s x)" "sv_blocked (register s x) = sv_blocked s"
    "jids (register s x) \<subseteq> jids s \<union> set_option (ss_jid x)"
    "\<not> ss_online x \<Longrightarrow> online_jids (register s x) \<subseteq> online_jids s"
proof -
  have sub: "set (accounts (register s x)) \<subseteq> insert (ss_id x, account x) (set (accounts s))"
    using set_update [of "ss_id x" "account x" "accounts s"] by (auto simp: accounts_register)
  have dist: "distinct (map fst (accounts (register s x)))"
    using assms by (auto simp: acct_shape_def accounts_register gm_has_def has_account distinct_update)
  have "sv_order (register s x) = sv_order s @ [ss_id x]" by (simp add: register_def)
  then show "acct_shape (register s x)" using assms sub dist by (fastforce simp: acct_shape_def image_subset_iff)
  show "sv_blocked (register s x) = sv_blocked s" by (simp add: register_def)
  show "jids (register s x) \<subseteq> jids s \<union> set_option (ss_jid x)"
    using sub by (fastforce simp: jids_def account_def)
  show "\<not> ss_online x \<Longrightarrow> online_jids (register s x) \<subseteq> online_jids s"
    using sub by (fastforce simp: online_jids_def account_def)
qed

lemma restored_row:
  assumes "acct_shape s"
  shows "acct_shape (restore_row device connects s r)" "sv_blocked (restore_row device connects s r) = sv_blocked s"
    "jids (restore_row device connects s r) \<subseteq> jids s \<union> restorable device [r]"
    "sv_blocked s \<Longrightarrow> online_jids (restore_row device connects s r) \<subseteq> online_jids s"
proof -
  have "\<exists>x. restore_row device connects s r = register s x \<and> set_option (ss_jid x) \<subseteq> restorable device [r]
      \<and> (sv_blocked s \<longrightarrow> \<not> ss_online x)"
    by (cases "sw_jid r = []"; cases "device (sw_jid r)")
      (auto simp: restore_row_def Let_def new_session_def restorable_def)
  then obtain x where x: "restore_row device connects s r = register s x" "set_option (ss_jid x) \<subseteq> restorable device [r]"
    "sv_blocked s \<longrightarrow> \<not> ss_online x" by blast
  note reg = registered [OF assms, of x]
  show "acct_shape (restore_row device connects s r)" "sv_blocked (restore_row device connects s r) = sv_blocked s"
    "jids (restore_row device connects s r) \<subseteq> jids s \<union> restorable device [r]"
    "sv_blocked s \<Longrightarrow> online_jids (restore_row device connects s r) \<subseteq> online_jids s"
    using reg x by auto
qed

lemma restored_rows:
  assumes "acct_shape s"
  shows "acct_shape (foldl (restore_row device connects) s rs)
    \<and> sv_blocked (foldl (restore_row device connects) s rs) = sv_blocked s
    \<and> jids (foldl (restore_row device connects) s rs) \<subseteq> jids s \<union> restorable device rs
    \<and> (sv_blocked s \<longrightarrow> online_jids (foldl (restore_row device connects) s rs) \<subseteq> online_jids s)"
  using assms
proof (induction rs arbitrary: s)
  case (Cons r rs)
  note row = restored_row [OF Cons.prems, of device connects r]
  from Cons.IH [OF row(1)] row show ?case by (auto simp: restorable_def)
qed (simp add: restorable_def)

lemma restored:
  assumes "acct_ok s"
  shows "acct_ok (Restore panel rows device connects s)"
    "sv_blocked (Restore panel rows device connects s) = sv_blocked s"
    "jids (Restore panel rows device connects s) \<subseteq> jids s \<union> (case rows of None \<Rightarrow> {} | Some rs \<Rightarrow> restorable device rs)"
proof -
  let ?s1 = "s\<lparr>sv_panel_inbound := (case panel of None \<Rightarrow> True | Some b \<Rightarrow> b)\<rparr>"
  have s1: "same_accounts s ?s1" by (simp add: same_accounts_def accounts_def)
  then have shape: "acct_shape ?s1" "sv_blocked ?s1 = sv_blocked s" "jids ?s1 = jids s" "online_jids ?s1 = online_jids s"
    using assms by (simp_all add: acct_shape_def acct_ok_def same_accounts_def jids_def online_jids_def)
  have list: "accounts (list_sessions x) = accounts x" "sv_order (list_sessions x) = sv_order x"
    "sv_blocked (list_sessions x) = sv_blocked x" for x
    using same_parts(5) [of x] by (simp_all add: same_accounts_def)
  then have list': "acct_shape (list_sessions x) = acct_shape x" "jids (list_sessions x) = jids x"
    "online_jids (list_sessions x) = online_jids x" for x
    by (simp_all add: acct_shape_def jids_def online_jids_def)
  note rows = restored_rows [OF shape(1), of device connects]
  show "acct_ok (Restore panel rows device connects s)"
    using rows shape assms by (cases rows) (auto simp: Restore_def Let_def list list' acct_ok_shape)
  show "sv_blocked (Restore panel rows device connects s) = sv_blocked s"
    using rows by (auto simp: Restore_def Let_def list split: option.split)
  show "jids (Restore panel rows device connects s) \<subseteq> jids s \<union> (case rows of None \<Rightarrow> {} | Some rs \<Rightarrow> restorable device rs)"
    using rows shape by (auto simp: Restore_def Let_def list' split: option.split)
qed

text \<open>Fields that have nothing to do with accounts.\<close>

lemma accounts_fields [simp]:
  "accounts (s\<lparr>sv_rec := r\<rparr>) = accounts s" "accounts (s\<lparr>sv_blocked := b\<rparr>) = accounts s"
  "accounts (s\<lparr>sv_rows := rows\<rparr>) = accounts s"
  by (simp_all add: accounts_def)

lemma jids_fields [simp]:
  "jids (s\<lparr>sv_rec := r\<rparr>) = jids s" "jids (s\<lparr>sv_blocked := b\<rparr>) = jids s" "jids (s\<lparr>sv_rows := rows\<rparr>) = jids s"
  "online_jids (s\<lparr>sv_rec := r\<rparr>) = online_jids s" "online_jids (s\<lparr>sv_blocked := b\<rparr>) = online_jids s"
  "online_jids (s\<lparr>sv_rows := rows\<rparr>) = online_jids s"
  by (simp_all add: jids_def online_jids_def)

lemma acct_ok_fields [simp]:
  "acct_ok (s\<lparr>sv_rec := r\<rparr>) = acct_ok s" "acct_ok (s\<lparr>sv_rows := rows\<rparr>) = acct_ok s"
  "acct_shape (s\<lparr>sv_rec := r\<rparr>) = acct_shape s" "acct_shape (s\<lparr>sv_blocked := b\<rparr>) = acct_shape s"
  "acct_shape (s\<lparr>sv_rows := rows\<rparr>) = acct_shape s"
  by (simp_all add: acct_ok_def acct_shape_def)

lemma unpaired_jids:
  assumes "acct_shape s" and "pairedCount s = 0"
  shows "jids s = {}"
proof -
  have "j \<notin> jids s" for j
  proof
    assume "j \<in> jids s"
    then obtain k on once where kx: "(k, Some j, on, once) \<in> set (accounts s)" by (auto simp: jids_def)
    then obtain x where "(k, x) \<in> set (sv_sessions s)" and j: "ss_jid x = Some j"
      by (auto simp: accounts_def account_def)
    moreover have "distinct (map fst (sv_sessions s))"
      using assms(1) by (simp add: acct_shape_def accounts_def case_prod_beta comp_def)
    ultimately have x: "gm_get (sv_sessions s) k = Some x" by (simp add: gm_get_def)
    moreover have "k \<in> set (sv_order s)" using assms(1) kx by (force simp: acct_shape_def image_subset_iff)
    ultimately have "x \<in> set (all_sessions s)"
      unfolding all_sessions_def List.map_filter_def by (simp add: image_iff) (metis option.distinct(1) option.sel)
    then show False using assms(2) j by (auto simp: pairedCount_def filter_empty_conv)
  qed
  then show ?thesis by blast
qed

text \<open>Replacing the clients of all sessions leaves no keys in use.\<close>

lemma replaced_jids:
  assumes "distinct (map fst (accounts s))"
  shows "(k, Some j, on, once) \<in> set (accounts (replaceClient e w s sid)) \<Longrightarrow>
      k \<noteq> sid \<and> (k, Some j, on, once) \<in> set (accounts s)"
    and "map fst (accounts (replaceClient e w s sid)) = map fst (accounts s)"
proof -
  let ?t = "teardownAllCalls e w s sid"
  have t: "accounts ?t = accounts s" using same_teardown [of s e w sid] by (simp add: same_accounts_def)
  then have d: "distinct (map fst (accounts ?t))" using assms by simp
  have acc: "accounts (replaceClient e w s sid) = (case gm_get (sv_sessions ?t) sid of None \<Rightarrow> accounts s
     | Some x \<Rightarrow> AList.update sid (None, False, ss_connected_once x) (accounts s))"
    by (simp add: replaceClient_def accounts_upd_session t account_def cong: option.case_cong)
  have upd: "(k, v) \<in> set (AList.update sid u m) \<Longrightarrow> k = sid \<and> v = u \<or> k \<noteq> sid \<and> (k, v) \<in> set m"
    if "distinct (map fst m)" for k v u and m :: "(string \<times> string option \<times> bool \<times> bool) list"
    using that by (induction m) (auto split: if_splits, force)
  show "(k, Some j, on, once) \<in> set (accounts (replaceClient e w s sid)) \<Longrightarrow>
      k \<noteq> sid \<and> (k, Some j, on, once) \<in> set (accounts s)"
  proof (cases "gm_get (sv_sessions ?t) sid")
    case None
    then have "sid \<notin> fst ` set (accounts s)" using t by (simp add: has_account)
    then show "(k, Some j, on, once) \<in> set (accounts (replaceClient e w s sid)) \<Longrightarrow> ?thesis"
      using None by (auto simp: acc image_iff)
  next
    case (Some x)
    then show "(k, Some j, on, once) \<in> set (accounts (replaceClient e w s sid)) \<Longrightarrow> ?thesis"
      using upd [OF assms] by (fastforce simp: acc)
  qed
  show "map fst (accounts (replaceClient e w s sid)) = map fst (accounts s)"
  proof (cases "gm_get (sv_sessions ?t) sid")
    case (Some x)
    from account_of [OF this] map_fst_update show ?thesis using t by (simp add: acc Some)
  qed (simp add: acc)
qed

lemma moves_replaced: "acct_moves s (setAuth (replaceClient e w s k) k a)"
  by (rule moves_sames [OF same_setAuth moves_shutdown(2)])

end
