(* ===== verification/Migration.thy ===== *)
theory Migration
  imports Accounts
begin

text \<open>
  The migration of an instance to another server: src/cmd/server/migration.go,
  migration_source.go and migration_target.go.

  A node is a server with its device store (the JIDs whose keys it has), the migration state in
  memory and as last saved, and the job a target runs.  The job is a program counter, so that
  restarts, messages and accounts come in between its steps; every step is a function of the code,
  and the answer of the source to the request of the step is an argument (\<open>None\<close>: no answer).
  Whether writes succeed, and what connects, is drawn from \<open>mig_draws\<close>.  The progress display, the
  log and the error text are left out, and so are the recordings that travel along.
\<close>

section \<open>State\<close>

datatype mig_role = NoRole | RoleSource | RoleTarget

datatype mig_phase =
    PhNone | PhLocked | PhCommitted | PhUnlocked
  | PhPreparing | PhImported | PhConnecting | PhCommitting | PhRollingBack | PhDone | PhAborted | PhFailed

record mig_session =
  md_id :: string
  md_name :: string
  md_jid :: string

record mig_file =
  mi_name :: string
  mi_call :: string
  mi_session :: string
  mi_size :: int
  mi_sha :: string

record manifest =
  mf_id :: string
  mf_db_size :: int
  mf_db_sha :: string
  mf_tables :: "(string, nat) gomap"
  mf_sessions :: "mig_session list"
  mf_files :: "mig_file list"

record mig_report =
  rt_paired :: nat
  rt_connected :: nat
  rt_missing :: "string list"
  rt_committed :: bool

record mig_state =
  ms_role :: mig_role
  ms_id :: string
  ms_phase :: mig_phase
  ms_peer :: string
  ms_manifest :: "manifest option"
  ms_report :: "mig_report option"

definition no_migration :: mig_state where
  "no_migration = \<lparr>ms_role = NoRole, ms_id = [], ms_phase = PhNone, ms_peer = [], ms_manifest = None, ms_report = None\<rparr>"

text \<open>What a copy of the database holds of the accounts.\<close>

record snapshot =
  sn_rows :: "(string, session_row) gomap"
  sn_keys :: "string list"

datatype mig_job =
    JIdle
  | JLock
  | JFetch manifest
  | JImport manifest snapshot
  | JWait manifest
  | JCommit string nat
  | JRollback
  | JAbort nat

record mig_node =
  nd_srv :: server
  nd_keys :: "string list"               \<comment> \<open>the device store\<close>
  nd_state :: mig_state
  nd_saved :: mig_state                  \<comment> \<open>the row of migration_state\<close>
  nd_peer_key :: string
  nd_saved_key :: string
  nd_self :: string
  nd_api_key :: string
  nd_job :: mig_job
  nd_out :: "(string, snapshot) gomap"   \<comment> \<open>migration-out-ID/snapshot.db\<close>
  nd_backup :: "(string, snapshot) gomap" \<comment> \<open>migration-in-ID/before.db\<close>

datatype clone_result = CloneFails | CloneLost | CloneDone   \<comment> \<open>lost: all done but the commit fails\<close>

record mig_draws =
  mg_persist :: "nat \<Rightarrow> bool"             \<comment> \<open>the writes of migration_state, in order\<close>
  mg_connects :: "string \<Rightarrow> bool"
  mg_rec_db :: "nat \<Rightarrow> bool"
  mg_built :: "(int \<times> string \<times> (string, nat) gomap \<times> mig_file list) option"
  mg_wipe :: bool
  mg_verified :: bool                    \<comment> \<open>download and prepareSnapshot succeed\<close>
  mg_backup :: bool
  mg_placed :: bool
  mg_clone :: clone_result
  mg_panel :: "bool option"
  mg_list :: bool                        \<comment> \<open>the sessions table can be read\<close>
  mg_disk :: "string \<Rightarrow> nat"

section \<open>migration.go\<close>

text \<open>update changes the state in memory only if it was saved.\<close>

definition update :: "bool \<Rightarrow> (mig_state \<Rightarrow> mig_state) \<Rightarrow> mig_node \<Rightarrow> mig_node" where
  "update ok f n =
     (if ok then n\<lparr>nd_state := f (nd_state n), nd_saved := f (nd_state n), nd_saved_key := nd_peer_key n\<rparr> else n)"

definition setPeerKey :: "string \<Rightarrow> mig_node \<Rightarrow> mig_node" where
  "setPeerKey k n = n\<lparr>nd_peer_key := k\<rparr>"

definition blocksSessions :: "mig_state \<Rightarrow> bool" where
  "blocksSessions st =
     (case ms_role st of
        RoleSource \<Rightarrow> ms_phase st = PhLocked \<or> ms_phase st = PhCommitted
      | RoleTarget \<Rightarrow> ms_phase st = PhPreparing \<or> ms_phase st = PhRollingBack
      | NoRole \<Rightarrow> False)"

definition targetBusy :: "mig_state \<Rightarrow> bool" where
  "targetBusy st \<longleftrightarrow> ms_role st = RoleTarget \<and> ms_phase st \<notin> {PhDone, PhAborted, PhFailed, PhNone}"

definition has_start :: "string \<Rightarrow> string \<Rightarrow> bool" where
  "has_start s pre = (take (length pre) s = pre)"

text \<open>guard: a request gets 423 while the migration needs everything stopped.\<close>

definition mig_guard :: "mig_node \<Rightarrow> string \<Rightarrow> string \<Rightarrow> bool" where
  "mig_guard n verb path \<longleftrightarrow>
     verb \<noteq> ''GET'' \<and> (has_start path ''/api/sessions'' \<or> path = ''/api/panel-settings'') \<and> blocksSessions (nd_state n)"

definition on_srv :: "(server \<Rightarrow> server) \<Rightarrow> mig_node \<Rightarrow> mig_node" where
  "on_srv f n = n\<lparr>nd_srv := f (nd_srv n)\<rparr>"

definition block :: "bool \<Rightarrow> mig_node \<Rightarrow> mig_node" where
  "block b = on_srv (\<lambda>s. s\<lparr>sv_blocked := b\<rparr>)"

definition pause_rec :: "mig_node \<Rightarrow> mig_node \<times> bool" where
  "pause_rec n = (let (c, drained) = rec_pause (sv_rec (nd_srv n)) in (on_srv (\<lambda>s. s\<lparr>sv_rec := c\<rparr>) n, drained))"

definition resume_rec :: "srv_draws \<Rightarrow> mig_draws \<Rightarrow> mig_node \<Rightarrow> mig_node" where
  "resume_rec w g = on_srv (\<lambda>s. s\<lparr>sv_rec := rec_resume (mg_rec_db g) (now_ms w) (sv_rec s)\<rparr>)"

section \<open>The source (migration_source.go)\<close>

datatype mig_error = MigConflict | MigInternal

definition hex_digits :: string where "hex_digits = ''0123456789abcdef''"

definition validMigrationID :: "string \<Rightarrow> bool" where
  "validMigrationID i \<longleftrightarrow> length i = 32 \<and> list_all (\<lambda>c. c \<in> set hex_digits) i"

definition unlockSourceLocked :: "srv_draws \<Rightarrow> mig_draws \<Rightarrow> nat \<Rightarrow> mig_node \<Rightarrow> mig_node" where
  "unlockSourceLocked w g k n =
     (let i = ms_id (nd_state n);
          n1 = update (mg_persist g k) (\<lambda>st. st\<lparr>ms_phase := PhUnlocked\<rparr>) n;
          n2 = block False (n1\<lparr>nd_out := gm_del i (nd_out n1)\<rparr>)
      in resume_rec w g (on_srv (reconnectAll (mg_connects g)) n2))"

text \<open>The copy made by VACUUM INTO and what the manifest says of it.\<close>

definition buildSnapshot :: "mig_draws \<Rightarrow> string \<Rightarrow> mig_node \<Rightarrow> (manifest \<times> snapshot) option" where
  "buildSnapshot g i n =
     (case mg_built g of
        None \<Rightarrow> None
      | Some (bytes, sha, tables, files) \<Rightarrow>
          Some (\<lparr>mf_id = i, mf_db_size = bytes, mf_db_sha = sha, mf_tables = tables,
                 mf_sessions = map (\<lambda>(k, r). \<lparr>md_id = sw_id r, md_name = sw_name r, md_jid = sw_jid r\<rparr>) (sv_rows (nd_srv n)),
                 mf_files = files\<rparr>,
                \<lparr>sn_rows = sv_rows (nd_srv n), sn_keys = nd_keys n\<rparr>))"

definition lockSource ::
    "srv_env \<Rightarrow> srv_draws \<Rightarrow> mig_draws \<Rightarrow> string \<Rightarrow> string \<Rightarrow> mig_node \<Rightarrow> mig_node \<times> (mig_error + manifest)" where
  "lockSource e w g i target n =
     (let st = nd_state n; s = nd_srv n in
      if ms_role st = RoleSource \<and> ms_phase st = PhLocked \<and> ms_id st = i \<and> ms_manifest st \<noteq> None
      then (n, Inr (the (ms_manifest st)))
      else if ms_role st = RoleSource \<and> (ms_phase st = PhLocked \<or> ms_phase st = PhCommitted) then (n, Inl MigConflict)
      else if targetBusy st then (n, Inl MigConflict)
      else if 0 < activeCallCount s \<or> 0 < liveCount (sv_rec s) then (n, Inl MigConflict)
      else if \<not> mg_persist g 0 then (n, Inl MigInternal)
      else let n1 = block True (update True (\<lambda>_. no_migration\<lparr>ms_role := RoleSource, ms_id := i, ms_phase := PhLocked,
                        ms_peer := target\<rparr>) n);
               (n2, drained) = pause_rec n1
           in if \<not> drained then (unlockSourceLocked w g 1 n2, Inl MigConflict)
              else let n3 = on_srv (stopForMigration e w) n2
                   in case buildSnapshot g i n3 of
                        None \<Rightarrow> (unlockSourceLocked w g 1 n3, Inl MigInternal)
                      | Some (mf, snap) \<Rightarrow>
                          (let n4 = n3\<lparr>nd_out := gm_put i snap (nd_out n3)\<rparr>
                           in if mg_persist g 1
                              then (update True (\<lambda>st. st\<lparr>ms_manifest := Some mf\<rparr>) n4, Inr mf)
                              else (unlockSourceLocked w g 2 n4, Inl MigInternal)))"

text \<open>One transaction deletes the whatsmeow tables and the JIDs of the sessions.\<close>

definition wipeLocalKeys :: "mig_node \<Rightarrow> mig_node" where
  "wipeLocalKeys n =
     on_srv (\<lambda>s. s\<lparr>sv_rows := map (\<lambda>(k, r). (k, r\<lparr>sw_jid := []\<rparr>)) (sv_rows s)\<rparr>) (n\<lparr>nd_keys := []\<rparr>)"

definition forget_clients :: "srv_env \<Rightarrow> srv_draws \<Rightarrow> server \<Rightarrow> server" where
  "forget_clients e w s =
     foldl (\<lambda>s k. case gm_get (sv_sessions s) k of None \<Rightarrow> s
          | Some x \<Rightarrow> setAuth (replaceClient e w s k) k (auth ''logged_out'' False [])) s (sv_order s)"

definition commitSource ::
    "srv_env \<Rightarrow> srv_draws \<Rightarrow> mig_draws \<Rightarrow> string \<Rightarrow> string \<Rightarrow> mig_node \<Rightarrow> mig_node \<times> mig_error option" where
  "commitSource e w g i sha n =
     (let st = nd_state n in
      if ms_role st = RoleSource \<and> ms_phase st = PhCommitted \<and> ms_id st = i then (n, None)
      else if ms_role st \<noteq> RoleSource \<or> ms_id st \<noteq> i then (n, Some MigConflict)
      else if ms_phase st \<noteq> PhLocked then (n, Some MigConflict)
      else if (case ms_manifest st of None \<Rightarrow> True | Some mf \<Rightarrow> mf_db_sha mf \<noteq> sha) then (n, Some MigConflict)
      else if \<not> mg_wipe g then (n, Some MigInternal)
      else let n1 = on_srv (forget_clients e w) (wipeLocalKeys n)
           in if \<not> mg_persist g 0 then (n1, Some MigInternal)
              else let n2 = update True (\<lambda>st. st\<lparr>ms_phase := PhCommitted\<rparr>) n1
                   in (n2\<lparr>nd_out := gm_del i (nd_out n2)\<rparr>, None))"

definition abortSource :: "srv_draws \<Rightarrow> mig_draws \<Rightarrow> string \<Rightarrow> mig_node \<Rightarrow> mig_node \<times> mig_error option" where
  "abortSource w g i n =
     (let st = nd_state n in
      if ms_role st \<noteq> RoleSource \<or> ms_id st \<noteq> i \<or> ms_phase st = PhUnlocked then (n, None)
      else if ms_phase st = PhCommitted then (n, Some MigConflict)
      else (unlockSourceLocked w g 0 n, None))"

text \<open>The requests a source answers and its answers; an error is its status.\<close>

datatype mig_msg = MLock string string | MFile string string | MCommit string string | MAbort string

datatype mig_reply = RManifest manifest | RSnapshot snapshot | RDone | RError nat

definition error_status :: "mig_error \<Rightarrow> nat" where
  "error_status err = (case err of MigConflict \<Rightarrow> 409 | MigInternal \<Rightarrow> 500)"

definition handleMigrationLock ::
    "srv_env \<Rightarrow> srv_draws \<Rightarrow> mig_draws \<Rightarrow> string \<Rightarrow> string \<Rightarrow> mig_node \<Rightarrow> mig_node \<times> mig_reply" where
  "handleMigrationLock e w g i target n =
     (if \<not> validMigrationID i then (n, RError 400)
      else case lockSource e w g i target n of
        (n1, Inl err) \<Rightarrow> (n1, RError (error_status err)) | (n1, Inr mf) \<Rightarrow> (n1, RManifest mf))"

definition handleMigrationFile :: "string \<Rightarrow> string \<Rightarrow> mig_node \<Rightarrow> mig_reply" where
  "handleMigrationFile i name n =
     (let st = nd_state n in
      case (ms_role st, ms_phase st, ms_manifest st) of
        (RoleSource, PhLocked, Some mf) \<Rightarrow>
          (if ms_id st \<noteq> i then RError 409
           else if name = ''db''
           then (case gm_get (nd_out n) i of None \<Rightarrow> RError 500 | Some snap \<Rightarrow> RSnapshot snap)
           else if list_ex (\<lambda>f. mi_name f = name) (mf_files mf) then RDone else RError 404)
      | _ \<Rightarrow> RError 409)"

definition handleMigrationCommit ::
    "srv_env \<Rightarrow> srv_draws \<Rightarrow> mig_draws \<Rightarrow> string \<Rightarrow> string \<Rightarrow> mig_node \<Rightarrow> mig_node \<times> mig_reply" where
  "handleMigrationCommit e w g i sha n =
     (case commitSource e w g i sha n of
        (n1, Some err) \<Rightarrow> (n1, RError (error_status err)) | (n1, None) \<Rightarrow> (n1, RDone))"

definition handleMigrationAbort :: "srv_draws \<Rightarrow> mig_draws \<Rightarrow> string \<Rightarrow> mig_node \<Rightarrow> mig_node \<times> mig_reply" where
  "handleMigrationAbort w g i n =
     (case abortSource w g i n of
        (n1, Some err) \<Rightarrow> (n1, RError (error_status err)) | (n1, None) \<Rightarrow> (n1, RDone))"

text \<open>Behind the API key check.\<close>

definition serve :: "srv_env \<Rightarrow> srv_draws \<Rightarrow> mig_draws \<Rightarrow> mig_node \<Rightarrow> string \<times> mig_msg \<Rightarrow> mig_node \<times> mig_reply" where
  "serve e w g n p =
     (if nd_api_key n = [] \<or> fst p \<noteq> nd_api_key n then (n, RError 401)
      else case snd p of
        MLock i target \<Rightarrow> handleMigrationLock e w g i target n
      | MFile i name \<Rightarrow> (n, handleMigrationFile i name n)
      | MCommit i sha \<Rightarrow> handleMigrationCommit e w g i sha n
      | MAbort i \<Rightarrow> handleMigrationAbort w g i n)"

section \<open>The target (migration_target.go)\<close>

definition permanent :: "nat \<Rightarrow> bool" where
  "permanent status \<longleftrightarrow> status div 100 = 4 \<and> status \<noteq> 408 \<and> status \<noteq> 429"

definition startImport ::
    "mig_draws \<Rightarrow> string \<Rightarrow> string \<Rightarrow> string \<Rightarrow> mig_node \<Rightarrow> mig_node \<times> mig_error option" where
  "startImport g base key i n =
     (let st = nd_state n in
      if nd_job n \<noteq> JIdle \<or> targetBusy st then (n, Some MigConflict)
      else if ms_role st = RoleSource \<and> blocksSessions st then (n, Some MigConflict)
      else if 0 < pairedCount (nd_srv n) then (n, Some MigConflict)
      else if 0 < activeCallCount (nd_srv n) then (n, Some MigConflict)
      else if \<not> mg_persist g 0 then (setPeerKey [] n, Some MigInternal)
      else ((block True (update True (\<lambda>_. no_migration\<lparr>ms_role := RoleTarget, ms_id := i, ms_phase := PhPreparing,
              ms_peer := base\<rparr>) (setPeerKey key n)))\<lparr>nd_job := JLock\<rparr>, None))"

text \<open>failBeforeImport up to the first abort it sends (finishAborted, abortWithRetry).\<close>

definition failBeforeImport :: "srv_draws \<Rightarrow> mig_draws \<Rightarrow> mig_node \<Rightarrow> mig_node" where
  "failBeforeImport w g n =
     (let n1 = block False n
      in (if ct_paused (sv_rec (nd_srv n1)) then resume_rec w g n1 else n1)\<lparr>nd_job := JAbort 0\<rparr>)"

text \<open>fetchAndVerify, at the answer to the lock and at the end of the download.\<close>

definition on_locked :: "srv_draws \<Rightarrow> mig_draws \<Rightarrow> mig_reply option \<Rightarrow> mig_node \<Rightarrow> mig_node" where
  "on_locked w g r n =
     (case r of
        Some (RManifest mf) \<Rightarrow>
          (if mf_id mf \<noteq> ms_id (nd_state n) \<or> mf_db_size mf \<le> 0 \<or> length (mf_db_sha mf) \<noteq> 64
              \<or> \<not> mg_persist g 0
           then failBeforeImport w g n
           else (update True (\<lambda>st. st\<lparr>ms_manifest := Some mf\<rparr>) n)\<lparr>nd_job := JFetch mf\<rparr>)
      | _ \<Rightarrow> failBeforeImport w g n)"

definition on_fetched :: "srv_draws \<Rightarrow> mig_draws \<Rightarrow> manifest \<Rightarrow> mig_reply option \<Rightarrow> mig_node \<Rightarrow> mig_node" where
  "on_fetched w g mf r n =
     (case r of
        Some (RSnapshot snap) \<Rightarrow> (if mg_verified g then n\<lparr>nd_job := JImport mf snap\<rparr> else failBeforeImport w g n)
      | _ \<Rightarrow> failBeforeImport w g n)"

text \<open>The device store whatsmeow reads.\<close>

definition device_of :: "mig_node \<Rightarrow> string \<Rightarrow> string option" where
  "device_of n j = (if j \<in> set (nd_keys n) then Some j else None)"

definition restore_node :: "mig_draws \<Rightarrow> mig_node \<Rightarrow> mig_node" where
  "restore_node g n =
     on_srv (Restore (mg_panel g) (if mg_list g then Some (map snd (sv_rows (nd_srv n))) else None) (device_of n)
       (mg_connects g)) n"

definition reload :: "srv_env \<Rightarrow> srv_draws \<Rightarrow> mig_draws \<Rightarrow> mig_node \<Rightarrow> mig_node" where
  "reload e w g n = restore_node g (on_srv (dropAll e w) n)"

text \<open>
  cloneTables: the tables are replaced in one transaction in which \<open>f\<close> of the state is saved,
  too; updateWith changes the state in memory before the commit.
\<close>

definition clone_tables :: "mig_draws \<Rightarrow> snapshot \<Rightarrow> (mig_state \<Rightarrow> mig_state) \<Rightarrow> mig_node \<Rightarrow> mig_node \<times> bool" where
  "clone_tables g snap f n =
     (case mg_clone g of
        CloneFails \<Rightarrow> (n, False)
      | CloneLost \<Rightarrow> (n\<lparr>nd_state := f (nd_state n)\<rparr>, False)
      | CloneDone \<Rightarrow>
          (on_srv (\<lambda>s. s\<lparr>sv_rows := sn_rows snap\<rparr>) (update True f (n\<lparr>nd_keys := sn_keys snap\<rparr>)), True))"

definition importClone ::
    "srv_env \<Rightarrow> srv_draws \<Rightarrow> mig_draws \<Rightarrow> manifest \<Rightarrow> snapshot \<Rightarrow> mig_node \<Rightarrow> mig_node \<times> bool" where
  "importClone e w g mf snap n =
     (let (n1, drained) = pause_rec n in
      if \<not> drained then (resume_rec w g n1, False)
      else let n2 = on_srv (dropAll e w) n1;
               restoreB = (\<lambda>n. resume_rec w g (reload e w g n))
           in if \<not> mg_backup g then (restoreB n2, False)
              else let n3 = n2\<lparr>nd_backup := gm_put (ms_id (nd_state n2))
                              \<lparr>sn_rows = sv_rows (nd_srv n2), sn_keys = nd_keys n2\<rparr> (nd_backup n2)\<rparr>
                   in if \<not> mg_placed g then (restoreB n3, False)
                      else case clone_tables g snap
                             (\<lambda>st. st\<lparr>ms_phase := PhImported,
                                ms_report := Some \<lparr>rt_paired = 0, rt_connected = 0, rt_missing = [], rt_committed = False\<rparr>\<rparr>) n3 of
                        (n4, False) \<Rightarrow> (restoreB n4, False)
                      | (n4, True) \<Rightarrow> (resume_rec w g (reload e w g (block False n4)), True))"

text \<open>afterImport up to the wait, and after it.\<close>

definition afterImport :: "mig_draws \<Rightarrow> nat \<Rightarrow> manifest \<Rightarrow> mig_node \<Rightarrow> mig_node" where
  "afterImport g k mf n = (update (mg_persist g k) (\<lambda>st. st\<lparr>ms_phase := PhConnecting\<rparr>) n)\<lparr>nd_job := JWait mf\<rparr>"

definition commit_start :: "mig_draws \<Rightarrow> nat \<Rightarrow> string \<Rightarrow> mig_node \<Rightarrow> mig_node" where
  "commit_start g k sha n = (update (mg_persist g k) (\<lambda>st. st\<lparr>ms_phase := PhCommitting\<rparr>) n)\<lparr>nd_job := JCommit sha 0\<rparr>"

definition ever_connected :: "mig_node \<Rightarrow> nat" where
  "ever_connected n = (case connectedCount (\<lambda>_. True) (nd_srv n) of (now, ever, paired, missing) \<Rightarrow> ever)"

definition empty_snapshot :: snapshot where
  "empty_snapshot = \<lparr>sn_rows = [], sn_keys = []\<rparr>"

definition restoreBackup :: "srv_env \<Rightarrow> srv_draws \<Rightarrow> mig_draws \<Rightarrow> mig_node \<Rightarrow> mig_node \<times> bool" where
  "restoreBackup e w g n =
     (let n1 = on_srv (dropAll e w) n;
          snap = (case gm_get (nd_backup n1) (ms_id (nd_state n1)) of None \<Rightarrow> empty_snapshot | Some b \<Rightarrow> b)
      in clone_tables g snap (\<lambda>st. st) n1)"

text \<open>A nil manifest would panic in the goroutine; the job then just ends here.\<close>

definition rollback :: "srv_env \<Rightarrow> srv_draws \<Rightarrow> mig_draws \<Rightarrow> nat \<Rightarrow> mig_node \<Rightarrow> mig_node" where
  "rollback e w g k n =
     (let n1 = update (mg_persist g k) (\<lambda>st. st\<lparr>ms_phase := PhRollingBack\<rparr>) n;
          n2 = on_srv (stopForMigration e w) (fst (pause_rec (block True n1)))
      in if 0 < ever_connected n2
         then let n3 = resume_rec w g (on_srv (reconnectAll (mg_connects g)) (block False n2))
              in case ms_manifest (nd_state n3) of
                   None \<Rightarrow> n3\<lparr>nd_job := JIdle\<rparr> | Some mf \<Rightarrow> commit_start g (k + 1) (mf_db_sha mf) n3
         else case restoreBackup e w g n2 of
                (n3, False) \<Rightarrow> (update (mg_persist g (k + 1)) (\<lambda>st. st) n3)\<lparr>nd_job := JIdle\<rparr>
              | (n3, True) \<Rightarrow> (resume_rec w g (reload e w g n3))\<lparr>nd_job := JAbort 0\<rparr>)"

definition on_waited :: "srv_env \<Rightarrow> srv_draws \<Rightarrow> mig_draws \<Rightarrow> manifest \<Rightarrow> mig_node \<Rightarrow> mig_node" where
  "on_waited e w g mf n =
     (case connectedCount (\<lambda>_. True) (nd_srv n) of (now, ever, paired, missing) \<Rightarrow>
        (let n1 = update (mg_persist g 0) (\<lambda>st. st\<lparr>ms_report := Some (case ms_report st of
                None \<Rightarrow> \<lparr>rt_paired = paired, rt_connected = ever, rt_missing = missing, rt_committed = False\<rparr>
              | Some r \<Rightarrow> r\<lparr>rt_paired := paired, rt_connected := ever, rt_missing := missing\<rparr>)\<rparr>) n
         in if 0 < paired \<and> ever = 0 then rollback e w g 1 n1 else commit_start g 1 (mf_db_sha mf) n1))"

definition remove_target_dir :: "mig_node \<Rightarrow> mig_node" where
  "remove_target_dir n = n\<lparr>nd_backup := gm_del (ms_id (nd_state n)) (nd_backup n)\<rparr>"

text \<open>commitLoop at the answer to a commit.\<close>

definition on_commit :: "mig_draws \<Rightarrow> string \<Rightarrow> nat \<Rightarrow> mig_reply option \<Rightarrow> mig_node \<Rightarrow> mig_node" where
  "on_commit g sha attempt r n =
     (case r of
        Some (RError status) \<Rightarrow>
          (if status = 409
           then (update (mg_persist g 0) (\<lambda>st. st\<lparr>ms_phase := PhFailed\<rparr>) (setPeerKey [] n))\<lparr>nd_job := JIdle\<rparr>
           else (update (mg_persist g 0) (\<lambda>st. st) n)\<lparr>nd_job := JCommit sha (attempt + 1)\<rparr>)
      | None \<Rightarrow> (update (mg_persist g 0) (\<lambda>st. st) n)\<lparr>nd_job := JCommit sha (attempt + 1)\<rparr>
      | Some _ \<Rightarrow>
          (remove_target_dir (update (mg_persist g 0) (\<lambda>st. st\<lparr>ms_phase := PhDone, ms_report := Some (case ms_report st of
                None \<Rightarrow> \<lparr>rt_paired = 0, rt_connected = 0, rt_missing = [], rt_committed = True\<rparr>
              | Some r \<Rightarrow> r\<lparr>rt_committed := True\<rparr>)\<rparr>) (setPeerKey [] n)))\<lparr>nd_job := JIdle\<rparr>)"

text \<open>finishAborted at the answer to an abort, of which it sends six at most.\<close>

definition finish_aborted :: "mig_draws \<Rightarrow> bool \<Rightarrow> mig_node \<Rightarrow> mig_node" where
  "finish_aborted g ok n =
     (update (mg_persist g 0) (\<lambda>st. st\<lparr>ms_phase := (if ok then PhAborted else PhFailed)\<rparr>)
       (setPeerKey [] (remove_target_dir n)))\<lparr>nd_job := JIdle\<rparr>"

definition on_abort :: "mig_draws \<Rightarrow> nat \<Rightarrow> mig_reply option \<Rightarrow> mig_node \<Rightarrow> mig_node" where
  "on_abort g attempt r n =
     (case r of
        Some (RError status) \<Rightarrow>
          (if permanent status \<or> 6 \<le> attempt + 1 then finish_aborted g False n else n\<lparr>nd_job := JAbort (attempt + 1)\<rparr>)
      | None \<Rightarrow> (if 6 \<le> attempt + 1 then finish_aborted g False n else n\<lparr>nd_job := JAbort (attempt + 1)\<rparr>)
      | Some _ \<Rightarrow> finish_aborted g True n)"

text \<open>One step of the job (runImport and what it calls).\<close>

definition job_step :: "srv_env \<Rightarrow> srv_draws \<Rightarrow> mig_draws \<Rightarrow> mig_reply option \<Rightarrow> mig_node \<Rightarrow> mig_node" where
  "job_step e w g r n =
     (case nd_job n of
        JIdle \<Rightarrow> n
      | JLock \<Rightarrow> on_locked w g r n
      | JFetch mf \<Rightarrow> on_fetched w g mf r n
      | JImport mf snap \<Rightarrow>
          (case importClone e w g mf snap n of
             (n1, True) \<Rightarrow> afterImport g 0 mf n1 | (n1, False) \<Rightarrow> failBeforeImport w g n1)
      | JWait mf \<Rightarrow> on_waited e w g mf n
      | JCommit sha attempt \<Rightarrow> on_commit g sha attempt r n
      | JRollback \<Rightarrow> rollback e w g 0 n
      | JAbort attempt \<Rightarrow> on_abort g attempt r n)"

text \<open>The request the job waits for an answer to.\<close>

definition request :: "mig_node \<Rightarrow> (string \<times> mig_msg) option" where
  "request n =
     (let i = ms_id (nd_state n); k = nd_peer_key n in
      case nd_job n of
        JLock \<Rightarrow> Some (k, MLock i (nd_self n))
      | JFetch mf \<Rightarrow> Some (k, MFile i ''db'')
      | JCommit sha attempt \<Rightarrow> Some (k, MCommit i sha)
      | JAbort attempt \<Rightarrow> Some (k, MAbort i)
      | _ \<Rightarrow> None)"

section \<open>A restart\<close>

definition boot :: "mig_node \<Rightarrow> mig_node" where
  "boot n =
     (let n1 = n\<lparr>nd_state := nd_saved n, nd_peer_key := nd_saved_key n\<rparr>
      in if blocksSessions (nd_saved n)
         then on_srv (\<lambda>s. s\<lparr>sv_blocked := True, sv_rec := (sv_rec s)\<lparr>ct_paused := True\<rparr>\<rparr>) n1 else n1)"

definition resumeJobs :: "srv_draws \<Rightarrow> mig_draws \<Rightarrow> mig_node \<Rightarrow> mig_node" where
  "resumeJobs w g n =
     (let st = nd_state n in
      if ms_role st \<noteq> RoleTarget then n
      else if ms_phase st = PhPreparing then failBeforeImport w g n
      else if ms_phase st \<in> {PhImported, PhConnecting, PhCommitting}
      then (case ms_manifest st of None \<Rightarrow> n | Some mf \<Rightarrow> commit_start g 0 (mf_db_sha mf) n)
      else if ms_phase st = PhRollingBack then n\<lparr>nd_job := JRollback\<rparr>
      else n)"

text \<open>main: everything in memory is gone; then boot, the recorder, the accounts and the job.\<close>

definition restart :: "srv_draws \<Rightarrow> mig_draws \<Rightarrow> mig_node \<Rightarrow> mig_node" where
  "restart w g n =
     (let n1 = boot (on_srv (\<lambda>s. s\<lparr>sv_sessions := [], sv_order := [], sv_broker := NewBroker, sv_blocked := False,
                  sv_rec := rec_restart (mg_disk g) (sv_rec s), sv_legs := []\<rparr>) (n\<lparr>nd_job := JIdle\<rparr>));
          n2 = on_srv (\<lambda>s. s\<lparr>sv_rec := resumeOnBoot (mg_rec_db g) (now_ms w) (sv_rec s)\<rparr>) n1
      in resumeJobs w g (restore_node g n2))"

end
