(* ===== verification/MigrationSafety.thy ===== *)
theory MigrationSafety
  imports Migration
begin

text \<open>
  The migration as a protocol between two nodes: requests may be answered late, several times or
  never, answers may be lost, both nodes restart at any time and writes to disk fail; the golden
  rule of migration.go holds in every run in which nobody unlocks the source by hand.
\<close>

section \<open>Nodes\<close>

definition node_ok :: "mig_node \<Rightarrow> bool" where
  "node_ok n \<longleftrightarrow> acct_ok (nd_srv n) \<and> jids (nd_srv n) \<subseteq> set (nd_keys n)"

lemma node_ok_shape: "node_ok n \<Longrightarrow> acct_shape (nd_srv n)"
  by (simp add: node_ok_def acct_ok_shape)

lemma on_srv_fields [simp]:
  "nd_srv (on_srv f n) = f (nd_srv n)" "nd_keys (on_srv f n) = nd_keys n" "nd_state (on_srv f n) = nd_state n"
  "nd_saved (on_srv f n) = nd_saved n" "nd_job (on_srv f n) = nd_job n" "nd_out (on_srv f n) = nd_out n"
  "nd_backup (on_srv f n) = nd_backup n" "nd_peer_key (on_srv f n) = nd_peer_key n" "nd_self (on_srv f n) = nd_self n"
  "nd_api_key (on_srv f n) = nd_api_key n" "nd_saved_key (on_srv f n) = nd_saved_key n"
  by (simp_all add: on_srv_def)

lemma update_fields [simp]:
  "nd_srv (update ok f n) = nd_srv n" "nd_keys (update ok f n) = nd_keys n" "nd_job (update ok f n) = nd_job n"
  "nd_out (update ok f n) = nd_out n" "nd_backup (update ok f n) = nd_backup n" "nd_peer_key (update ok f n) = nd_peer_key n"
  "nd_self (update ok f n) = nd_self n" "nd_api_key (update ok f n) = nd_api_key n"
  "nd_state (update ok f n) = (if ok then f (nd_state n) else nd_state n)"
  "nd_saved (update ok f n) = (if ok then f (nd_state n) else nd_saved n)"
  by (simp_all add: update_def)

lemma peer_key_fields [simp]:
  "nd_srv (setPeerKey k n) = nd_srv n" "nd_keys (setPeerKey k n) = nd_keys n" "nd_state (setPeerKey k n) = nd_state n"
  "nd_saved (setPeerKey k n) = nd_saved n" "nd_job (setPeerKey k n) = nd_job n" "nd_backup (setPeerKey k n) = nd_backup n"
  "nd_self (setPeerKey k n) = nd_self n" "nd_out (setPeerKey k n) = nd_out n"
  by (simp_all add: setPeerKey_def)

lemma pause_fields [simp]:
  "nd_keys (fst (pause_rec n)) = nd_keys n" "nd_state (fst (pause_rec n)) = nd_state n"
  "nd_saved (fst (pause_rec n)) = nd_saved n" "nd_job (fst (pause_rec n)) = nd_job n"
  "nd_backup (fst (pause_rec n)) = nd_backup n" "nd_out (fst (pause_rec n)) = nd_out n"
  "accounts (nd_srv (fst (pause_rec n))) = accounts (nd_srv n)" "jids (nd_srv (fst (pause_rec n))) = jids (nd_srv n)"
  "acct_ok (nd_srv (fst (pause_rec n))) = acct_ok (nd_srv n)" "acct_shape (nd_srv (fst (pause_rec n))) = acct_shape (nd_srv n)"
  "sv_blocked (nd_srv (fst (pause_rec n))) = sv_blocked (nd_srv n)"
  by (simp_all add: pause_rec_def case_prod_beta Let_def)

lemma resume_fields [simp]:
  "nd_keys (resume_rec w g n) = nd_keys n" "nd_state (resume_rec w g n) = nd_state n"
  "nd_saved (resume_rec w g n) = nd_saved n" "nd_job (resume_rec w g n) = nd_job n"
  "nd_backup (resume_rec w g n) = nd_backup n" "nd_out (resume_rec w g n) = nd_out n"
  "accounts (nd_srv (resume_rec w g n)) = accounts (nd_srv n)" "jids (nd_srv (resume_rec w g n)) = jids (nd_srv n)"
  "acct_ok (nd_srv (resume_rec w g n)) = acct_ok (nd_srv n)" "acct_shape (nd_srv (resume_rec w g n)) = acct_shape (nd_srv n)"
  "sv_blocked (nd_srv (resume_rec w g n)) = sv_blocked (nd_srv n)"
  by (simp_all add: resume_rec_def)

lemma block_fields [simp]:
  "nd_keys (block b n) = nd_keys n" "nd_state (block b n) = nd_state n" "nd_saved (block b n) = nd_saved n"
  "nd_job (block b n) = nd_job n" "nd_backup (block b n) = nd_backup n" "nd_out (block b n) = nd_out n"
  "accounts (nd_srv (block b n)) = accounts (nd_srv n)" "jids (nd_srv (block b n)) = jids (nd_srv n)"
  "acct_shape (nd_srv (block b n)) = acct_shape (nd_srv n)" "sv_blocked (nd_srv (block b n)) = b"
  "online_jids (nd_srv (block b n)) = online_jids (nd_srv n)"
  by (simp_all add: block_def)

lemma unblock_ok: "acct_shape (nd_srv n) \<Longrightarrow> acct_ok (nd_srv (block False n))"
  by (simp add: acct_ok_shape)

section \<open>The source\<close>

text \<open>The source is held by a migration while its accounts are stopped for it.\<close>

definition holds :: "mig_node \<Rightarrow> string \<Rightarrow> manifest \<Rightarrow> bool" where
  "holds a i mf \<longleftrightarrow> ms_role (nd_state a) = RoleSource \<and> ms_id (nd_state a) = i
     \<and> ms_phase (nd_state a) \<in> {PhLocked, PhCommitted} \<and> ms_manifest (nd_state a) = Some mf \<and> sv_blocked (nd_srv a)"

definition locked_for :: "mig_node \<Rightarrow> string \<Rightarrow> manifest \<Rightarrow> bool" where
  "locked_for a i mf \<longleftrightarrow> ms_role (nd_state a) = RoleSource \<and> ms_id (nd_state a) = i
     \<and> ms_phase (nd_state a) = PhLocked \<and> ms_manifest (nd_state a) = Some mf"

definition committed :: "mig_node \<Rightarrow> bool" where
  "committed a \<longleftrightarrow> ms_role (nd_state a) = RoleSource \<and> ms_phase (nd_state a) = PhCommitted"

text \<open>What every step of a source leaves true, with the message and the answer.\<close>

definition source_moves :: "mig_node \<Rightarrow> mig_msg \<Rightarrow> mig_reply \<Rightarrow> mig_node \<Rightarrow> bool" where
  "source_moves a m r a' \<longleftrightarrow> node_ok a' \<and> nd_saved a' = nd_state a' \<and> set (nd_keys a') \<subseteq> set (nd_keys a)
     \<and> (\<forall>i mf. holds a i mf \<longrightarrow> m \<noteq> MAbort i \<longrightarrow> holds a' i mf)
     \<and> (\<forall>i t mf. m = MLock i t \<longrightarrow> r = RManifest mf \<longrightarrow> locked_for a' i mf)
     \<and> (\<forall>i mf. locked_for a' i mf \<longrightarrow> \<not> sv_blocked (nd_srv a') \<longrightarrow> m \<noteq> MAbort i \<longrightarrow> locked_for a i mf \<and> \<not> sv_blocked (nd_srv a))
     \<and> (\<forall>i sha. m = MCommit i sha \<longrightarrow> r = RDone \<longrightarrow> committed a' \<and> ms_id (nd_state a') = i)
     \<and> (committed a \<longrightarrow> nd_state a' = nd_state a)
     \<and> (committed a' \<longrightarrow> committed a \<or> nd_keys a' = [] \<and> (\<exists>sha. m = MCommit (ms_id (nd_state a')) sha))
     \<and> (\<forall>i sha mf. m = MCommit i sha \<longrightarrow> r = RError 409 \<longrightarrow> holds a i mf \<longrightarrow> mf_db_sha mf \<noteq> sha)
     \<and> (\<forall>i sha. m = MCommit i sha \<longrightarrow> r = RDone \<or> (\<exists>s. r = RError s))
     \<and> (ms_role (nd_state a') = RoleTarget \<longrightarrow> ms_role (nd_state a) = RoleTarget)"

lemma holds_committed: "holds a i mf \<Longrightarrow> committed a \<or> ms_phase (nd_state a) = PhLocked"
  by (auto simp: holds_def committed_def)

lemma unlock_fields:
  assumes "acct_shape (nd_srv n)" and "jids (nd_srv n) \<subseteq> set (nd_keys n)" and "nd_saved n = nd_state n"
  shows "node_ok (unlockSourceLocked w g k n)" "nd_keys (unlockSourceLocked w g k n) = nd_keys n"
    "nd_saved (unlockSourceLocked w g k n) = nd_state (unlockSourceLocked w g k n)"
    "nd_state (unlockSourceLocked w g k n) = (nd_state n)\<lparr>ms_phase := (if mg_persist g k then PhUnlocked else ms_phase (nd_state n))\<rparr>"
  using assms by (auto simp: unlockSourceLocked_def Let_def node_ok_def reconnected_jids)

lemma same_source: "node_ok a \<Longrightarrow> nd_saved a = nd_state a \<Longrightarrow> (\<And>i t mf. m = MLock i t \<Longrightarrow> r = RManifest mf \<Longrightarrow> locked_for a i mf)
    \<Longrightarrow> (\<And>i sha. m = MCommit i sha \<Longrightarrow> r = RDone \<Longrightarrow> committed a \<and> ms_id (nd_state a) = i)
    \<Longrightarrow> (\<And>i sha mf. m = MCommit i sha \<Longrightarrow> r = RError 409 \<Longrightarrow> holds a i mf \<Longrightarrow> mf_db_sha mf \<noteq> sha)
    \<Longrightarrow> (\<And>i sha. m = MCommit i sha \<Longrightarrow> r = RDone \<or> (\<exists>s. r = RError s))
    \<Longrightarrow> source_moves a m r a"
  by (simp add: source_moves_def)

text \<open>A lock that is not refused ends with the source locked for it, or unlocked again.\<close>

lemma lock_cases:
  assumes ok: "node_ok a" and sv: "nd_saved a = nd_state a" and res: "lockSource e w g i t a = (a', x)"
  shows "(a' = a \<and> (\<forall>mf. x = Inr mf \<longrightarrow> locked_for a i mf))
    \<or> (node_ok a' \<and> nd_saved a' = nd_state a' \<and> nd_keys a' = nd_keys a \<and> \<not> committed a' \<and> ms_role (nd_state a') = RoleSource
       \<and> \<not> (ms_role (nd_state a) = RoleSource \<and> ms_phase (nd_state a) \<in> {PhLocked, PhCommitted})
       \<and> (\<forall>mf. x = Inr mf \<longrightarrow> locked_for a' i mf) \<and> (\<forall>j mf. locked_for a' j mf \<longrightarrow> sv_blocked (nd_srv a')))"
proof -
  let ?st = "nd_state a"
  show ?thesis
  proof (cases "(ms_role ?st = RoleSource \<and> (ms_phase ?st = PhLocked \<or> ms_phase ?st = PhCommitted)) \<or> targetBusy ?st
      \<or> 0 < activeCallCount (nd_srv a) \<or> 0 < liveCount (sv_rec (nd_srv a)) \<or> \<not> mg_persist g 0")
    case True
    then have "a' = a \<and> (\<forall>mf. x = Inr mf \<longrightarrow> locked_for a i mf)"
      using res by (auto simp: locked_for_def lockSource_def Let_def split: if_splits)
    then show ?thesis by blast
  next
    case False
    define n1 where "n1 = block True (update True (\<lambda>_. no_migration\<lparr>ms_role := RoleSource, ms_id := i, ms_phase := PhLocked,
                        ms_peer := t\<rparr>) a)"
    define n2 where "n2 = fst (pause_rec n1)"
    define n3 where "n3 = on_srv (stopForMigration e w) n2"
    have shape: "acct_shape (nd_srv a)" using ok by (rule node_ok_shape)
    have jid: "jids (nd_srv a) \<subseteq> set (nd_keys a)" using ok by (simp add: node_ok_def)
    have n2: "acct_shape (nd_srv n2)" "jids (nd_srv n2) \<subseteq> set (nd_keys n2)" "nd_saved n2 = nd_state n2"
      "nd_keys n2 = nd_keys a" "sv_blocked (nd_srv n2)" "ms_role (nd_state n2) = RoleSource" "ms_id (nd_state n2) = i"
      "ms_phase (nd_state n2) = PhLocked" "ms_manifest (nd_state n2) = None"
      using shape jid by (simp_all add: n2_def n1_def no_migration_def)
    note stop = stopped_jids [OF n2(1), of e w] stopped(3) [OF n2(1), of e w]
    have n3: "acct_shape (nd_srv n3)" "jids (nd_srv n3) \<subseteq> set (nd_keys n3)" "nd_saved n3 = nd_state n3"
      "nd_keys n3 = nd_keys a" "sv_blocked (nd_srv n3)" "ms_role (nd_state n3) = RoleSource" "ms_id (nd_state n3) = i"
      "ms_phase (nd_state n3) = PhLocked" "ms_manifest (nd_state n3) = None" "node_ok n3"
      using n2 stop by (simp_all add: n3_def node_ok_def acct_ok_shape)
    have un: "node_ok (unlockSourceLocked w g k n) \<and> nd_saved (unlockSourceLocked w g k n) = nd_state (unlockSourceLocked w g k n)
        \<and> nd_keys (unlockSourceLocked w g k n) = nd_keys n \<and> \<not> committed (unlockSourceLocked w g k n)
        \<and> ms_role (nd_state (unlockSourceLocked w g k n)) = ms_role (nd_state n)
        \<and> \<not> locked_for (unlockSourceLocked w g k n) j mf"
      if "acct_shape (nd_srv n)" "jids (nd_srv n) \<subseteq> set (nd_keys n)" "nd_saved n = nd_state n" "ms_phase (nd_state n) = PhLocked"
        "ms_manifest (nd_state n) = None"
      for n k j mf using unlock_fields [OF that(1-3), of w g k] that(4,5) by (simp add: committed_def locked_for_def)
    have run: "lockSource e w g i t a = (if \<not> snd (pause_rec n1) then (unlockSourceLocked w g 1 n2, Inl MigConflict)
        else case buildSnapshot g i n3 of None \<Rightarrow> (unlockSourceLocked w g 1 n3, Inl MigInternal)
          | Some (mf, snap) \<Rightarrow> (if mg_persist g 1
              then (update True (\<lambda>st. st\<lparr>ms_manifest := Some mf\<rparr>) (n3\<lparr>nd_out := gm_put i snap (nd_out n3)\<rparr>), Inr mf)
              else (unlockSourceLocked w g 2 (n3\<lparr>nd_out := gm_put i snap (nd_out n3)\<rparr>), Inl MigInternal)))"
    proof -
      have c: "\<not> (ms_role ?st = RoleSource \<and> ms_phase ?st = PhLocked \<and> ms_id ?st = i \<and> ms_manifest ?st \<noteq> None)"
        "\<not> (ms_role ?st = RoleSource \<and> (ms_phase ?st = PhLocked \<or> ms_phase ?st = PhCommitted))" "\<not> targetBusy ?st"
        "\<not> (0 < activeCallCount (nd_srv a) \<or> 0 < liveCount (sv_rec (nd_srv a)))" "\<not> \<not> mg_persist g 0"
        using False by auto
      show ?thesis
        unfolding lockSource_def Let_def if_not_P [OF c(1)] if_not_P [OF c(2)] if_not_P [OF c(3)] if_not_P [OF c(4)]
          if_not_P [OF c(5)] case_prod_beta n1_def [symmetric] n2_def [symmetric] n3_def [symmetric] ..
    qed
    have "node_ok a' \<and> nd_saved a' = nd_state a' \<and> nd_keys a' = nd_keys a \<and> \<not> committed a' \<and> ms_role (nd_state a') = RoleSource
      \<and> (\<forall>mf. x = Inr mf \<longrightarrow> locked_for a' i mf) \<and> (\<forall>j mf. locked_for a' j mf \<longrightarrow> sv_blocked (nd_srv a'))"
    proof (cases "\<not> snd (pause_rec n1)")
      case True
      then show ?thesis using un [OF n2(1-3) n2(8,9), of 1] n2(4,6) res run by auto
    next
      case drained: False
      show ?thesis
      proof (cases "buildSnapshot g i n3")
        case None
        then show ?thesis using un [OF n3(1-3) n3(8,9), of 1] n3(4,6) res run drained by auto
      next
        case (Some p)
        obtain mf snap where p: "p = (mf, snap)" by (cases p)
        let ?n4 = "n3\<lparr>nd_out := gm_put i snap (nd_out n3)\<rparr>"
        show ?thesis
        proof (cases "mg_persist g 1")
          case True
          then have "a' = update True (\<lambda>st. st\<lparr>ms_manifest := Some mf\<rparr>) ?n4" "x = Inr mf"
            using res run drained Some p by auto
          then show ?thesis using n3 by (simp add: node_ok_def committed_def locked_for_def)
        next
          case False
          then have "a' = unlockSourceLocked w g 2 ?n4" "x = Inl MigInternal" using res run drained Some p by auto
          then show ?thesis using un [of ?n4 2] n3 by simp
        qed
      qed
    qed
    then show ?thesis using False by auto
  qed
qed

lemma forgotten:
  assumes "acct_ok s"
  shows "acct_ok (forget_clients e w s)" "jids (forget_clients e w s) = {}"
    "sv_blocked (forget_clients e w s) = sv_blocked s"
proof -
  define g where "g = (\<lambda>s k. case gm_get (sv_sessions s) k of None \<Rightarrow> s
    | Some x \<Rightarrow> setAuth (replaceClient e w s k) k (auth ''logged_out'' False []))"
  have fc: "forget_clients e w s = foldl g s (sv_order s)" by (simp add: forget_clients_def g_def)
  have "acct_moves s (foldl g s ks)" for ks
    by (rule moves_fold) (auto simp: g_def moves_replaced split: option.split)
  then have moves: "acct_moves s (forget_clients e w s)" by (simp add: fc)
  then show "acct_ok (forget_clients e w s)" "sv_blocked (forget_clients e w s) = sv_blocked s"
    using assms by (simp_all add: acct_moves_def)
  have step: "distinct (map fst (accounts (g s k))) \<and>
      (\<forall>k' j on once. (k', Some j, on, once) \<in> set (accounts (g s k)) \<longrightarrow> k' \<noteq> k \<and> (k', Some j, on, once) \<in> set (accounts s))"
    if d: "distinct (map fst (accounts s))" for s k
  proof (cases "gm_get (sv_sessions s) k")
    case None
    then have "g s k = s" by (simp add: g_def)
    moreover have "k \<notin> fst ` set (accounts s)" using None by (simp add: has_account)
    ultimately show ?thesis using d by (force simp: image_iff)
  next
    case (Some x)
    then show ?thesis using replaced_jids [OF d, where e = e and w = w and sid = k] d by (auto simp: g_def)
  qed
  have "k \<notin> set ks \<and> (k, Some j, on, once) \<in> set (accounts s)"
    if "distinct (map fst (accounts s))" "(k, Some j, on, once) \<in> set (accounts (foldl g s ks))" for s ks k j on once
    using that
  proof (induction ks arbitrary: s)
    case (Cons k' ks)
    have d: "distinct (map fst (accounts (g s k')))" using step [OF Cons.prems(1)] by blast
    from Cons.IH [OF this] Cons.prems(2) have "k \<notin> set ks" "(k, Some j, on, once) \<in> set (accounts (g s k'))" by simp_all
    with step [OF Cons.prems(1)] show ?case by auto
  qed simp
  note left = this
  have "j \<notin> jids (forget_clients e w s)" for j
  proof
    assume "j \<in> jids (forget_clients e w s)"
    then obtain k on once where "(k, Some j, on, once) \<in> set (accounts (foldl g s (sv_order s)))"
      by (auto simp: jids_def fc)
    from left [OF _ this] assms show False by (force simp: acct_ok_def image_subset_iff)
  qed
  then show "jids (forget_clients e w s) = {}" by blast
qed

lemma commit_cases:
  assumes ok: "node_ok a" and sv: "nd_saved a = nd_state a" and res: "commitSource e w g i sha a = (a', x)"
  shows "(a' = a \<and> (x = None \<longrightarrow> committed a \<and> ms_id (nd_state a) = i)
          \<and> (x = Some MigConflict \<longrightarrow> \<not> (\<exists>mf. holds a i mf \<and> mf_db_sha mf = sha)))
    \<or> (node_ok a' \<and> nd_saved a' = nd_state a' \<and> nd_keys a' = [] \<and> ms_role (nd_state a) = RoleSource
       \<and> ms_id (nd_state a) = i \<and> ms_phase (nd_state a) = PhLocked \<and> x \<noteq> Some MigConflict
       \<and> sv_blocked (nd_srv a') = sv_blocked (nd_srv a)
       \<and> nd_state a' = (if x = None then (nd_state a)\<lparr>ms_phase := PhCommitted\<rparr> else nd_state a))"
proof -
  let ?st = "nd_state a"
  show ?thesis
  proof (cases "ms_role ?st = RoleSource \<and> ms_id ?st = i \<and> ms_phase ?st = PhLocked
      \<and> (\<exists>mf. ms_manifest ?st = Some mf \<and> mf_db_sha mf = sha) \<and> mg_wipe g")
    case True
    define n1 where "n1 = on_srv (forget_clients e w) (wipeLocalKeys a)"
    have "acct_ok (nd_srv (wipeLocalKeys a))" using ok by (simp add: wipeLocalKeys_def node_ok_def)
    note fg = forgotten [OF this, of e w]
    have n1: "node_ok n1" "nd_keys n1 = []" "nd_state n1 = ?st" "nd_saved n1 = ?st" "sv_blocked (nd_srv n1) = sv_blocked (nd_srv a)"
      using fg sv by (simp_all add: n1_def node_ok_def) (simp_all add: wipeLocalKeys_def)
    from True obtain mf where "ms_manifest ?st = Some mf" "mf_db_sha mf = sha" by blast
    then have "commitSource e w g i sha a = (if \<not> mg_persist g 0 then (n1, Some MigInternal)
      else ((update True (\<lambda>st. st\<lparr>ms_phase := PhCommitted\<rparr>) n1)\<lparr>nd_out := gm_del i (nd_out (update True (\<lambda>st. st\<lparr>ms_phase := PhCommitted\<rparr>) n1))\<rparr>, None))"
      using True by (simp add: commitSource_def Let_def n1_def)
    then show ?thesis using True n1 res by (auto simp: node_ok_def split: if_splits)
  next
    case False
    then have "a' = a \<and> (x = None \<longrightarrow> committed a \<and> ms_id ?st = i)
          \<and> (x = Some MigConflict \<longrightarrow> \<not> (\<exists>mf. holds a i mf \<and> mf_db_sha mf = sha))"
      using res by (auto simp: commitSource_def Let_def committed_def holds_def split: if_splits option.splits)
    then show ?thesis by blast
  qed
qed

lemma serve_moves:
  assumes ok: "node_ok a" and sv: "nd_saved a = nd_state a" and res: "serve e w g a (k, m) = (a', r)"
  shows "source_moves a m r a'"
proof (cases "nd_api_key a = [] \<or> k \<noteq> nd_api_key a")
  case True
  then show ?thesis using res ok sv by (auto simp: serve_def intro!: same_source)
next
  case key: False
  show ?thesis
  proof (cases m)
    case (MLock i t)
    show ?thesis
    proof (cases "validMigrationID i")
      case False
      then show ?thesis using res ok sv key MLock by (auto simp: serve_def handleMigrationLock_def intro!: same_source)
    next
      case True
      obtain a1 x where lk: "lockSource e w g i t a = (a1, x)" by (cases "lockSource e w g i t a")
      then have a1: "a' = a1" "r = (case x of Inl err \<Rightarrow> RError (error_status err) | Inr mf \<Rightarrow> RManifest mf)"
        using res key MLock True by (auto simp: serve_def handleMigrationLock_def split: sum.splits)
      from lock_cases [OF ok sv lk] show ?thesis
      proof
        assume "a1 = a \<and> (\<forall>mf. x = Inr mf \<longrightarrow> locked_for a i mf)"
        then show ?thesis using ok sv MLock a1 by (auto intro!: same_source split: sum.splits)
      next
        assume "node_ok a1 \<and> nd_saved a1 = nd_state a1 \<and> nd_keys a1 = nd_keys a \<and> \<not> committed a1 \<and> ms_role (nd_state a1) = RoleSource
          \<and> \<not> (ms_role (nd_state a) = RoleSource \<and> ms_phase (nd_state a) \<in> {PhLocked, PhCommitted})
          \<and> (\<forall>mf. x = Inr mf \<longrightarrow> locked_for a1 i mf) \<and> (\<forall>j mf. locked_for a1 j mf \<longrightarrow> sv_blocked (nd_srv a1))"
        then show ?thesis using MLock
          by (auto simp: source_moves_def a1 committed_def [of a] holds_def [of a] split: sum.splits)
      qed
    qed
  next
    case (MFile i name)
    have "handleMigrationFile i name a \<noteq> RManifest mf" for mf
      by (auto simp: handleMigrationFile_def Let_def split: mig_role.splits mig_phase.splits option.splits)
    then show ?thesis using MFile res ok sv key by (auto simp: serve_def intro!: same_source)
  next
    case (MCommit i sha)
    obtain a1 x where ct: "commitSource e w g i sha a = (a1, x)" by (cases "commitSource e w g i sha a")
    then have a1: "a' = a1" "r = (case x of None \<Rightarrow> RDone | Some err \<Rightarrow> RError (error_status err))"
      using res key MCommit by (auto simp: serve_def handleMigrationCommit_def split: option.splits)
    have conf: "r = RError 409 \<longleftrightarrow> x = Some MigConflict"
      by (auto simp: a1 error_status_def split: option.splits mig_error.splits)
    from commit_cases [OF ok sv ct] show ?thesis
    proof
      assume "a1 = a \<and> (x = None \<longrightarrow> committed a \<and> ms_id (nd_state a) = i)
          \<and> (x = Some MigConflict \<longrightarrow> \<not> (\<exists>mf. holds a i mf \<and> mf_db_sha mf = sha))"
      then show ?thesis using ok sv MCommit conf a1 by (auto intro!: same_source split: option.splits)
    next
      assume "node_ok a1 \<and> nd_saved a1 = nd_state a1 \<and> nd_keys a1 = [] \<and> ms_role (nd_state a) = RoleSource
       \<and> ms_id (nd_state a) = i \<and> ms_phase (nd_state a) = PhLocked \<and> x \<noteq> Some MigConflict
       \<and> sv_blocked (nd_srv a1) = sv_blocked (nd_srv a)
       \<and> nd_state a1 = (if x = None then (nd_state a)\<lparr>ms_phase := PhCommitted\<rparr> else nd_state a)"
      then show ?thesis using MCommit conf a1
        by (auto simp: source_moves_def holds_def committed_def locked_for_def split: option.splits if_splits)
    qed
  next
    case (MAbort i)
    then have r: "a' = fst (abortSource w g i a)" "\<And>mf. r \<noteq> RManifest mf"
      using res key by (auto simp: serve_def handleMigrationAbort_def split: prod.splits option.splits)
    show ?thesis
    proof (cases "ms_role (nd_state a) \<noteq> RoleSource \<or> ms_id (nd_state a) \<noteq> i \<or> ms_phase (nd_state a) \<in> {PhUnlocked, PhCommitted}")
      case True
      then have "a' = a" by (auto simp: r abortSource_def Let_def)
      then show ?thesis using MAbort ok sv r(2) by (auto intro!: same_source)
    next
      case False
      then have a': "a' = unlockSourceLocked w g 0 a" by (auto simp: r abortSource_def Let_def)
      have "jids (nd_srv a) \<subseteq> set (nd_keys a)" using ok by (simp add: node_ok_def)
      from unlock_fields [OF node_ok_shape [OF ok] this sv, of w g 0] False MAbort show ?thesis
        unfolding a' by (auto simp: source_moves_def holds_def committed_def locked_for_def)
    qed
  qed
qed

section \<open>The target\<close>

definition shares :: "mig_node \<Rightarrow> mig_node \<Rightarrow> bool" where
  "shares a b \<longleftrightarrow> set (nd_keys a) \<inter> set (nd_keys b) \<noteq> {}"

lemma restore_fields [simp]:
  "nd_keys (restore_node g n) = nd_keys n" "nd_state (restore_node g n) = nd_state n"
  "nd_saved (restore_node g n) = nd_saved n" "nd_job (restore_node g n) = nd_job n"
  "nd_backup (restore_node g n) = nd_backup n" "nd_out (restore_node g n) = nd_out n"
  by (simp_all add: restore_node_def)

lemma reload_fields [simp]:
  "nd_keys (reload e w g n) = nd_keys n" "nd_state (reload e w g n) = nd_state n"
  "nd_saved (reload e w g n) = nd_saved n" "nd_job (reload e w g n) = nd_job n"
  "nd_backup (reload e w g n) = nd_backup n" "nd_out (reload e w g n) = nd_out n"
  by (simp_all add: reload_def)

lemma restorable_keys: "restorable (device_of n) rows \<subseteq> set (nd_keys n)"
  by (auto simp: restorable_def device_of_def split: if_splits)

lemma restore_ok:
  assumes "acct_ok (nd_srv n)" and "jids (nd_srv n) \<subseteq> set (nd_keys n)"
  shows "node_ok (restore_node g n)" "sv_blocked (nd_srv (restore_node g n)) = sv_blocked (nd_srv n)"
proof -
  let ?rows = "if mg_list g then Some (map snd (sv_rows (nd_srv n))) else None"
  note rs = restored [OF assms(1), of "mg_panel g" ?rows "device_of n" "mg_connects g"]
  have "(case ?rows of None \<Rightarrow> {} | Some r \<Rightarrow> restorable (device_of n) r) \<subseteq> set (nd_keys n)"
    using restorable_keys by simp
  then have "jids (nd_srv (restore_node g n)) \<subseteq> set (nd_keys n)"
    using rs(3) assms(2) unfolding restore_node_def on_srv_fields by blast
  then show "node_ok (restore_node g n)" "sv_blocked (nd_srv (restore_node g n)) = sv_blocked (nd_srv n)"
    using rs(1,2) by (simp_all add: node_ok_def restore_node_def)
qed

lemma dropped_ok: "acct_ok (dropAll e w s)"
  by (simp add: acct_ok_def dropped)

lemma reload_ok: "node_ok (reload e w g n)" "sv_blocked (nd_srv (reload e w g n)) = sv_blocked (nd_srv n)"
  using restore_ok [of "on_srv (dropAll e w) n" g] by (simp_all add: reload_def dropped_ok dropped dropped_blocked)

lemma fail_fields:
  assumes "acct_shape (nd_srv n)" and "jids (nd_srv n) \<subseteq> set (nd_keys n)"
  shows "node_ok (failBeforeImport w g n)" "nd_keys (failBeforeImport w g n) = nd_keys n"
    "nd_state (failBeforeImport w g n) = nd_state n" "nd_saved (failBeforeImport w g n) = nd_saved n"
    "nd_job (failBeforeImport w g n) = JAbort 0" "nd_backup (failBeforeImport w g n) = nd_backup n"
  using assms unblock_ok [of n] by (simp_all add: failBeforeImport_def Let_def node_ok_def)

text \<open>What an import leaves behind.\<close>

lemma import_cases:
  assumes ok: "node_ok b" and res: "importClone e w g mf snap b = (b', x)"
  shows "node_ok b' \<and> nd_job b' = nd_job b \<and> ms_id (nd_state b') = ms_id (nd_state b)
    \<and> (\<exists>bk. (nd_backup b' = nd_backup b \<or> nd_backup b' = gm_put (ms_id (nd_state b)) bk (nd_backup b)) \<and> sn_keys bk = nd_keys b)
    \<and> (\<not> x \<longrightarrow> nd_keys b' = nd_keys b \<and> nd_saved b' = nd_saved b)
    \<and> (x \<longrightarrow> nd_keys b' = sn_keys snap \<and> nd_saved b' = nd_state b' \<and> ms_phase (nd_state b') = PhImported
       \<and> ms_role (nd_state b') = ms_role (nd_state b) \<and> ms_manifest (nd_state b') = ms_manifest (nd_state b))"
proof -
  define n1 where "n1 = fst (pause_rec b)"
  define n2 where "n2 = on_srv (dropAll e w) n1"
  define bk where "bk = \<lparr>sn_rows = sv_rows (nd_srv n2), sn_keys = nd_keys n2\<rparr>"
  define n3 where "n3 = n2\<lparr>nd_backup := gm_put (ms_id (nd_state n2)) bk (nd_backup n2)\<rparr>"
  define f :: "mig_state \<Rightarrow> mig_state" where "f = (\<lambda>st. st\<lparr>ms_phase := PhImported,
    ms_report := Some \<lparr>rt_paired = 0, rt_connected = 0, rt_missing = [], rt_committed = False\<rparr>\<rparr>)"
  have n1: "node_ok (resume_rec w g n1)" using ok by (simp add: node_ok_def n1_def)
  have run: "importClone e w g mf snap b = (if \<not> snd (pause_rec b) then (resume_rec w g n1, False)
      else if \<not> mg_backup g then (resume_rec w g (reload e w g n2), False)
      else if \<not> mg_placed g then (resume_rec w g (reload e w g n3), False)
      else (case clone_tables g snap f n3 of
              (n4, False) \<Rightarrow> (resume_rec w g (reload e w g n4), False)
            | (n4, True) \<Rightarrow> (resume_rec w g (reload e w g (block False n4)), True)))"
    by (simp add: importClone_def Let_def case_prod_beta n1_def n2_def n3_def bk_def f_def)
  have rs: "node_ok (resume_rec w g (reload e w g n))" for n using reload_ok [of e w g n] by (simp add: node_ok_def)
  have key: "sn_keys bk = nd_keys b" by (simp add: bk_def n2_def n1_def)
  have n2s: "nd_keys n2 = nd_keys b" "nd_state n2 = nd_state b" "nd_saved n2 = nd_saved b" "nd_job n2 = nd_job b"
    "nd_backup n2 = nd_backup b" by (simp_all add: n2_def n1_def)
  have n3s: "nd_keys n3 = nd_keys b" "nd_state n3 = nd_state b" "nd_saved n3 = nd_saved b" "nd_job n3 = nd_job b"
    "nd_backup n3 = gm_put (ms_id (nd_state b)) bk (nd_backup b)" by (simp_all add: n3_def n2s)
  consider "\<not> snd (pause_rec b)" | "snd (pause_rec b)" "\<not> mg_backup g" | "snd (pause_rec b)" "mg_backup g" "\<not> mg_placed g"
    | "snd (pause_rec b)" "mg_backup g" "mg_placed g" by blast
  then show ?thesis
  proof cases
    case 1
    then have "b' = resume_rec w g n1" "\<not> x" using res run by auto
    then show ?thesis using n1 key by (auto simp: n1_def)
  next
    case 2
    then have "b' = resume_rec w g (reload e w g n2)" "\<not> x" using res run by auto
    then show ?thesis using rs key by (auto simp: n2s)
  next
    case 3
    then have "b' = resume_rec w g (reload e w g n3)" "\<not> x" using res run by auto
    then show ?thesis using rs key by (auto simp: n3s)
  next
    case 4
    then show ?thesis
    proof (cases "mg_clone g")
      case CloneFails
      then have "b' = resume_rec w g (reload e w g n3)" "\<not> x" using res run 4 by (auto simp: clone_tables_def)
      then show ?thesis using rs key by (auto simp: n3s)
    next
      case CloneLost
      then have "b' = resume_rec w g (reload e w g (n3\<lparr>nd_state := f (nd_state n3)\<rparr>))" "\<not> x"
        using res run 4 by (auto simp: clone_tables_def)
      then show ?thesis using rs key by (auto simp: n3s f_def)
    next
      case CloneDone
      let ?n4 = "on_srv (\<lambda>s. s\<lparr>sv_rows := sn_rows snap\<rparr>) (update True f (n3\<lparr>nd_keys := sn_keys snap\<rparr>))"
      have "b' = resume_rec w g (reload e w g (block False ?n4))" "x" using res run 4 CloneDone by (auto simp: clone_tables_def)
      then show ?thesis using rs key by (auto simp: n3s f_def)
    qed
  qed
qed

text \<open>What a rollback leaves behind.\<close>

definition live_phases :: "mig_phase set" where
  "live_phases = {PhImported, PhConnecting, PhCommitting, PhRollingBack}"

lemma rollback_cases:
  assumes ok: "node_ok b" and b': "b' = rollback e w g k b"
  shows "node_ok b' \<and> ms_id (nd_state b') = ms_id (nd_state b) \<and> nd_backup b' = nd_backup b"
    and "(nd_keys b' = nd_keys b \<and> (nd_job b' = JIdle \<or> (\<exists>mf. ms_manifest (nd_state b) = Some mf \<and> nd_job b' = JCommit (mf_db_sha mf) 0)))
       \<or> (nd_keys b' = (case gm_get (nd_backup b) (ms_id (nd_state b)) of None \<Rightarrow> [] | Some bk \<Rightarrow> sn_keys bk) \<and> nd_job b' = JAbort 0)"
    and "(ms_phase (nd_state b) \<in> live_phases \<longrightarrow> ms_phase (nd_state b') \<in> live_phases) \<and> ms_role (nd_state b') = ms_role (nd_state b) \<and> ms_manifest (nd_state b') = ms_manifest (nd_state b)"
    and "(nd_saved b' = nd_saved b \<or> ms_id (nd_saved b') = ms_id (nd_state b) \<and> (ms_phase (nd_state b) \<in> live_phases \<longrightarrow> ms_phase (nd_saved b') \<in> live_phases)
         \<and> ms_role (nd_saved b') = ms_role (nd_state b) \<and> ms_manifest (nd_saved b') = ms_manifest (nd_state b))"
proof -
  define n1 where "n1 = update (mg_persist g k) (\<lambda>st. st\<lparr>ms_phase := PhRollingBack\<rparr>) b"
  define n2 where "n2 = on_srv (stopForMigration e w) (fst (pause_rec (block True n1)))"
  have shape: "acct_shape (nd_srv (fst (pause_rec (block True n1))))" using node_ok_shape [OF ok] by (simp add: n1_def)
  note st = stopped_jids [OF shape, of e w] stopped(3) [OF shape, of e w]
  have n2: "nd_keys n2 = nd_keys b" "nd_job n2 = nd_job b" "nd_backup n2 = nd_backup b" "node_ok n2"
    "ms_id (nd_state n2) = ms_id (nd_state b)" "ms_role (nd_state n2) = ms_role (nd_state b)"
    "ms_manifest (nd_state n2) = ms_manifest (nd_state b)" "ms_phase (nd_state b) \<in> live_phases \<longrightarrow> ms_phase (nd_state n2) \<in> live_phases"
    "nd_saved n2 = nd_saved b \<or> nd_saved n2 = nd_state n2"
    using ok st by (auto simp: n2_def n1_def node_ok_def live_phases_def)
  define good where "good b' \<longleftrightarrow> node_ok b' \<and> ms_id (nd_state b') = ms_id (nd_state b) \<and> nd_backup b' = nd_backup b
    \<and> ((nd_keys b' = nd_keys b \<and> (nd_job b' = JIdle \<or> (\<exists>mf. ms_manifest (nd_state b) = Some mf \<and> nd_job b' = JCommit (mf_db_sha mf) 0)))
       \<or> (nd_keys b' = (case gm_get (nd_backup b) (ms_id (nd_state b)) of None \<Rightarrow> [] | Some bk \<Rightarrow> sn_keys bk) \<and> nd_job b' = JAbort 0))
    \<and> (ms_phase (nd_state b) \<in> live_phases \<longrightarrow> ms_phase (nd_state b') \<in> live_phases) \<and> ms_role (nd_state b') = ms_role (nd_state b) \<and> ms_manifest (nd_state b') = ms_manifest (nd_state b)
    \<and> (nd_saved b' = nd_saved b \<or> ms_id (nd_saved b') = ms_id (nd_state b) \<and> (ms_phase (nd_state b) \<in> live_phases \<longrightarrow> ms_phase (nd_saved b') \<in> live_phases)
         \<and> ms_role (nd_saved b') = ms_role (nd_state b) \<and> ms_manifest (nd_saved b') = ms_manifest (nd_state b))" for b'
  have "good b'"
  proof (cases "0 < ever_connected n2")
    case True
    define n3 where "n3 = resume_rec w g (on_srv (reconnectAll (mg_connects g)) (block False n2))"
    have n3: "node_ok n3" "nd_state n3 = nd_state n2" "nd_saved n3 = nd_saved n2" "nd_keys n3 = nd_keys b"
      "nd_backup n3 = nd_backup b"
      using n2 node_ok_shape [OF n2(4)] by (simp_all add: n3_def node_ok_def reconnected_jids)
    have "b' = (case ms_manifest (nd_state n3) of None \<Rightarrow> n3\<lparr>nd_job := JIdle\<rparr>
        | Some mf \<Rightarrow> commit_start g (k + 1) (mf_db_sha mf) n3)"
      using True unfolding b' rollback_def Let_def n1_def [symmetric] n2_def [symmetric] n3_def [symmetric] by simp
    then consider "b' = n3\<lparr>nd_job := JIdle\<rparr>"
      | mf where "ms_manifest (nd_state b) = Some mf" "b' = commit_start g (k + 1) (mf_db_sha mf) n3"
      using n2(7) n3(2) by (cases "ms_manifest (nd_state b)") auto
    then show ?thesis
    proof cases
      case 1
      then show ?thesis using n2(5-9) n3 by (simp add: good_def node_ok_def) metis
    next
      case (2 mf)
      then show ?thesis using n2(5-9) n3
        by (cases "mg_persist g (k + 1)") (simp_all add: good_def commit_start_def node_ok_def live_phases_def, metis)
    qed
  next
    case False
    obtain n3 x where rb: "restoreBackup e w g n2 = (n3, x)" by (cases "restoreBackup e w g n2")
    then have b2: "b' = (if x then (resume_rec w g (reload e w g n3))\<lparr>nd_job := JAbort 0\<rparr>
        else (update (mg_persist g (k + 1)) (\<lambda>st. st) n3)\<lparr>nd_job := JIdle\<rparr>)"
      using False unfolding b' rollback_def Let_def n1_def [symmetric] n2_def [symmetric] by (simp split: bool.split)
    define n4 where "n4 = on_srv (dropAll e w) n2"
    define snap where "snap = (case gm_get (nd_backup n4) (ms_id (nd_state n4)) of None \<Rightarrow> empty_snapshot | Some bk \<Rightarrow> bk)"
    have cl: "clone_tables g snap (\<lambda>st. st) n4 = (n3, x)"
      using rb by (simp add: restoreBackup_def Let_def n4_def [symmetric] snap_def [symmetric])
    have n4: "node_ok n4" "nd_state n4 = nd_state n2" "nd_saved n4 = nd_saved n2" "nd_keys n4 = nd_keys b"
      "nd_backup n4 = nd_backup b"
      using n2 by (simp_all add: n4_def node_ok_def dropped dropped_ok)
    have sk: "sn_keys snap = (case gm_get (nd_backup b) (ms_id (nd_state b)) of None \<Rightarrow> [] | Some bk \<Rightarrow> sn_keys bk)"
      using n2(5) by (simp add: snap_def n4 empty_snapshot_def split: option.split)
    show ?thesis
    proof (cases x)
      case False
      then have "n3 = n4" using cl by (auto simp: clone_tables_def split: clone_result.splits)
      then show ?thesis using n2 n4 False by (auto simp: b2 good_def node_ok_def)
    next
      case True
      then have n3: "nd_keys n3 = sn_keys snap" "nd_state n3 = nd_state n2" "nd_saved n3 = nd_state n2" "nd_backup n3 = nd_backup b"
        using cl n4 by (auto simp: clone_tables_def split: clone_result.splits)
      have "node_ok b'" using True reload_ok(1) [of e w g n3] by (simp add: b2 node_ok_def)
      then show ?thesis using n2 n3 sk True by (auto simp: b2 good_def)
    qed
  qed
  then show "node_ok b' \<and> ms_id (nd_state b') = ms_id (nd_state b) \<and> nd_backup b' = nd_backup b"
    "(nd_keys b' = nd_keys b \<and> (nd_job b' = JIdle \<or> (\<exists>mf. ms_manifest (nd_state b) = Some mf \<and> nd_job b' = JCommit (mf_db_sha mf) 0)))
       \<or> (nd_keys b' = (case gm_get (nd_backup b) (ms_id (nd_state b)) of None \<Rightarrow> [] | Some bk \<Rightarrow> sn_keys bk) \<and> nd_job b' = JAbort 0)"
    "(ms_phase (nd_state b) \<in> live_phases \<longrightarrow> ms_phase (nd_state b') \<in> live_phases) \<and> ms_role (nd_state b') = ms_role (nd_state b) \<and> ms_manifest (nd_state b') = ms_manifest (nd_state b)"
    "(nd_saved b' = nd_saved b \<or> ms_id (nd_saved b') = ms_id (nd_state b) \<and> (ms_phase (nd_state b) \<in> live_phases \<longrightarrow> ms_phase (nd_saved b') \<in> live_phases)
         \<and> ms_role (nd_saved b') = ms_role (nd_state b) \<and> ms_manifest (nd_saved b') = ms_manifest (nd_state b))"
    by (simp_all add: good_def)
qed

section \<open>Two nodes and the network between them\<close>

record mig_system =
  sy_a :: mig_node                                  \<comment> \<open>the source\<close>
  sy_b :: mig_node                                  \<comment> \<open>the target\<close>
  sy_sent :: "(string \<times> mig_msg) list"             \<comment> \<open>requests sent, with the key\<close>
  sy_replies :: "(mig_msg \<times> mig_reply) list"

text \<open>
  What happens: the ordinary life of the accounts of a node (\<open>True\<close> is the source), a pairing, the
  source answering any request ever sent, a restart, the panel of the target starting an
  import, the job sending its request, the job going on with an answer to it (or without one), and
  the panel of the source unlocking it.
\<close>

datatype mig_event =
    MgServer bool srv_event
  | MgPaired bool string string
  | MgServe nat
  | MgRestart bool
  | MgImport string string string
  | MgSend
  | MgJob "nat option"
  | MgUnlock string

definition session_jids :: "server \<Rightarrow> string list" where
  "session_jids s = List.map_filter (\<lambda>(k, x). ss_jid x) (sv_sessions s)"

text \<open>Keys go with the session that loses them (whatsmeow deletes the device).\<close>

definition after_event :: "srv_env \<Rightarrow> srv_draws \<Rightarrow> srv_event \<Rightarrow> mig_node \<Rightarrow> mig_node" where
  "after_event e w ev n =
     (let s = srv_step e (nd_srv n) (w, ev)
      in n\<lparr>nd_srv := s, nd_keys := filter (\<lambda>j. j \<in> set (session_jids s) \<or> j \<notin> set (session_jids (nd_srv n))) (nd_keys n)\<rparr>)"

definition live_on :: "srv_env \<Rightarrow> srv_draws \<Rightarrow> srv_event \<Rightarrow> mig_node \<Rightarrow> mig_node" where
  "live_on e w ev n = (case ev of SvReconnect c \<Rightarrow> n | _ \<Rightarrow> after_event e w ev n)"

definition paired_with :: "string \<Rightarrow> string \<Rightarrow> mig_node \<Rightarrow> mig_node" where
  "paired_with sid j n =
     (case gm_get (sv_sessions (nd_srv n)) sid of
        None \<Rightarrow> n
      | Some x \<Rightarrow> (if ss_jid x \<noteq> None then n
          else on_srv (\<lambda>s. upd_session s sid (\<lambda>x. x\<lparr>ss_jid := Some j, ss_online := False\<rparr>)) (n\<lparr>nd_keys := j # nd_keys n\<rparr>)))"

definition known_keys :: "mig_node \<Rightarrow> string list" where
  "known_keys n = nd_keys n @ concat (map (sn_keys \<circ> snd) (nd_backup n)) @ concat (map (sn_keys \<circ> snd) (nd_out n))"

fun msg_id :: "mig_msg \<Rightarrow> string" where
  "msg_id (MLock i t) = i"
| "msg_id (MFile i f) = i"
| "msg_id (MCommit i sha) = i"
| "msg_id (MAbort i) = i"

definition answer :: "mig_system \<Rightarrow> nat option \<Rightarrow> mig_reply option" where
  "answer y r =
     (case (r, request (sy_b y)) of
        (Some k, Some (key, m)) \<Rightarrow>
          (if k < length (sy_replies y) \<and> fst (sy_replies y ! k) = m then Some (snd (sy_replies y ! k)) else None)
      | _ \<Rightarrow> None)"

text \<open>WhatsApp gives a new pairing new keys, and ids of migrations are random.\<close>

fun mig_step :: "srv_env \<Rightarrow> mig_system \<Rightarrow> srv_draws \<times> mig_draws \<times> mig_event \<Rightarrow> mig_system" where
  "mig_step e y (w, g, MgServer True ev) = y\<lparr>sy_a := live_on e w ev (sy_a y)\<rparr>"
| "mig_step e y (w, g, MgServer False ev) = y\<lparr>sy_b := live_on e w ev (sy_b y)\<rparr>"
| "mig_step e y (w, g, MgPaired on_a sid j) =
     (if j \<in> set (known_keys (sy_a y) @ known_keys (sy_b y)) then y
      else if on_a then y\<lparr>sy_a := paired_with sid j (sy_a y)\<rparr> else y\<lparr>sy_b := paired_with sid j (sy_b y)\<rparr>)"
| "mig_step e y (w, g, MgServe k) =
     (if k < length (sy_sent y)
      then let (a, r) = serve e w g (sy_a y) (sy_sent y ! k)
           in y\<lparr>sy_a := a, sy_replies := sy_replies y @ [(snd (sy_sent y ! k), r)]\<rparr>
      else y)"
| "mig_step e y (w, g, MgRestart on_a) =
     (if on_a then y\<lparr>sy_a := restart w g (sy_a y)\<rparr> else y\<lparr>sy_b := restart w g (sy_b y)\<rparr>)"
| "mig_step e y (w, g, MgImport base key i) =
     (if i \<in> set (map (msg_id \<circ> snd) (sy_sent y)) then y
      else y\<lparr>sy_b := fst (startImport g base key i (sy_b y))\<rparr>)"
| "mig_step e y (w, g, MgSend) =
     (case request (sy_b y) of None \<Rightarrow> y | Some p \<Rightarrow> y\<lparr>sy_sent := sy_sent y @ [p]\<rparr>)"
| "mig_step e y (w, g, MgJob r) = y\<lparr>sy_b := job_step e w g (answer y r) (sy_b y)\<rparr>"
| "mig_step e y (w, g, MgUnlock i) = y\<lparr>sy_a := fst (abortSource w g i (sy_a y))\<rparr>"

section \<open>The invariant\<close>

definition live_target :: "manifest \<Rightarrow> mig_state \<Rightarrow> bool" where
  "live_target mf st \<longleftrightarrow> ms_role st = RoleTarget \<and> ms_phase st \<in> live_phases \<and> ms_manifest st = Some mf"

definition good_job :: "manifest \<Rightarrow> mig_job \<Rightarrow> bool" where
  "good_job mf j = (case j of JIdle \<Rightarrow> True | JRollback \<Rightarrow> True | JWait m \<Rightarrow> m = mf
     | JCommit sha k \<Rightarrow> sha = mf_db_sha mf | _ \<Rightarrow> False)"

text \<open>While both nodes have keys of an account, the source is stopped for the migration of the target.\<close>

definition held_for :: "mig_node \<Rightarrow> mig_node \<Rightarrow> mig_msg set \<Rightarrow> (mig_msg \<times> mig_reply) set \<Rightarrow> manifest \<Rightarrow> bool" where
  "held_for a b S R mf \<longleftrightarrow> holds a (ms_id (nd_state b)) mf \<and> \<not> committed a \<and> MAbort (ms_id (nd_state b)) \<notin> S
     \<and> live_target mf (nd_state b) \<and> live_target mf (nd_saved b) \<and> good_job mf (nd_job b)
     \<and> (\<forall>sha. MCommit (ms_id (nd_state b)) sha \<in> S \<longrightarrow> sha = mf_db_sha mf)
     \<and> (\<forall>sha. (MCommit (ms_id (nd_state b)) sha, RError 409) \<notin> R)"

definition unsettled :: "mig_node \<Rightarrow> mig_msg set \<Rightarrow> bool" where
  "unsettled b S \<longleftrightarrow> ms_role (nd_state b) = RoleTarget \<and> MAbort (ms_id (nd_state b)) \<notin> S
     \<and> (\<forall>sha. MCommit (ms_id (nd_state b)) sha \<notin> S)"

definition agreed :: "mig_node \<Rightarrow> (mig_msg \<times> mig_reply) set \<Rightarrow> manifest \<Rightarrow> bool" where
  "agreed b R mf \<longleftrightarrow> ms_manifest (nd_state b) = Some mf \<and> (\<exists>t. (MLock (ms_id (nd_state b)) t, RManifest mf) \<in> R)"

definition before_import :: "mig_node \<Rightarrow> mig_msg set \<Rightarrow> (mig_msg \<times> mig_reply) set \<Rightarrow> bool" where
  "before_import b S R = (case nd_job b of
       JLock \<Rightarrow> unsettled b S
     | JFetch mf \<Rightarrow> unsettled b S \<and> agreed b R mf
     | JImport mf snap \<Rightarrow> unsettled b S \<and> agreed b R mf
     | _ \<Rightarrow> True)"

definition golden :: "mig_node \<Rightarrow> mig_node \<Rightarrow> mig_msg set \<Rightarrow> (mig_msg \<times> mig_reply) set \<Rightarrow> bool" where
  "golden a b S R \<longleftrightarrow>
     node_ok a \<and> node_ok b \<and> nd_saved a = nd_state a \<and> ms_id (nd_saved b) = ms_id (nd_state b)
   \<and> (shares a b \<longrightarrow> (\<exists>mf. held_for a b S R mf))
   \<and> before_import b S R
   \<and> (\<forall>p \<in> set (nd_backup b). set (sn_keys (snd p)) \<inter> set (nd_keys a) = {})
   \<and> fst ` R \<subseteq> S
   \<and> (\<forall>i t mf. (MLock i t, RManifest mf) \<in> R \<longrightarrow> MAbort i \<notin> S \<longrightarrow> holds a i mf)
   \<and> (\<forall>i mf. locked_for a i mf \<longrightarrow> sv_blocked (nd_srv a) \<or> MAbort i \<in> S)
   \<and> (\<forall>i sha. (MCommit i sha, RDone) \<in> R \<longrightarrow> committed a \<and> ms_id (nd_state a) = i)
   \<and> (committed a \<longrightarrow> (\<exists>sha. MCommit (ms_id (nd_state a)) sha \<in> S))
   \<and> (\<forall>i sha r. (MCommit i sha, r) \<in> R \<longrightarrow> r = RDone \<or> (\<exists>s. r = RError s))
   \<and> ms_role (nd_state a) \<noteq> RoleTarget"

lemma before_import_cong:
  "nd_state b' = nd_state b \<Longrightarrow> nd_job b' = nd_job b \<Longrightarrow> before_import b' S R = before_import b S R"
  by (cases "nd_job b") (simp_all add: before_import_def unsettled_def agreed_def)

lemma goldenD:
  assumes "golden a b S R"
  shows "node_ok a" "node_ok b" "nd_saved a = nd_state a" "ms_id (nd_saved b) = ms_id (nd_state b)"
    "shares a b \<longrightarrow> (\<exists>mf. held_for a b S R mf)" "before_import b S R"
    "\<forall>p \<in> set (nd_backup b). set (sn_keys (snd p)) \<inter> set (nd_keys a) = {}" "fst ` R \<subseteq> S"
    "\<forall>i t mf. (MLock i t, RManifest mf) \<in> R \<longrightarrow> MAbort i \<notin> S \<longrightarrow> holds a i mf"
    "\<forall>i mf. locked_for a i mf \<longrightarrow> sv_blocked (nd_srv a) \<or> MAbort i \<in> S"
    "\<forall>i sha. (MCommit i sha, RDone) \<in> R \<longrightarrow> committed a \<and> ms_id (nd_state a) = i"
    "committed a \<longrightarrow> (\<exists>sha. MCommit (ms_id (nd_state a)) sha \<in> S)"
    "\<forall>i sha r. (MCommit i sha, r) \<in> R \<longrightarrow> r = RDone \<or> (\<exists>s. r = RError s)"
    "ms_role (nd_state a) \<noteq> RoleTarget"
  using assms unfolding golden_def by - (elim conjE, assumption)+

lemma source_movesD:
  assumes "source_moves a m r a'"
  shows "node_ok a'" "nd_saved a' = nd_state a'" "set (nd_keys a') \<subseteq> set (nd_keys a)"
    "\<forall>i mf. holds a i mf \<longrightarrow> m \<noteq> MAbort i \<longrightarrow> holds a' i mf"
    "\<forall>i t mf. m = MLock i t \<longrightarrow> r = RManifest mf \<longrightarrow> locked_for a' i mf"
    "\<forall>i mf. locked_for a' i mf \<longrightarrow> \<not> sv_blocked (nd_srv a') \<longrightarrow> m \<noteq> MAbort i \<longrightarrow> locked_for a i mf \<and> \<not> sv_blocked (nd_srv a)"
    "\<forall>i sha. m = MCommit i sha \<longrightarrow> r = RDone \<longrightarrow> committed a' \<and> ms_id (nd_state a') = i"
    "committed a \<longrightarrow> nd_state a' = nd_state a"
    "committed a' \<longrightarrow> committed a \<or> nd_keys a' = [] \<and> (\<exists>sha. m = MCommit (ms_id (nd_state a')) sha)"
    "\<forall>i sha mf. m = MCommit i sha \<longrightarrow> r = RError 409 \<longrightarrow> holds a i mf \<longrightarrow> mf_db_sha mf \<noteq> sha"
    "\<forall>i sha. m = MCommit i sha \<longrightarrow> r = RDone \<or> (\<exists>s. r = RError s)"
    "ms_role (nd_state a') = RoleTarget \<longrightarrow> ms_role (nd_state a) = RoleTarget"
  using assms unfolding source_moves_def by - (elim conjE, assumption)+

lemma goldenI:
  assumes "node_ok a" "node_ok b" "nd_saved a = nd_state a" "ms_id (nd_saved b) = ms_id (nd_state b)"
    "shares a b \<Longrightarrow> \<exists>mf. held_for a b S R mf" "before_import b S R"
    "\<And>p. p \<in> set (nd_backup b) \<Longrightarrow> set (sn_keys (snd p)) \<inter> set (nd_keys a) = {}" "fst ` R \<subseteq> S"
    "\<And>i t mf. (MLock i t, RManifest mf) \<in> R \<Longrightarrow> MAbort i \<notin> S \<Longrightarrow> holds a i mf"
    "\<And>i mf. locked_for a i mf \<Longrightarrow> \<not> sv_blocked (nd_srv a) \<Longrightarrow> MAbort i \<in> S"
    "\<And>i sha. (MCommit i sha, RDone) \<in> R \<Longrightarrow> committed a \<and> ms_id (nd_state a) = i"
    "committed a \<Longrightarrow> \<exists>sha. MCommit (ms_id (nd_state a)) sha \<in> S"
    "\<And>i sha r. (MCommit i sha, r) \<in> R \<Longrightarrow> r = RDone \<or> (\<exists>s. r = RError s)"
    "ms_role (nd_state a) \<noteq> RoleTarget"
  shows "golden a b S R"
proof -
  have c5: "shares a b \<longrightarrow> (\<exists>mf. held_for a b S R mf)" using assms(5) by blast
  have c7: "\<forall>p \<in> set (nd_backup b). set (sn_keys (snd p)) \<inter> set (nd_keys a) = {}" using assms(7) by blast
  have c9: "\<forall>i t mf. (MLock i t, RManifest mf) \<in> R \<longrightarrow> MAbort i \<notin> S \<longrightarrow> holds a i mf" using assms(9) by blast
  have c10: "\<forall>i mf. locked_for a i mf \<longrightarrow> sv_blocked (nd_srv a) \<or> MAbort i \<in> S" using assms(10) by blast
  have c11: "\<forall>i sha. (MCommit i sha, RDone) \<in> R \<longrightarrow> committed a \<and> ms_id (nd_state a) = i" using assms(11) by blast
  have c12: "committed a \<longrightarrow> (\<exists>sha. MCommit (ms_id (nd_state a)) sha \<in> S)" using assms(12) by blast
  have c13: "\<forall>i sha r. (MCommit i sha, r) \<in> R \<longrightarrow> r = RDone \<or> (\<exists>s. r = RError s)" using assms(13) by blast
  show ?thesis unfolding golden_def
    by (intro conjI) (rule assms(1) assms(2) assms(3) assms(4) c5 assms(6) c7 assms(8) c9 c10 c11 c12 c13 assms(14))+
qed

text \<open>A step of the source that answers a request it was sent.\<close>

lemma golden_serve:
  assumes G: "golden a b S R" and m: "m \<in> S" and mv: "source_moves a m r a'"
  shows "golden a' b S (insert (m, r) R)"
proof -
  note g = goldenD [OF G]
  note a' = source_movesD(1,2) [OF mv] and keys = source_movesD(3) [OF mv]
    and keep = source_movesD(4) [OF mv, rule_format] and lock = source_movesD(5) [OF mv, rule_format]
    and loose = source_movesD(6) [OF mv, rule_format] and finished = source_movesD(7) [OF mv, rule_format]
    and stay = source_movesD(8) [OF mv, rule_format] and new = source_movesD(9) [OF mv, rule_format]
    and conf = source_movesD(10) [OF mv, rule_format] and shape = source_movesD(11) [OF mv, rule_format]
  have sent: "m' \<in> S" if "(m', r') \<in> R" for m' r' using g(8) that by force
  have stay': "committed a'" if "committed a" using stay [OF that] that by (simp add: committed_def)
  have free: "MAbort i \<in> S" if "locked_for a' i mf" "\<not> sv_blocked (nd_srv a')" for i mf
    using loose [OF that] g(10) m by blast
  have "\<exists>mf. held_for a' b S (insert (m, r) R) mf" if sh: "shares a' b"
  proof -
    have "shares a b" using sh keys by (auto simp: shares_def)
    with g(5) obtain mf where h: "held_for a b S R mf" by blast
    let ?i = "ms_id (nd_state b)"
    have "m \<noteq> MAbort ?i" using h m by (auto simp: held_for_def)
    then have "holds a' ?i mf" using keep h by (simp add: held_for_def)
    moreover have "\<not> committed a'" using new sh h by (auto simp: held_for_def shares_def)
    moreover have "(m, r) \<noteq> (MCommit ?i sha, RError 409)" for sha
    proof
      assume mr: "(m, r) = (MCommit ?i sha, RError 409)"
      then have "sha = mf_db_sha mf" using h m by (auto simp: held_for_def)
      then show False using conf [of ?i sha mf] mr h by (simp add: held_for_def)
    qed
    ultimately have "held_for a' b S (insert (m, r) R) mf" using h by (auto simp: held_for_def)
    then show ?thesis by blast
  qed
  moreover have "before_import b S (insert (m, r) R)"
    using g(6) by (auto simp: before_import_def agreed_def split: mig_job.splits)
  moreover have "set (sn_keys (snd p)) \<inter> set (nd_keys a') = {}" if "p \<in> set (nd_backup b)" for p
    using g(7) that keys by blast
  moreover have "holds a' i mf" if lm: "(MLock i t, RManifest mf) \<in> insert (m, r) R" and na: "MAbort i \<notin> S" for i t mf
  proof (cases "(MLock i t, RManifest mf) \<in> R")
    case True
    then have "holds a i mf" using g(9) na by blast
    then show ?thesis using keep na m by blast
  next
    case False
    then have "locked_for a' i mf" using lm lock by blast
    then show ?thesis using free na by (auto simp: holds_def locked_for_def)
  qed
  moreover have "committed a' \<and> ms_id (nd_state a') = i" if "(MCommit i sha, RDone) \<in> insert (m, r) R" for i sha
    using that finished g(11) stay stay' by (metis insertE prod.inject)
  moreover have "\<exists>sha. MCommit (ms_id (nd_state a')) sha \<in> S" if "committed a'"
    using new [OF that] g(12) stay m by metis
  moreover have "fst ` insert (m, r) R \<subseteq> S" using g(8) m by simp
  moreover have "r' = RDone \<or> (\<exists>s. r' = RError s)" if "(MCommit i sha, r') \<in> insert (m, r) R" for i sha r'
    using g(13) shape that by blast
  moreover have "ms_role (nd_state a') \<noteq> RoleTarget" using source_movesD(12) [OF mv] g(14) by blast
  ultimately show ?thesis
    using g(2,4) a' free by (intro goldenI) assumption+
qed

lemma in_backups: "p \<in> set (nd_backup b) \<Longrightarrow> j \<in> set (sn_keys (snd p)) \<Longrightarrow> j \<in> set (known_keys b)"
  by (force simp: known_keys_def)

text \<open>Steps of the source that leave its migration alone.\<close>

lemma golden_source:
  assumes G: "golden a b S R" and ok: "node_ok a'" and st: "nd_saved a' = nd_saved a" "nd_state a' = nd_state a"
    and keys: "set (nd_keys a') \<subseteq> J \<union> set (nd_keys a)"
    and j: "\<And>j. j \<in> J \<Longrightarrow> j \<notin> set (known_keys b)"
    and bl: "ms_role (nd_state a) = RoleSource \<Longrightarrow> ms_phase (nd_state a) \<in> {PhLocked, PhCommitted} \<Longrightarrow> sv_blocked (nd_srv a)
      \<Longrightarrow> sv_blocked (nd_srv a')"
  shows "golden a' b S R"
proof (rule goldenI)
  note g = goldenD [OF G]
  have holds: "holds a' i mf" if "holds a i mf" for i mf using that bl by (simp add: holds_def st)
  have com: "committed a' = committed a" by (simp add: committed_def st)
  have lk: "locked_for a' = locked_for a" by (simp add: locked_for_def st fun_eq_iff)
  show "node_ok a'" "node_ok b" "nd_saved a' = nd_state a'" "ms_id (nd_saved b) = ms_id (nd_state b)"
    "before_import b S R" "fst ` R \<subseteq> S" using ok g(2-4,6,8) st by simp_all
  show "\<exists>mf. held_for a' b S R mf" if "shares a' b"
  proof -
    have "shares a b" using that keys j by (auto simp: shares_def known_keys_def)
    with g(5) obtain mf where "held_for a b S R mf" by blast
    then have "held_for a' b S R mf" using holds by (simp add: held_for_def com)
    then show ?thesis by blast
  qed
  show "set (sn_keys (snd p)) \<inter> set (nd_keys a') = {}" if "p \<in> set (nd_backup b)" for p
    using g(7) that keys j in_backups [OF that] by blast
  show "holds a' i mf" if "(MLock i t, RManifest mf) \<in> R" "MAbort i \<notin> S" for i t mf
    using g(9) that holds by blast
  show "MAbort i \<in> S" if "locked_for a' i mf" "\<not> sv_blocked (nd_srv a')" for i mf
  proof -
    have "locked_for a i mf" using that(1) by (simp add: lk)
    moreover from this have "\<not> sv_blocked (nd_srv a)" using bl that(2) by (auto simp: locked_for_def)
    ultimately show ?thesis using g(10) by blast
  qed
  show "committed a' \<and> ms_id (nd_state a') = i" if "(MCommit i sha, RDone) \<in> R" for i sha
    using g(11) that com st by simp blast
  show "\<exists>sha. MCommit (ms_id (nd_state a')) sha \<in> S" if "committed a'" using g(12) that com st by simp
  show "r = RDone \<or> (\<exists>s. r = RError s)" if "(MCommit i sha, r) \<in> R" for i sha r using g(13) that by blast
  show "ms_role (nd_state a') \<noteq> RoleTarget" using g(14) st by simp
qed

text \<open>Steps of the target.\<close>

lemma golden_target:
  assumes G: "golden a b S R" and ok: "node_ok b'" and ids: "ms_id (nd_saved b') = ms_id (nd_state b')"
    and sh: "shares a b' \<Longrightarrow> \<exists>mf. held_for a b' S R mf"
    and pre: "before_import b' S R"
    and bk: "\<And>p. p \<in> set (nd_backup b') \<Longrightarrow> p \<in> set (nd_backup b) \<or> set (sn_keys (snd p)) \<inter> set (nd_keys a) = {}"
  shows "golden a b' S R"
proof (rule goldenI)
  note g = goldenD [OF G]
  show "node_ok a" "node_ok b'" "nd_saved a = nd_state a" "ms_id (nd_saved b') = ms_id (nd_state b')" "before_import b' S R"
    "fst ` R \<subseteq> S" using ok ids pre g(1,3,8) by simp_all
  show "\<exists>mf. held_for a b' S R mf" if "shares a b'" using sh that .
  show "set (sn_keys (snd p)) \<inter> set (nd_keys a) = {}" if "p \<in> set (nd_backup b')" for p
    using bk [OF that] g(7) by blast
  show "holds a i mf" if "(MLock i t, RManifest mf) \<in> R" "MAbort i \<notin> S" for i t mf using g(9) that by blast
  show "MAbort i \<in> S" if "locked_for a i mf" "\<not> sv_blocked (nd_srv a)" for i mf using g(10) that by blast
  show "committed a \<and> ms_id (nd_state a) = i" if "(MCommit i sha, RDone) \<in> R" for i sha using g(11) that by blast
  show "\<exists>sha. MCommit (ms_id (nd_state a)) sha \<in> S" if "committed a" using g(12) that by blast
  show "r = RDone \<or> (\<exists>s. r = RError s)" if "(MCommit i sha, r) \<in> R" for i sha r using g(13) that by blast
  show "ms_role (nd_state a) \<noteq> RoleTarget" by (rule g(14))
qed

text \<open>A step that keeps keys, id and backups: the state and the job stay good while keys are shared.\<close>

lemma golden_same_keys:
  assumes G: "golden a b S R" and ok: "node_ok b'"
    and ids: "ms_id (nd_state b') = ms_id (nd_state b)" "ms_id (nd_saved b') = ms_id (nd_state b)"
    and keys: "set (nd_keys b') \<subseteq> set (nd_keys b)"
    and bk: "set (nd_backup b') \<subseteq> set (nd_backup b)"
    and good: "\<And>mf. held_for a b S R mf \<Longrightarrow> live_target mf (nd_state b') \<and> live_target mf (nd_saved b') \<and> good_job mf (nd_job b')"
    and pre: "before_import b' S R"
  shows "golden a b' S R"
proof (rule golden_target [OF G ok _ _ pre])
  show "ms_id (nd_saved b') = ms_id (nd_state b')" using ids by simp
  show "p \<in> set (nd_backup b) \<or> set (sn_keys (snd p)) \<inter> set (nd_keys a) = {}" if "p \<in> set (nd_backup b')" for p
    using bk that by blast
  assume "shares a b'"
  then have "shares a b" using keys by (auto simp: shares_def)
  with goldenD(5) [OF G] obtain mf where h: "held_for a b S R mf" by blast
  then have "held_for a b' S R mf" using good [OF h] ids by (simp add: held_for_def)
  then show "\<exists>mf. held_for a b' S R mf" by blast
qed

lemma not_shared: "golden a b S R \<Longrightarrow> (\<And>mf. \<not> good_job mf (nd_job b)) \<Longrightarrow> \<not> shares a b"
  using goldenD(5) [of a b S R] by (auto simp: held_for_def)

lemma settled_import: "nd_job b \<in> {JIdle, JRollback} \<or> (\<exists>mf. nd_job b = JWait mf) \<or> (\<exists>sha k. nd_job b = JCommit sha k)
    \<or> (\<exists>k. nd_job b = JAbort k) \<Longrightarrow> before_import b S R"
  by (auto simp: before_import_def)

lemma golden_fail:
  assumes G: "golden a b S R" and sh: "\<not> shares a b"
    and n: "acct_shape (nd_srv n)" "jids (nd_srv n) \<subseteq> set (nd_keys n)" "set (nd_keys n) \<subseteq> set (nd_keys b)"
      "ms_id (nd_saved n) = ms_id (nd_state n)"
      "\<And>p. p \<in> set (nd_backup n) \<Longrightarrow> p \<in> set (nd_backup b) \<or> set (sn_keys (snd p)) \<inter> set (nd_keys a) = {}"
  shows "golden a (failBeforeImport w g n) S R"
proof (rule golden_target [OF G])
  note f = fail_fields [OF n(1,2), of w g]
  show "node_ok (failBeforeImport w g n)" by (rule f(1))
  show "ms_id (nd_saved (failBeforeImport w g n)) = ms_id (nd_state (failBeforeImport w g n))" using f n(4) by simp
  show "before_import (failBeforeImport w g n) S R" using f by (simp add: before_import_def)
  show "\<exists>mf. held_for a (failBeforeImport w g n) S R mf" if "shares a (failBeforeImport w g n)"
    using that sh n(3) f(2) by (auto simp: shares_def)
  show "p \<in> set (nd_backup b) \<or> set (sn_keys (snd p)) \<inter> set (nd_keys a) = {}"
    if "p \<in> set (nd_backup (failBeforeImport w g n))" for p
    using that n(5) f(6) by simp
qed

lemma golden_rollback:
  assumes G: "golden a b S R"
  shows "golden a (rollback e w g k b) S R"
proof -
  note g = goldenD [OF G] and rc = rollback_cases [OF g(2) refl, of e w g k]
  let ?b = "rollback e w g k b"
  have saved: "ms_id (nd_saved ?b) = ms_id (nd_state b)" using rc(4) g(4) by auto
  have pre: "before_import ?b S R" using rc(2) by (auto intro!: settled_import)
  from rc(2) show ?thesis
  proof
    assume h: "nd_keys ?b = nd_keys b \<and> (nd_job ?b = JIdle
      \<or> (\<exists>mf. ms_manifest (nd_state b) = Some mf \<and> nd_job ?b = JCommit (mf_db_sha mf) 0))"
    show ?thesis
    proof (rule golden_same_keys [OF G])
      fix mf assume hf: "held_for a b S R mf"
      then have "live_target mf (nd_state b)" "live_target mf (nd_saved b)" by (simp_all add: held_for_def)
      then show "live_target mf (nd_state ?b) \<and> live_target mf (nd_saved ?b) \<and> good_job mf (nd_job ?b)"
        using rc(3,4) h by (auto simp: live_target_def good_job_def)
    qed (use rc saved h pre in auto)
  next
    assume h: "nd_keys ?b = (case gm_get (nd_backup b) (ms_id (nd_state b)) of None \<Rightarrow> [] | Some bk \<Rightarrow> sn_keys bk)
      \<and> nd_job ?b = JAbort 0"
    have "\<not> shares a ?b"
    proof (cases "gm_get (nd_backup b) (ms_id (nd_state b))")
      case (Some bk)
      then have "set (sn_keys bk) \<inter> set (nd_keys a) = {}" using g(7) gm_get_in by fastforce
      then show ?thesis using h Some by (auto simp: shares_def)
    qed (use h in \<open>simp add: shares_def\<close>)
    then show ?thesis using rc(1) saved pre by (intro golden_target [OF G]) auto
  qed
qed

lemma golden_import:
  assumes G: "golden a b S R" and job: "nd_job b = JImport mf snap"
  shows "golden a (case importClone e w g mf snap b of (n1, True) \<Rightarrow> afterImport g 0 mf n1 | (n1, False) \<Rightarrow> failBeforeImport w g n1) S R"
proof -
  note g = goldenD [OF G]
  have sh: "\<not> shares a b" by (rule not_shared [OF G]) (simp add: job good_job_def)
  have un: "unsettled b S" "agreed b R mf" using g(6) job by (simp_all add: before_import_def)
  obtain n x where im: "importClone e w g mf snap b = (n, x)" by (cases "importClone e w g mf snap b")
  note ic = import_cases [OF g(2) im]
  from ic obtain bk where bk: "nd_backup n = nd_backup b \<or> nd_backup n = gm_put (ms_id (nd_state b)) bk (nd_backup b)"
    "sn_keys bk = nd_keys b" by blast
  have backups: "p \<in> set (nd_backup b) \<or> set (sn_keys (snd p)) \<inter> set (nd_keys a) = {}" if "p \<in> set (nd_backup n)" for p
  proof -
    have "p = (ms_id (nd_state b), bk) \<or> p \<in> set (nd_backup b)"
      using that bk(1) gm_in_put [of p "ms_id (nd_state b)" bk "nd_backup b"] by auto
    then show ?thesis using bk(2) sh by (auto simp: shares_def)
  qed
  show ?thesis
  proof (cases x)
    case False
    then have n: "node_ok n" "nd_keys n = nd_keys b" "nd_saved n = nd_saved b" "ms_id (nd_state n) = ms_id (nd_state b)"
      using ic by simp_all
    have "golden a (failBeforeImport w g n) S R"
      by (rule golden_fail [OF G sh node_ok_shape [OF n(1)]])
        (use n g(4) backups in \<open>simp_all add: node_ok_def\<close>)
    then show ?thesis using im False by simp
  next
    case True
    then have n: "node_ok n" "nd_saved n = nd_state n" "ms_id (nd_state n) = ms_id (nd_state b)"
      "ms_phase (nd_state n) = PhImported" "ms_role (nd_state n) = ms_role (nd_state b)"
      "ms_manifest (nd_state n) = ms_manifest (nd_state b)" using ic by simp_all
    let ?b = "afterImport g 0 mf n"
    have b: "ms_id (nd_state ?b) = ms_id (nd_state b)" "ms_id (nd_saved ?b) = ms_id (nd_state b)" "nd_job ?b = JWait mf"
      "nd_backup ?b = nd_backup n" "live_target mf (nd_state ?b)" "live_target mf (nd_saved ?b)" "node_ok ?b"
      using n un by (auto simp: afterImport_def live_target_def live_phases_def unsettled_def agreed_def node_ok_def)
    from un(2) obtain t where "(MLock (ms_id (nd_state b)) t, RManifest mf) \<in> R" by (auto simp: agreed_def)
    then have h: "holds a (ms_id (nd_state b)) mf" using g(9) un(1) by (auto simp: unsettled_def)
    moreover have "\<not> committed a" using g(12) un(1) h by (auto simp: unsettled_def holds_def)
    moreover have "(MCommit (ms_id (nd_state b)) sha, r) \<notin> R" for sha r
      using g(8) un(1) by (force simp: unsettled_def)
    ultimately have "held_for a ?b S R mf"
      using un(1) b by (simp add: held_for_def unsettled_def good_job_def)
    then have "golden a ?b S R"
      by (intro golden_target [OF G]) (use b backups in \<open>auto simp: before_import_def\<close>)
    then show ?thesis using im True by simp
  qed
qed

lemma golden_job:
  assumes G: "golden a b S R" and rep: "\<And>x. r = Some x \<Longrightarrow> \<exists>k m. request b = Some (k, m) \<and> (m, x) \<in> R"
  shows "golden a (job_step e w g r b) S R"
proof -
  note g = goldenD [OF G]
  have shape: "acct_shape (nd_srv b)" "jids (nd_srv b) \<subseteq> set (nd_keys b)"
    using g(2) node_ok_shape by (simp_all add: node_ok_def)
  have fail: "golden a (failBeforeImport w g b) S R" if "\<not> shares a b"
    by (rule golden_fail [OF G that shape]) (use g(4) in auto)
  show ?thesis
  proof (cases "nd_job b")
    case JIdle
    then show ?thesis using G by (simp add: job_step_def)
  next
    case JLock
    have sh: "\<not> shares a b" by (rule not_shared [OF G]) (simp add: JLock good_job_def)
    show ?thesis
    proof (cases "job_step e w g r b = failBeforeImport w g b")
      case True
      then show ?thesis using fail sh by simp
    next
      case False
      then obtain mf where r: "r = Some (RManifest mf)" "mg_persist g 0"
        by (auto simp: job_step_def JLock on_locked_def split: option.splits mig_reply.splits if_splits)
      let ?b = "(update True (\<lambda>st. st\<lparr>ms_manifest := Some mf\<rparr>) b)\<lparr>nd_job := JFetch mf\<rparr>"
      have step: "job_step e w g r b = ?b"
        using False r by (auto simp: job_step_def JLock on_locked_def split: if_splits)
      from rep [OF r(1)] have "(MLock (ms_id (nd_state b)) (nd_self b), RManifest mf) \<in> R"
        by (auto simp: request_def JLock Let_def)
      moreover have "unsettled b S" using g(6) by (simp add: before_import_def JLock)
      ultimately have "before_import ?b S R" by (auto simp: before_import_def unsettled_def agreed_def)
      then show ?thesis
        unfolding step using g(2) sh by (intro golden_target [OF G]) (auto simp: node_ok_def shares_def)
    qed
  next
    case (JFetch mf)
    have sh: "\<not> shares a b" by (rule not_shared [OF G]) (simp add: JFetch good_job_def)
    show ?thesis
    proof (cases "job_step e w g r b = failBeforeImport w g b")
      case True
      then show ?thesis using fail sh by simp
    next
      case False
      then obtain snap where step: "job_step e w g r b = b\<lparr>nd_job := JImport mf snap\<rparr>"
        by (auto simp: job_step_def JFetch on_fetched_def split: option.splits mig_reply.splits if_splits)
      have "before_import (b\<lparr>nd_job := JImport mf snap\<rparr>) S R"
        using g(6) by (simp add: before_import_def JFetch unsettled_def agreed_def)
      then show ?thesis
        unfolding step using g(2,4) sh by (intro golden_target [OF G]) (auto simp: node_ok_def shares_def)
    qed
  next
    case (JImport mf snap)
    then show ?thesis using golden_import [OF G JImport] by (simp add: job_step_def)
  next
    case (JWait mf)
    obtain now ever paired missing where cc: "connectedCount (\<lambda>_. True) (nd_srv b) = (now, ever, paired, missing)"
      by (cases "connectedCount (\<lambda>_. True) (nd_srv b)")
    define f where "f = (\<lambda>st. st\<lparr>ms_report := Some (case ms_report st of
                None \<Rightarrow> \<lparr>rt_paired = paired, rt_connected = ever, rt_missing = missing, rt_committed = False\<rparr>
              | Some r \<Rightarrow> r\<lparr>rt_paired := paired, rt_connected := ever, rt_missing := missing\<rparr>)\<rparr> :: mig_state)"
    define n where "n = update (mg_persist g 0) f b"
    have f: "ms_id (f st) = ms_id st" "live_target m (f st) = live_target m st" for st m
      by (simp_all add: f_def live_target_def)
    have "golden a n S R"
    proof (rule golden_same_keys [OF G])
      show "before_import n S R" by (rule settled_import) (simp add: n_def JWait)
      show "live_target m (nd_state n) \<and> live_target m (nd_saved n) \<and> good_job m (nd_job n)" if "held_for a b S R m" for m
        using that by (simp add: n_def held_for_def f)
    qed (use g(2,4) in \<open>auto simp: n_def node_ok_def f\<close>)
    moreover from this have nok: "node_ok n" "ms_id (nd_saved n) = ms_id (nd_state n)" by (rule goldenD)+
    moreover from \<open>golden a n S R\<close> have "golden a (commit_start g 1 (mf_db_sha mf) n) S R"
    proof (rule golden_same_keys)
      show "before_import (commit_start g 1 (mf_db_sha mf) n) S R" by (rule settled_import) (simp add: commit_start_def)
      show "live_target m (nd_state (commit_start g 1 (mf_db_sha mf) n)) \<and> live_target m (nd_saved (commit_start g 1 (mf_db_sha mf) n))
          \<and> good_job m (nd_job (commit_start g 1 (mf_db_sha mf) n))" if "held_for a n S R m" for m
        using that by (auto simp: commit_start_def held_for_def live_target_def live_phases_def good_job_def n_def JWait)
    qed (use nok in \<open>auto simp: commit_start_def node_ok_def\<close>)
    moreover have "golden a (rollback e w g 1 n) S R" using \<open>golden a n S R\<close> by (rule golden_rollback)
    moreover have "job_step e w g r b = (if 0 < paired \<and> ever = 0 then rollback e w g 1 n else commit_start g 1 (mf_db_sha mf) n)"
      by (simp add: job_step_def JWait on_waited_def cc Let_def n_def f_def)
    ultimately show ?thesis by simp
  next
    case (JCommit sha k)
    let ?b = "job_step e w g r b"
    have run: "?b = on_commit g sha k r b" by (simp add: job_step_def JCommit)
    have keep: "nd_keys ?b = nd_keys b" "ms_id (nd_state ?b) = ms_id (nd_state b)" "ms_id (nd_saved ?b) = ms_id (nd_state b)"
      "node_ok ?b" "set (nd_backup ?b) \<subseteq> set (nd_backup b)" "nd_job ?b = JIdle \<or> (\<exists>k. nd_job ?b = JCommit sha k)"
      using g(2,4) by (auto simp: run on_commit_def remove_target_dir_def node_ok_def gm_in_del split: option.split mig_reply.split)
    show ?thesis
    proof (rule golden_same_keys [OF G keep(4,2,3) _ keep(5)])
      show "set (nd_keys ?b) \<subseteq> set (nd_keys b)" by (simp add: keep)
      show "before_import ?b S R" using keep(6) by (intro settled_import) auto
      fix mf assume h: "held_for a b S R mf"
      have "r \<noteq> Some x" if "x = RError 409 \<or> (\<forall>s. x \<noteq> RError s)" for x
      proof
        assume "r = Some x"
        with rep have x: "(MCommit (ms_id (nd_state b)) sha, x) \<in> R" by (auto simp: request_def JCommit Let_def)
        then have "x \<noteq> RError 409" using h by (auto simp: held_for_def)
        then have "x = RDone" using that g(13) x by blast
        then have "committed a" using g(11) x by blast
        then show False using h by (simp add: held_for_def)
      qed
      then have "?b = (update (mg_persist g 0) (\<lambda>st. st) b)\<lparr>nd_job := JCommit sha (k + 1)\<rparr>"
        unfolding run by (cases r) (auto simp: on_commit_def split: mig_reply.split)
      then show "live_target mf (nd_state ?b) \<and> live_target mf (nd_saved ?b) \<and> good_job mf (nd_job ?b)"
        using h by (simp add: held_for_def JCommit good_job_def)
    qed
  next
    case JRollback
    then show ?thesis using golden_rollback [OF G] by (simp add: job_step_def)
  next
    case (JAbort k)
    let ?b = "job_step e w g r b"
    have run: "?b = on_abort g k r b" by (simp add: job_step_def JAbort)
    have keep: "nd_keys ?b = nd_keys b" "ms_id (nd_state ?b) = ms_id (nd_state b)" "ms_id (nd_saved ?b) = ms_id (nd_state b)"
      "node_ok ?b" "set (nd_backup ?b) \<subseteq> set (nd_backup b)" "nd_job ?b = JIdle \<or> (\<exists>k. nd_job ?b = JAbort k)"
      using g(2,4) by (auto simp: run on_abort_def finish_aborted_def remove_target_dir_def node_ok_def gm_in_del
          split: option.split mig_reply.split)
    have "\<not> held_for a b S R mf" for mf by (simp add: held_for_def JAbort good_job_def)
    moreover have "before_import ?b S R" using keep(6) by (intro settled_import) auto
    ultimately show ?thesis
      using keep by (intro golden_same_keys [OF G]) auto
  qed
qed

lemma golden_start:
  assumes G: "golden a b S R" and fresh: "\<And>m. m \<in> S \<Longrightarrow> msg_id m \<noteq> i"
  shows "golden a (fst (startImport g base key i b)) S R"
proof (cases "snd (startImport g base key i b) = None")
  case False
  then have "fst (startImport g base key i b) = b \<or> fst (startImport g base key i b) = setPeerKey [] b"
    by (auto simp: startImport_def Let_def split: if_splits)
  moreover have "golden a (setPeerKey [] b) S R"
    using goldenD(2,4,6) [OF G] by (intro golden_same_keys [OF G])
      (auto simp: node_ok_def held_for_def before_import_def unsettled_def agreed_def split: mig_job.split)
  ultimately show ?thesis using G by auto
next
  case True
  note g = goldenD [OF G]
  let ?n = "block True (update True (\<lambda>_. no_migration\<lparr>ms_role := RoleTarget, ms_id := i, ms_phase := PhPreparing,
              ms_peer := base\<rparr>) (setPeerKey key b))"
  have idle: "\<not> targetBusy (nd_state b)" and zero: "pairedCount (nd_srv b) = 0"
    and n: "fst (startImport g base key i b) = ?n\<lparr>nd_job := JLock\<rparr>"
    using True by (auto simp: startImport_def Let_def split: if_splits)
  have sh: "\<not> shares a b"
    using g(5) idle by (auto simp: held_for_def live_target_def live_phases_def targetBusy_def)
  have "jids (nd_srv b) = {}" using unpaired_jids [OF node_ok_shape [OF g(2)] zero] .
  then have ok: "node_ok ?n" using node_ok_shape [OF g(2)] online_sub [of "nd_srv b"] by (auto simp: node_ok_def acct_ok_shape)
  have "before_import (?n\<lparr>nd_job := JLock\<rparr>) S R"
    using fresh by (force simp: before_import_def unsettled_def no_migration_def)
  then show ?thesis
    unfolding n using ok sh by (intro golden_target [OF G]) (auto simp: node_ok_def shares_def)
qed

text \<open>Ordinary life, pairings and restarts.\<close>

lemma set_map_filter: "set (List.map_filter f xs) = {y. \<exists>x \<in> set xs. f x = Some y}"
  by (induction xs) (auto simp: List.map_filter_simps split: option.split)

lemma jids_session_jids: "jids s = set (session_jids s)"
proof -
  have "(\<exists>k on once. (k, Some j, on, once) \<in> set (accounts s)) \<longleftrightarrow> (\<exists>k x. (k, x) \<in> set (sv_sessions s) \<and> ss_jid x = Some j)" for j
  proof
    assume "\<exists>k x. (k, x) \<in> set (sv_sessions s) \<and> ss_jid x = Some j"
    then obtain k x where "(k, x) \<in> set (sv_sessions s)" "ss_jid x = Some j" by blast
    then have "(k, Some j, ss_online x, ss_connected_once x) \<in> set (accounts s)"
      unfolding accounts_def account_def by (simp add: image_iff) force
    then show "\<exists>k on once. (k, Some j, on, once) \<in> set (accounts s)" by blast
  qed (auto simp: accounts_def account_def, metis)
  then have "j \<in> jids s \<longleftrightarrow> j \<in> set (session_jids s)" for j
    by (force simp: jids_def session_jids_def set_map_filter)
  then show ?thesis by blast
qed

lemma live_on_ok:
  assumes "node_ok n"
  shows "node_ok (live_on e w ev n)" "nd_state (live_on e w ev n) = nd_state n" "nd_saved (live_on e w ev n) = nd_saved n"
    "set (nd_keys (live_on e w ev n)) \<subseteq> set (nd_keys n)" "nd_job (live_on e w ev n) = nd_job n"
    "nd_backup (live_on e w ev n) = nd_backup n" "sv_blocked (nd_srv (live_on e w ev n)) = sv_blocked (nd_srv n)"
proof -
  have "node_ok (live_on e w ev n) \<and> nd_state (live_on e w ev n) = nd_state n \<and> nd_saved (live_on e w ev n) = nd_saved n
    \<and> set (nd_keys (live_on e w ev n)) \<subseteq> set (nd_keys n) \<and> nd_job (live_on e w ev n) = nd_job n
    \<and> nd_backup (live_on e w ev n) = nd_backup n \<and> sv_blocked (nd_srv (live_on e w ev n)) = sv_blocked (nd_srv n)"
  proof (cases "\<exists>c. ev = SvReconnect c")
    case True
    then show ?thesis using assms by (auto simp: live_on_def)
  next
    case False
    let ?s = "srv_step e (nd_srv n) (w, ev)"
    have "live_on e w ev n = after_event e w ev n"
      using False by (cases ev) (simp_all add: live_on_def)
    then have run: "live_on e w ev n = n\<lparr>nd_srv := ?s,
        nd_keys := filter (\<lambda>j. j \<in> set (session_jids ?s) \<or> j \<notin> set (session_jids (nd_srv n))) (nd_keys n)\<rparr>"
      by (simp only: after_event_def Let_def)
    have mv: "acct_moves (nd_srv n) ?s" by (rule accounts_move) (use False in blast)
    then show ?thesis
      using assms unfolding run node_ok_def acct_moves_def jids_session_jids by auto
  qed
  then show "node_ok (live_on e w ev n)" "nd_state (live_on e w ev n) = nd_state n" "nd_saved (live_on e w ev n) = nd_saved n"
    "set (nd_keys (live_on e w ev n)) \<subseteq> set (nd_keys n)" "nd_job (live_on e w ev n) = nd_job n"
    "nd_backup (live_on e w ev n) = nd_backup n" "sv_blocked (nd_srv (live_on e w ev n)) = sv_blocked (nd_srv n)"
    by blast+
qed

lemma accounts_paired:
  assumes "acct_ok s" and "gm_get (sv_sessions s) sid = Some x"
  shows "acct_ok (upd_session s sid (\<lambda>x. x\<lparr>ss_jid := Some j, ss_online := False\<rparr>))"
    "jids (upd_session s sid (\<lambda>x. x\<lparr>ss_jid := Some j, ss_online := False\<rparr>)) \<subseteq> insert j (jids s)"
proof -
  let ?s = "upd_session s sid (\<lambda>x. x\<lparr>ss_jid := Some j, ss_online := False\<rparr>)"
  have acc: "accounts ?s = AList.update sid (Some j, False, ss_connected_once x) (accounts s)"
    using assms(2) by (simp add: accounts_upd_session account_def)
  have sub: "set (accounts ?s) \<subseteq> insert (sid, Some j, False, ss_connected_once x) (set (accounts s))"
    unfolding acc by (rule set_update)
  have fst: "map fst (accounts ?s) = map fst (accounts s)"
    unfolding acc by (rule map_fst_update [OF account_of [OF assms(2)]])
  show "jids ?s \<subseteq> insert j (jids s)" using sub by (fastforce simp: jids_def)
  have "online_jids ?s \<subseteq> online_jids s" using sub by (fastforce simp: online_jids_def)
  moreover have "fst ` set (accounts ?s) = fst ` set (accounts s)" using arg_cong [OF fst, of set] by simp
  ultimately show "acct_ok ?s" using assms(1) fst unfolding acct_ok_def upd_session_fields by auto
qed

lemma paired_ok:
  assumes "node_ok n"
  shows "node_ok (paired_with sid j n)" "nd_state (paired_with sid j n) = nd_state n" "nd_saved (paired_with sid j n) = nd_saved n"
    "set (nd_keys (paired_with sid j n)) \<subseteq> insert j (set (nd_keys n))" "nd_job (paired_with sid j n) = nd_job n"
    "nd_backup (paired_with sid j n) = nd_backup n" "sv_blocked (nd_srv (paired_with sid j n)) = sv_blocked (nd_srv n)"
  using assms accounts_paired [of "nd_srv n" sid _ j]
  by (auto simp: paired_with_def node_ok_def split: option.split)

lemma boot_srv:
  "nd_keys (boot n) = nd_keys n" "nd_state (boot n) = nd_saved n" "nd_saved (boot n) = nd_saved n" "nd_job (boot n) = nd_job n"
  "nd_backup (boot n) = nd_backup n"
  "sv_blocked (nd_srv (boot n)) = (blocksSessions (nd_saved n) \<or> sv_blocked (nd_srv n))"
  "accounts (nd_srv (boot n)) = accounts (nd_srv n)" "sv_order (nd_srv (boot n)) = sv_order (nd_srv n)"
  by (auto simp: boot_def Let_def accounts_def)

text \<open>Up to the job, a restart gives back what was saved.\<close>

lemma restart_cases:
  "\<exists>n'. restart w g n = resumeJobs w g n' \<and> node_ok n' \<and> nd_keys n' = nd_keys n \<and> nd_state n' = nd_saved n
     \<and> nd_saved n' = nd_saved n \<and> nd_job n' = JIdle \<and> nd_backup n' = nd_backup n
     \<and> sv_blocked (nd_srv n') = blocksSessions (nd_saved n)"
proof -
  define n0 where "n0 = on_srv (\<lambda>s. s\<lparr>sv_sessions := [], sv_order := [], sv_broker := NewBroker, sv_blocked := False,
                  sv_rec := rec_restart (mg_disk g) (sv_rec s), sv_legs := []\<rparr>) (n\<lparr>nd_job := JIdle\<rparr>)"
  define n2 where "n2 = on_srv (\<lambda>s. s\<lparr>sv_rec := resumeOnBoot (mg_rec_db g) (now_ms w) (sv_rec s)\<rparr>) (boot n0)"
  have "accounts (nd_srv n0) = []" "sv_blocked (nd_srv n0) = False" by (simp_all add: n0_def accounts_def)
  then have acc: "accounts (nd_srv n2) = []" "sv_blocked (nd_srv n2) = blocksSessions (nd_saved n0)"
    by (simp_all add: n2_def boot_srv)
  then have j: "jids (nd_srv n2) = {}" "acct_ok (nd_srv n2)" by (simp_all add: jids_def acct_ok_def online_jids_def)
  have n0: "nd_keys n0 = nd_keys n" "nd_saved n0 = nd_saved n" "nd_job n0 = JIdle" "nd_backup n0 = nd_backup n"
    by (simp_all add: n0_def)
  have n2: "nd_keys n2 = nd_keys n" "nd_state n2 = nd_saved n" "nd_saved n2 = nd_saved n" "nd_job n2 = JIdle"
    "nd_backup n2 = nd_backup n"
    by (simp_all add: n2_def boot_srv n0)
  have "restart w g n = resumeJobs w g (restore_node g n2)" by (simp add: restart_def Let_def n2_def n0_def)
  moreover have "node_ok (restore_node g n2)" "sv_blocked (nd_srv (restore_node g n2)) = blocksSessions (nd_saved n)"
    using restore_ok [OF j(2), of g] j(1) acc n0 by simp_all
  ultimately show ?thesis using n2 by (intro exI [of _ "restore_node g n2"]) simp
qed

lemma golden_restart_b:
  assumes G: "golden a b S R"
  shows "golden a (restart w g b) S R"
proof -
  note g = goldenD [OF G]
  obtain n where n: "restart w g b = resumeJobs w g n" "node_ok n" "nd_keys n = nd_keys b" "nd_state n = nd_saved b"
    "nd_saved n = nd_saved b" "nd_job n = JIdle" "nd_backup n = nd_backup b"
    using restart_cases [of w g b] by blast
  let ?b = "resumeJobs w g n"
  have ids: "ms_id (nd_state n) = ms_id (nd_state b)" "ms_id (nd_saved n) = ms_id (nd_state b)" using n g(4) by simp_all
  show ?thesis
  proof (cases "ms_role (nd_state n) = RoleTarget \<and> ms_phase (nd_state n) = PhPreparing")
    case True
    then have "\<not> shares a b" using g(5) n(4) by (auto simp: held_for_def live_target_def live_phases_def)
    moreover have "?b = failBeforeImport w g n" using True by (simp add: resumeJobs_def Let_def)
    moreover have "jids (nd_srv n) \<subseteq> set (nd_keys n)" using n(2) by (simp add: node_ok_def)
    ultimately show ?thesis
      unfolding n(1) using node_ok_shape [OF n(2)] n ids by (auto intro!: golden_fail [OF G])
  next
    case False
    then consider "?b = n" "ms_role (nd_state n) = RoleTarget \<longrightarrow> ms_phase (nd_state n) \<notin> live_phases \<or> ms_manifest (nd_state n) = None"
      | mf where "?b = commit_start g 0 (mf_db_sha mf) n" "ms_manifest (nd_state n) = Some mf"
      | "?b = n\<lparr>nd_job := JRollback\<rparr>"
    proof (cases "ms_role (nd_state n) = RoleTarget \<and> ms_phase (nd_state n) \<in> {PhImported, PhConnecting, PhCommitting}")
      case True
      show ?thesis
      proof (cases "ms_manifest (nd_state n)")
        case None
        with True have "?b = n" by (auto simp: resumeJobs_def Let_def)
        with None show ?thesis by (intro that(1)) simp_all
      next
        case (Some mf)
        with True have "?b = commit_start g 0 (mf_db_sha mf) n" by (auto simp: resumeJobs_def Let_def)
        with Some show ?thesis by (intro that(2))
      qed
    next
      case other: False
      show ?thesis
      proof (cases "ms_role (nd_state n) = RoleTarget \<and> ms_phase (nd_state n) = PhRollingBack")
        case True
        then have "?b = n\<lparr>nd_job := JRollback\<rparr>" by (simp add: resumeJobs_def Let_def)
        then show ?thesis by (rule that(3))
      next
        case norb: False
        have "?b = n" unfolding resumeJobs_def Let_def using False other norb by (simp split: if_split)
        then show ?thesis using other norb by (intro that(1)) (auto simp: live_phases_def)
      qed
    qed
    then show ?thesis
    proof cases
      case 1
      have "\<not> held_for a b S R mf" for mf using 1(2) n(4) by (auto simp: held_for_def live_target_def)
      then show ?thesis
        unfolding n(1) 1(1) using n ids by (intro golden_same_keys [OF G]) (auto simp: before_import_def)
    next
      case (2 mf)
      show ?thesis
        unfolding n(1) 2(1)
      proof (rule golden_same_keys [OF G])
        show "live_target m (nd_state (commit_start g 0 (mf_db_sha mf) n)) \<and> live_target m (nd_saved (commit_start g 0 (mf_db_sha mf) n))
          \<and> good_job m (nd_job (commit_start g 0 (mf_db_sha mf) n))" if "held_for a b S R m" for m
          using that 2(2) n(4,5) by (auto simp: commit_start_def held_for_def live_target_def live_phases_def good_job_def)
      qed (use n(2) ids n in \<open>auto simp: commit_start_def node_ok_def before_import_def\<close>)
    next
      case 3
      show ?thesis
        unfolding n(1) 3
      proof (rule golden_same_keys [OF G])
        show "live_target m (nd_state (n\<lparr>nd_job := JRollback\<rparr>)) \<and> live_target m (nd_saved (n\<lparr>nd_job := JRollback\<rparr>))
          \<and> good_job m (nd_job (n\<lparr>nd_job := JRollback\<rparr>))" if "held_for a b S R m" for m
          using that n(4,5) by (simp add: held_for_def good_job_def)
      qed (use n(2) ids n in \<open>auto simp: node_ok_def before_import_def\<close>)
    qed
  qed
qed

lemma golden_send:
  assumes G: "golden a b S R" and rq: "request b = Some (k, m)"
  shows "golden a b (insert m S) R"
proof (rule goldenI)
  note g = goldenD [OF G]
  let ?i = "ms_id (nd_state b)"
  show "node_ok a" "node_ok b" "nd_saved a = nd_state a" "ms_id (nd_saved b) = ms_id (nd_state b)" "fst ` R \<subseteq> insert m S"
    using g by auto
  show "\<exists>mf. held_for a b (insert m S) R mf" if "shares a b"
  proof -
    from g(5) that obtain mf where h: "held_for a b S R mf" by blast
    then have "good_job mf (nd_job b)" by (simp add: held_for_def)
    then have "m \<noteq> MAbort ?i" "\<And>sha. m = MCommit ?i sha \<Longrightarrow> sha = mf_db_sha mf"
      using rq by (auto simp: request_def good_job_def Let_def split: mig_job.splits)
    then have "held_for a b (insert m S) R mf" using h by (auto simp: held_for_def)
    then show ?thesis by blast
  qed
  show "before_import b (insert m S) R"
    using g(6) rq by (auto simp: before_import_def unsettled_def request_def Let_def split: mig_job.splits)
  show "set (sn_keys (snd p)) \<inter> set (nd_keys a) = {}" if "p \<in> set (nd_backup b)" for p using g(7) that by blast
  show "holds a i mf" if "(MLock i t, RManifest mf) \<in> R" "MAbort i \<notin> insert m S" for i t mf using g(9) that by blast
  show "MAbort i \<in> insert m S" if "locked_for a i mf" "\<not> sv_blocked (nd_srv a)" for i mf using g(10) that by blast
  show "committed a \<and> ms_id (nd_state a) = i" if "(MCommit i sha, RDone) \<in> R" for i sha using g(11) that by blast
  show "\<exists>sha. MCommit (ms_id (nd_state a)) sha \<in> insert m S" if "committed a" using g(12) that by blast
  show "r = RDone \<or> (\<exists>s. r = RError s)" if "(MCommit i sha, r) \<in> R" for i sha r using g(13) that by blast
  show "ms_role (nd_state a) \<noteq> RoleTarget" by (rule g(14))
qed

definition golden_system :: "mig_system \<Rightarrow> bool" where
  "golden_system y \<longleftrightarrow> golden (sy_a y) (sy_b y) (snd ` set (sy_sent y)) (set (sy_replies y))"

text \<open>Whatever happens, except that somebody unlocks the source.\<close>

lemma golden_step:
  assumes G: "golden_system y" and ev: "\<And>i. ev \<noteq> MgUnlock i"
  shows "golden_system (mig_step e y (w, g, ev))"
proof -
  let ?a = "sy_a y" and ?b = "sy_b y" and ?S = "snd ` set (sy_sent y)" and ?R = "set (sy_replies y)"
  have G: "golden ?a ?b ?S ?R" using G by (simp add: golden_system_def)
  note g = goldenD [OF G]
  show ?thesis
  proof (cases ev)
    case (MgServer on_a sev)
    note la = live_on_ok [OF g(1), of e w sev] and lb = live_on_ok [OF g(2), of e w sev]
    have "golden (live_on e w sev ?a) ?b ?S ?R"
      by (rule golden_source [OF G la(1,3,2), of "{}"]) (use la in auto)
    moreover have "golden ?a (live_on e w sev ?b) ?S ?R"
      by (rule golden_same_keys [OF G lb(1)])
        (use lb g(4,6) before_import_cong [OF lb(2,5)] in \<open>auto simp: held_for_def\<close>)
    ultimately show ?thesis using MgServer by (cases on_a) (auto simp: golden_system_def)
  next
    case (MgPaired on_a sid j)
    note pa = paired_ok [OF g(1), of sid j] and pb = paired_ok [OF g(2), of sid j]
    show ?thesis
    proof (cases "j \<in> set (known_keys ?a @ known_keys ?b)")
      case True
      then show ?thesis using MgPaired G by (simp add: golden_system_def)
    next
      case False
      then have j: "j \<notin> set (nd_keys ?a)" "j \<notin> set (known_keys ?b)" by (auto simp: known_keys_def)
      have "golden (paired_with sid j ?a) ?b ?S ?R"
        by (rule golden_source [OF G pa(1,3,2), of "{j}"]) (use pa j in auto)
      moreover have "golden ?a (paired_with sid j ?b) ?S ?R"
      proof (rule golden_target [OF G pb(1)])
        show "\<exists>mf. held_for ?a (paired_with sid j ?b) ?S ?R mf" if "shares ?a (paired_with sid j ?b)"
        proof -
          have "shares ?a ?b" using that pb(4) j(1) by (auto simp: shares_def)
          with g(5) obtain mf where "held_for ?a ?b ?S ?R mf" by blast
          then have "held_for ?a (paired_with sid j ?b) ?S ?R mf" by (simp add: held_for_def pb)
          then show ?thesis by blast
        qed
      qed (use pb g(4,6) before_import_cong [OF pb(2,5)] in auto)
      ultimately show ?thesis using MgPaired False by (cases on_a) (auto simp: golden_system_def)
    qed
  next
    case (MgServe k)
    show ?thesis
    proof (cases "k < length (sy_sent y)")
      case True
      obtain key m where km: "sy_sent y ! k = (key, m)" by (cases "sy_sent y ! k")
      then have m: "m \<in> ?S" using True nth_mem by force
      obtain a' r where sv: "serve e w g ?a (key, m) = (a', r)" by (cases "serve e w g ?a (key, m)")
      from golden_serve [OF G m serve_moves [OF g(1,3) sv]] show ?thesis
        using MgServe True km sv by (simp add: golden_system_def)
    qed (use MgServe G in \<open>simp add: golden_system_def\<close>)
  next
    case (MgRestart on_a)
    obtain n where n: "restart w g ?a = resumeJobs w g n" "node_ok n" "nd_keys n = nd_keys ?a" "nd_state n = nd_saved ?a"
      "nd_saved n = nd_saved ?a" "nd_job n = JIdle" "nd_backup n = nd_backup ?a"
      "sv_blocked (nd_srv n) = blocksSessions (nd_saved ?a)"
      using restart_cases [of w g ?a] by blast
    have a: "restart w g ?a = n" using n(4) g(3,14) by (simp add: n(1) resumeJobs_def Let_def)
    have "golden n ?b ?S ?R"
      by (rule golden_source [OF G n(2), of "{}"]) (use n g(3) in \<open>auto simp: blocksSessions_def\<close>)
    moreover have "golden ?a (restart w g ?b) ?S ?R" by (rule golden_restart_b [OF G])
    ultimately show ?thesis using MgRestart a by (cases on_a) (auto simp: golden_system_def)
  next
    case (MgImport base key i)
    have "golden ?a (fst (startImport g base key i ?b)) ?S ?R" if "i \<notin> set (map (msg_id \<circ> snd) (sy_sent y))"
      by (rule golden_start [OF G]) (use that in auto)
    then show ?thesis using MgImport G by (simp add: golden_system_def)
  next
    case MgSend
    then show ?thesis using G golden_send [OF G] by (auto simp: golden_system_def split: option.split)
  next
    case (MgJob r)
    have "\<exists>k m. request ?b = Some (k, m) \<and> (m, x) \<in> ?R" if "answer y r = Some x" for x
      using that by (fastforce simp: answer_def split: option.splits prod.splits if_splits intro: nth_mem)
    from golden_job [OF G this] show ?thesis using MgJob by (simp add: golden_system_def)
  qed (use ev in auto)
qed

end
