(* ===== verification/GoldenRule.thy ===== *)
theory GoldenRule
  imports MigrationSafety
begin

text \<open>
  The golden rule of a migration (migration.go: the keys of an account are never used on both
  servers) for every run of the two nodes, a run in which everything works, and what a rollback
  leaves behind.
\<close>

section \<open>Runs nobody unlocks by hand\<close>

definition unlocks :: "srv_draws \<times> mig_draws \<times> mig_event \<Rightarrow> bool" where
  "unlocks x = (case snd (snd x) of MgUnlock i \<Rightarrow> True | _ \<Rightarrow> False)"

definition guided_step :: "srv_env \<Rightarrow> mig_system \<Rightarrow> srv_draws \<times> mig_draws \<times> mig_event \<Rightarrow> mig_system" where
  "guided_step e y x = (if unlocks x then y else mig_step e y x)"

interpretation migration: step_machine "guided_step e" golden_system for e
proof
  fix y and x :: "srv_draws \<times> mig_draws \<times> mig_event"
  obtain w g ev where x: "x = (w, g, ev)" by (cases x)
  assume "golden_system y"
  then show "golden_system (guided_step e y x)"
    using golden_step [of y ev e w g] by (cases ev) (auto simp: x guided_step_def unlocks_def)
qed

lemma guided_run: "\<forall>x \<in> set es. \<not> unlocks x \<Longrightarrow> run_steps (mig_step e) y es = run_steps (guided_step e) y es"
  by (induction es arbitrary: y) (simp_all add: guided_step_def)

text \<open>Two servers before their first migration; nothing is under way, and their accounts differ.\<close>

definition mig_start :: "mig_node \<Rightarrow> mig_node \<Rightarrow> bool" where
  "mig_start a b \<longleftrightarrow> node_ok a \<and> node_ok b \<and> ms_role (nd_state a) = NoRole \<and> nd_saved a = nd_state a
     \<and> ms_id (nd_saved b) = ms_id (nd_state b) \<and> nd_job b = JIdle \<and> nd_backup b = []
     \<and> set (nd_keys a) \<inter> set (nd_keys b) = {}"

definition two_nodes :: "mig_node \<Rightarrow> mig_node \<Rightarrow> mig_system" where
  "two_nodes a b = \<lparr>sy_a = a, sy_b = b, sy_sent = [], sy_replies = []\<rparr>"

lemma start_golden:
  assumes "mig_start a b"
  shows "golden_system (two_nodes a b)"
  using assms unfolding golden_system_def two_nodes_def mig_start_def
  by (auto intro!: goldenI simp: before_import_def shares_def locked_for_def committed_def)

lemma golden_offline:
  assumes "golden_system y"
  shows "online_jids (nd_srv (sy_a y)) \<inter> online_jids (nd_srv (sy_b y)) = {}"
proof -
  let ?a = "sy_a y" and ?b = "sy_b y"
  note g = goldenD [OF assms [unfolded golden_system_def]]
  have keys: "online_jids (nd_srv n) \<subseteq> set (nd_keys n)" if "node_ok n" for n
    using that online_sub [of "nd_srv n"] by (auto simp: node_ok_def)
  show ?thesis
  proof (cases "shares ?a ?b")
    case True
    then have "sv_blocked (nd_srv ?a)" using g(5) by (auto simp: held_for_def holds_def)
    then have "online_jids (nd_srv ?a) = {}" using g(1) by (simp add: node_ok_def acct_ok_def)
    then show ?thesis by simp
  next
    case False
    then show ?thesis using keys [OF g(1)] keys [OF g(2)] by (auto simp: shares_def)
  qed
qed

section \<open>Properties\<close>


section \<open>A migration in which everything works\<close>

definition demo_sha :: string where "demo_sha = replicate 64 CHR ''0''"
definition demo_mid :: string where "demo_mid = replicate 32 CHR ''a''"

definition demo_mig_draws :: mig_draws where
  "demo_mig_draws = \<lparr>mg_persist = (\<lambda>_. True), mg_connects = (\<lambda>_. True), mg_rec_db = (\<lambda>_. True),
     mg_built = Some (1, demo_sha, [], []), mg_wipe = True, mg_verified = True, mg_backup = True, mg_placed = True,
     mg_clone = CloneDone, mg_panel = None, mg_list = True, mg_disk = (\<lambda>_. 0)\<rparr>"

definition demo_row :: session_row where
  "demo_row = \<lparr>sw_id = ''s'', sw_name = ''one'', sw_jid = ''1'', sw_webhook = [], sw_panel_inbound = False\<rparr>"

definition demo_node :: "bool \<Rightarrow> mig_node" where
  "demo_node paired = \<lparr>nd_srv = (if paired then upd_session (demo_server\<lparr>sv_rows := [(''s'', demo_row)]\<rparr>) ''s'' (\<lambda>x. x\<lparr>ss_online := True\<rparr>)
       else demo_server\<lparr>sv_sessions := [], sv_order := []\<rparr>),
     nd_keys = (if paired then [''1''] else []), nd_state = no_migration, nd_saved = no_migration,
     nd_peer_key = [], nd_saved_key = [], nd_self = ''b'', nd_api_key = ''k'', nd_job = JIdle, nd_out = [], nd_backup = []\<rparr>"

definition demo_run :: "(srv_draws \<times> mig_draws \<times> mig_event) list" where
  "demo_run = map (\<lambda>ev. (demo_srv_draws, demo_mig_draws, ev))
     [MgImport ''a'' ''k'' demo_mid, MgSend, MgServe 0, MgJob (Some 0), MgSend, MgServe 1, MgJob (Some 1), MgJob None,
      MgServer False (SvWhatsApp ''s'' WaConnected), MgJob None, MgSend, MgServe 2, MgJob (Some 2)]"

lemma demo_run_commits:
  "(let y = run_steps (mig_step demo_srv_env) (two_nodes (demo_node True) (demo_node False)) demo_run in
    ms_phase (nd_state (sy_a y)) = PhCommitted \<and> ms_phase (nd_state (sy_b y)) = PhDone \<and>
    nd_keys (sy_a y) = [] \<and> nd_keys (sy_b y) = [''1''] \<and> accounts (nd_srv (sy_a y)) = [(''s'', None, False, False)]
    \<and> accounts (nd_srv (sy_b y)) = [(''s'', Some ''1'', True, True)])"
  by code_simp

lemma demo_starts: "mig_start (demo_node True) (demo_node False)"
  by (auto simp: mig_start_def demo_node_def node_ok_def acct_ok_def online_jids_def jids_def accounts_def account_def demo_server_def
    upd_session_def gm_get_def gm_put_def new_session_def no_migration_def)


section \<open>What a rollback leaves behind\<close>

text \<open>Nothing in a rollback that restores the backup lets the accounts start again.\<close>

lemma restored_backup_blocked:
  "restoreBackup e w g n = (n', x) \<Longrightarrow> sv_blocked (nd_srv n') = sv_blocked (nd_srv n)"
  by (auto simp: restoreBackup_def Let_def clone_tables_def dropped_blocked split: clone_result.splits)

lemma rolled_back_blocked:
  assumes ok: "node_ok b" and fin: "nd_job (rollback e w g k b) = JAbort 0"
  shows "sv_blocked (nd_srv (rollback e w g k b))"
proof -
  define n1 where "n1 = update (mg_persist g k) (\<lambda>st. st\<lparr>ms_phase := PhRollingBack\<rparr>) b"
  define n2 where "n2 = on_srv (stopForMigration e w) (fst (pause_rec (block True n1)))"
  have shape: "acct_shape (nd_srv (fst (pause_rec (block True n1))))" using node_ok_shape [OF ok] by (simp add: n1_def)
  have blocked: "sv_blocked (nd_srv n2)" using stopped(3) [OF shape, of e w] by (simp add: n2_def)
  obtain n3 x where rb: "restoreBackup e w g n2 = (n3, x)" by (cases "restoreBackup e w g n2")
  have run: "rollback e w g k b = (if 0 < ever_connected n2
      then (let n3 = resume_rec w g (on_srv (reconnectAll (mg_connects g)) (block False n2))
            in case ms_manifest (nd_state n3) of None \<Rightarrow> n3\<lparr>nd_job := JIdle\<rparr> | Some mf \<Rightarrow> commit_start g (k + 1) (mf_db_sha mf) n3)
      else if x then (resume_rec w g (reload e w g n3))\<lparr>nd_job := JAbort 0\<rparr>
      else (update (mg_persist g (k + 1)) (\<lambda>st. st) n3)\<lparr>nd_job := JIdle\<rparr>)"
    unfolding rollback_def Let_def n1_def [symmetric] n2_def [symmetric] by (simp add: rb split: bool.split)
  then have "rollback e w g k b = (resume_rec w g (reload e w g n3))\<lparr>nd_job := JAbort 0\<rparr>"
    using fin by (auto simp: commit_start_def Let_def split: if_splits option.splits)
  then show ?thesis using restored_backup_blocked [OF rb] blocked reload_ok(2) [of e w g n3] by simp
qed

definition live_run :: "srv_env \<Rightarrow> mig_node \<Rightarrow> (srv_draws \<times> srv_event) list \<Rightarrow> mig_node" where
  "live_run e = run_steps (\<lambda>n (w, ev). live_on e w ev n)"

lemma live_run_blocked:
  "node_ok n \<Longrightarrow> sv_blocked (nd_srv n) \<Longrightarrow> node_ok (live_run e n es) \<and> sv_blocked (nd_srv (live_run e n es))"
proof (induction es arbitrary: n)
  case (Cons p es)
  obtain w ev where p: "p = (w, ev)" by (cases p)
  note l = live_on_ok [OF Cons.prems(1), of e w ev]
  have "sv_blocked (nd_srv (live_on e w ev n))" using l Cons.prems(2) by simp
  with Cons.IH [OF l(1)] show ?case by (simp add: live_run_def p)
qed (simp add: live_run_def)

lemma abort_done: "nd_job n = JAbort k \<Longrightarrow> job_step e w g (Some RDone) n = finish_aborted g True n"
  by (simp add: job_step_def on_abort_def)

lemma finished_fields [simp]:
  "nd_srv (finish_aborted g x n) = nd_srv n" "nd_keys (finish_aborted g x n) = nd_keys n" "nd_job (finish_aborted g x n) = JIdle"
  "nd_state (finish_aborted g x n) = (if mg_persist g 0 then (nd_state n)\<lparr>ms_phase := (if x then PhAborted else PhFailed)\<rparr> else nd_state n)"
  by (simp_all add: finish_aborted_def remove_target_dir_def)


definition demo_clone :: mig_node where
  "demo_clone = (demo_node True)\<lparr>nd_state := no_migration\<lparr>ms_role := RoleTarget, ms_phase := PhConnecting\<rparr>,
     nd_job := JRollback\<rparr>"




end
