(* ===== verification/MlowRange.thy ===== *)
theory MlowRange
  imports Prelude "HOL-Library.While_Combinator"
begin

text \<open>
  The range coder of the MLow codec: src/internal/voip/media/mlow/rangecoder.go.

  The uint32 fields are integers with the wrap-around written out (\<open>u32\<close>); offsets into the buffer
  and the count of pending 255s of the encoder are naturals.  The loop of normalize never ends
  when the range is 0: it is a \<open>while_option\<close> and every operation that renormalises returns an
  option; \<open>None\<close> also stands for an index out of range.
\<close>

section \<open>Arithmetic of the coder\<close>

definition u32_of :: "int \<Rightarrow> int" where
  "u32_of x = x mod 2 ^ 32"

definition ec_code_bot :: int where "ec_code_bot = 2 ^ 23"
definition ec_code_top :: int where "ec_code_top = 2 ^ 31"

fun bit_len :: "nat \<Rightarrow> nat" where
  "bit_len n = (if n = 0 then 0 else Suc (bit_len (n div 2)))"

declare bit_len.simps [simp del]

definition ilog :: "int \<Rightarrow> int" where
  "ilog x = int (bit_len (nat x))"

definition ecMini :: "int \<Rightarrow> int \<Rightarrow> int" where
  "ecMini a b = (if a < b then a else b)"

section \<open>The decoder\<close>

record range_decoder =
  rd_buf :: bytes
  rd_end_offs :: nat
  rd_end_window :: int
  rd_nend_bits :: int
  rd_nbits_total :: int
  rd_offs :: nat
  rd_rng :: int
  rd_val :: int
  rd_ext :: int
  rd_rem :: int
  rd_err :: int

text \<open>A byte of the buffer, 0 past its end.\<close>

definition byte_val :: "bytes \<Rightarrow> nat \<Rightarrow> int" where
  "byte_val bs i = (if i < length bs then uint (bs ! i) else 0)"

definition rd_read_byte :: "range_decoder \<Rightarrow> range_decoder \<times> int" where
  "rd_read_byte d =
     (if rd_offs d < length (rd_buf d)
      then (d\<lparr>rd_offs := rd_offs d + 1\<rparr>, uint (rd_buf d ! rd_offs d)) else (d, 0))"

definition rd_read_byte_from_end :: "range_decoder \<Rightarrow> range_decoder \<times> int" where
  "rd_read_byte_from_end d =
     (if rd_end_offs d < length (rd_buf d)
      then (d\<lparr>rd_end_offs := rd_end_offs d + 1\<rparr>, uint (rd_buf d ! (length (rd_buf d) - (rd_end_offs d + 1))))
      else (d, 0))"

definition rd_shift :: "range_decoder \<Rightarrow> range_decoder" where
  "rd_shift d =
     (let sym0 = rd_rem d;
          (d1, b) = rd_read_byte d;
          sym = drop_bit 1 (push_bit 8 sym0 OR b)
      in d1\<lparr>rd_nbits_total := rd_nbits_total d + 8, rd_rng := u32_of (push_bit 8 (rd_rng d)), rd_rem := b,
            rd_val := u32_of (u32_of (push_bit 8 (rd_val d)) + (255 AND NOT sym)) AND (ec_code_top - 1)\<rparr>)"

definition rd_normalize :: "range_decoder \<Rightarrow> range_decoder option" where
  "rd_normalize = while_option (\<lambda>d. rd_rng d \<le> ec_code_bot) rd_shift"

definition NewRangeDecoder :: "bytes \<Rightarrow> range_decoder option" where
  "NewRangeDecoder buf =
     (let d = \<lparr>rd_buf = buf, rd_end_offs = 0, rd_end_window = 0, rd_nend_bits = 0, rd_nbits_total = 33 - 24,
               rd_offs = 0, rd_rng = 2 ^ 7, rd_val = 0, rd_ext = 0, rd_rem = 0, rd_err = 0\<rparr>;
          (d1, b) = rd_read_byte d
      in rd_normalize (d1\<lparr>rd_rem := b, rd_val := u32_of (rd_rng d1 - 1 - drop_bit 1 b)\<rparr>))"

definition rd_ext_fails :: "range_decoder \<Rightarrow> range_decoder" where
  "rd_ext_fails d = d\<lparr>rd_err := 1, rd_ext := 1\<rparr>"

definition rd_decode :: "int \<Rightarrow> range_decoder \<Rightarrow> range_decoder \<times> int" where
  "rd_decode ft d =
     (if ft = 0 then (rd_ext_fails d, 0)
      else if rd_rng d div ft = 0 then (rd_ext_fails d, 0)
      else let x = rd_rng d div ft; s = rd_val d div x
           in (d\<lparr>rd_ext := x\<rparr>, u32_of (ft - ecMini (u32_of (s + 1)) ft)))"

definition rd_decode_bin :: "nat \<Rightarrow> range_decoder \<Rightarrow> range_decoder \<times> int" where
  "rd_decode_bin n d =
     (if drop_bit n (rd_rng d) = 0 then (rd_ext_fails d, 0)
      else let x = drop_bit n (rd_rng d); s = rd_val d div x; ft = u32_of (push_bit n 1)
           in (d\<lparr>rd_ext := x\<rparr>, u32_of (ft - ecMini (u32_of (s + 1)) ft)))"

definition rd_update :: "int \<Rightarrow> int \<Rightarrow> int \<Rightarrow> range_decoder \<Rightarrow> range_decoder option" where
  "rd_update fl fh ft d =
     (let s = u32_of (rd_ext d * u32_of (ft - fh));
          r = (if 0 < fl then u32_of (rd_ext d * u32_of (fh - fl)) else u32_of (rd_rng d - s))
      in rd_normalize (d\<lparr>rd_val := u32_of (rd_val d - s), rd_rng := r\<rparr>))"

definition rd_raw_symbol :: "nat \<Rightarrow> range_decoder \<Rightarrow> (range_decoder \<times> int) option" where
  "rd_raw_symbol n d =
     (let (d1, sym) = rd_decode_bin n d
      in map_option (\<lambda>d2. (d2, sym)) (rd_update sym (u32_of (sym + 1)) (u32_of (push_bit n 1)) d1))"

definition rd_bit_logp :: "nat \<Rightarrow> range_decoder \<Rightarrow> (range_decoder \<times> int) option" where
  "rd_bit_logp logp d =
     (let s = drop_bit logp (rd_rng d)
      in if rd_val d < s then map_option (\<lambda>d2. (d2, 1)) (rd_normalize (d\<lparr>rd_rng := s\<rparr>))
         else map_option (\<lambda>d2. (d2, 0))
           (rd_normalize (d\<lparr>rd_val := u32_of (rd_val d - s), rd_rng := u32_of (rd_rng d - s)\<rparr>)))"

text \<open>The loop of DecodeICDF, from the symbol \<open>k\<close> with the bound \<open>t\<close> before it.\<close>

fun icdf_find :: "int \<Rightarrow> int \<Rightarrow> int list \<Rightarrow> nat \<Rightarrow> int \<Rightarrow> nat \<times> int \<times> int" where
  "icdf_find r dv [] k t = (k, t, t)"
| "icdf_find r dv (c # cs) k t =
     (let s = u32_of (r * c) in if s \<le> dv \<or> cs = [] then (k, t, s) else icdf_find r dv cs (Suc k) s)"

definition rd_decode_icdf :: "int list \<Rightarrow> nat \<Rightarrow> range_decoder \<Rightarrow> (range_decoder \<times> int) option" where
  "rd_decode_icdf icdf ftb d =
     (if icdf = [] then Some (d\<lparr>rd_err := 1\<rparr>, 0)
      else let (k, t, s) = icdf_find (drop_bit ftb (rd_rng d)) (rd_val d) icdf 0 (rd_rng d)
           in map_option (\<lambda>d2. (d2, int k))
                (rd_normalize (d\<lparr>rd_val := u32_of (rd_val d - s), rd_rng := u32_of (t - s)\<rparr>)))"

function cdf_find :: "int list \<Rightarrow> int \<Rightarrow> nat \<Rightarrow> nat" where
  "cdf_find cdf target k =
     (if k < length cdf - 1 \<and> cdf ! (k + 1) \<le> target then cdf_find cdf target (k + 1) else k)"
  by auto
termination by (relation "measure (\<lambda>(cdf, target, k). length cdf - k)") auto

declare cdf_find.simps [simp del]

definition rd_decode_cdf :: "int list \<Rightarrow> range_decoder \<Rightarrow> (range_decoder \<times> int) option" where
  "rd_decode_cdf cdf d =
     (let n = length cdf in
      if n < 2 \<or> cdf ! (n - 1) \<le> cdf ! 0 then Some (d\<lparr>rd_err := 1\<rparr>, 0)
      else let base = cdf ! 0; ft = cdf ! (n - 1) - base;
               (d1, fs) = rd_decode ft d;
               k = cdf_find cdf (u32_of (base + fs)) 0
           in if n \<le> k + 1 then None
              else map_option (\<lambda>d2. (d2, int k)) (rd_update (u32_of (cdf ! k - base)) (u32_of (cdf ! (k + 1) - base)) ft d1))"

text \<open>BitsN fills the window with bytes from the end until more than 24 bits are there.\<close>

function rd_fill :: "range_decoder \<Rightarrow> int \<Rightarrow> int \<Rightarrow> range_decoder \<times> int \<times> int" where
  "rd_fill d window available =
     (let (d1, b) = rd_read_byte_from_end d;
          window' = window OR u32_of (push_bit (nat available) b);
          available' = available + 8
      in if 24 < available' then (d1, window', available') else rd_fill d1 window' available')"
  by auto
termination
  by (relation "measure (\<lambda>(d, window, available). nat (32 - available))") auto

declare rd_fill.simps [simp del]

definition rd_bits :: "nat \<Rightarrow> range_decoder \<Rightarrow> range_decoder \<times> int" where
  "rd_bits n d =
     (let (d1, window, available) = (if rd_nend_bits d < int n then rd_fill d (rd_end_window d) (rd_nend_bits d)
                                     else (d, rd_end_window d, rd_nend_bits d))
      in (d1\<lparr>rd_end_window := drop_bit n window, rd_nend_bits := available - int n,
             rd_nbits_total := rd_nbits_total d1 + int n\<rparr>,
          window AND u32_of (push_bit n 1 - 1)))"

definition rd_decode_uint :: "int \<Rightarrow> range_decoder \<Rightarrow> (range_decoder \<times> int) option" where
  "rd_decode_uint ft0 d =
     (let ft = u32_of (ft0 - 1); ftb = ilog ft in
      if 8 < ftb
      then let sh = nat (ftb - 8); t = drop_bit sh ft + 1;
               (d1, s) = rd_decode t d
           in (case rd_update s (u32_of (s + 1)) t d1 of
                 None \<Rightarrow> None
               | Some d2 \<Rightarrow> (let (d3, low) = rd_bits sh d2; v = u32_of (push_bit sh s) OR low
                   in Some (if v \<le> ft then (d3, v) else (d3\<lparr>rd_err := 1\<rparr>, ft))))
      else let t = u32_of (ft + 1); (d1, s) = rd_decode t d
           in map_option (\<lambda>d2. (d2, s)) (rd_update s (u32_of (s + 1)) t d1))"

definition rd_fine_sym :: "range_decoder \<Rightarrow> (range_decoder \<times> int) option" where
  "rd_fine_sym d =
     (if drop_bit 6 (rd_rng d) = 0 then Some (rd_ext_fails d, 0)
      else let x = drop_bit 6 (rd_rng d); s = rd_val d div x; sym = max 0 (63 - s)
           in map_option (\<lambda>d2. (d2, sym)) (rd_update sym (sym + 1) 64 (d\<lparr>rd_ext := x\<rparr>)))"

definition rd_tell :: "range_decoder \<Rightarrow> int" where
  "rd_tell d = rd_nbits_total d - ilog (rd_rng d)"

section \<open>The encoder\<close>

record range_encoder =
  re_buf :: bytes
  re_end_offs :: nat
  re_end_window :: int
  re_nend_bits :: int
  re_nbits_total :: int
  re_offs :: nat
  re_rng :: int
  re_val :: int
  re_ext :: nat
  re_rem :: int
  re_err :: int

definition NewRangeEncoder :: "nat \<Rightarrow> range_encoder" where
  "NewRangeEncoder n = \<lparr>re_buf = replicate n 0, re_end_offs = 0, re_end_window = 0, re_nend_bits = 0,
     re_nbits_total = 33, re_offs = 0, re_rng = ec_code_top, re_val = 0, re_ext = 0, re_rem = -1, re_err = 0\<rparr>"

definition re_write_byte :: "int \<Rightarrow> range_encoder \<Rightarrow> range_encoder" where
  "re_write_byte b e =
     (if re_offs e + re_end_offs e < length (re_buf e)
      then e\<lparr>re_buf := (re_buf e)[re_offs e := word_of_int b], re_offs := re_offs e + 1\<rparr>
      else e\<lparr>re_err := -1\<rparr>)"

definition re_write_byte_at_end :: "int \<Rightarrow> range_encoder \<Rightarrow> range_encoder" where
  "re_write_byte_at_end b e =
     (if re_offs e + re_end_offs e < length (re_buf e)
      then e\<lparr>re_end_offs := re_end_offs e + 1,
             re_buf := (re_buf e)[length (re_buf e) - (re_end_offs e + 1) := word_of_int b]\<rparr>
      else e\<lparr>re_err := -1\<rparr>)"

definition re_carry_out :: "int \<Rightarrow> range_encoder \<Rightarrow> range_encoder" where
  "re_carry_out c e =
     (if c \<noteq> 255
      then let carry = drop_bit 8 c;
               e1 = (if 0 \<le> re_rem e then re_write_byte (re_rem e + carry) e else e);
               e2 = (re_write_byte ((255 + carry) AND 255) ^^ re_ext e1) e1
           in e2\<lparr>re_ext := 0, re_rem := c AND 255\<rparr>
      else e\<lparr>re_ext := re_ext e + 1\<rparr>)"

definition re_shift :: "range_encoder \<Rightarrow> range_encoder" where
  "re_shift e =
     (let e1 = re_carry_out (drop_bit 23 (re_val e)) e
      in e1\<lparr>re_val := u32_of (push_bit 8 (re_val e)) AND (ec_code_top - 1),
            re_rng := u32_of (push_bit 8 (re_rng e)), re_nbits_total := re_nbits_total e + 8\<rparr>)"

definition re_normalize :: "range_encoder \<Rightarrow> range_encoder option" where
  "re_normalize = while_option (\<lambda>e. re_rng e \<le> ec_code_bot) re_shift"

definition re_encode :: "int \<Rightarrow> int \<Rightarrow> int \<Rightarrow> range_encoder \<Rightarrow> range_encoder option" where
  "re_encode fl fh ft e =
     (if ft = 0 then Some (e\<lparr>re_err := -1\<rparr>)
      else let r = re_rng e div ft
           in re_normalize (if 0 < fl
                then e\<lparr>re_val := u32_of (re_val e + u32_of (re_rng e - u32_of (r * u32_of (ft - fl)))),
                       re_rng := u32_of (r * u32_of (fh - fl))\<rparr>
                else e\<lparr>re_rng := u32_of (re_rng e - u32_of (r * u32_of (ft - fh)))\<rparr>))"

definition re_bit_logp :: "int \<Rightarrow> nat \<Rightarrow> range_encoder \<Rightarrow> range_encoder option" where
  "re_bit_logp v logp e =
     (let s = drop_bit logp (re_rng e); r2 = u32_of (re_rng e - s)
      in re_normalize (if v \<noteq> 0 then e\<lparr>re_val := u32_of (re_val e + r2), re_rng := s\<rparr> else e\<lparr>re_rng := r2\<rparr>))"

text \<open>The difference of two table entries is taken on bytes.\<close>

definition re_encode_icdf :: "nat \<Rightarrow> int list \<Rightarrow> nat \<Rightarrow> range_encoder \<Rightarrow> range_encoder option" where
  "re_encode_icdf s icdf ftb e =
     (let r = drop_bit ftb (re_rng e) in
      if length icdf \<le> s then None
      else re_normalize (if 0 < s
        then e\<lparr>re_val := u32_of (re_val e + u32_of (re_rng e - u32_of (r * icdf ! (s - 1)))),
               re_rng := u32_of (r * ((icdf ! (s - 1) - icdf ! s) mod 256))\<rparr>
        else e\<lparr>re_rng := u32_of (re_rng e - u32_of (r * icdf ! s))\<rparr>))"

definition re_encode_cdf :: "int \<Rightarrow> int list \<Rightarrow> range_encoder \<Rightarrow> range_encoder option" where
  "re_encode_cdf s cdf e =
     (let n = length cdf in
      if n < 2 \<or> s < 0 \<or> int n \<le> s + 1 \<or> cdf ! (n - 1) \<le> cdf ! 0 then Some (e\<lparr>re_err := -1\<rparr>)
      else let base = cdf ! 0
           in re_encode (u32_of (cdf ! nat s - base)) (u32_of (cdf ! (nat s + 1) - base)) (cdf ! (n - 1) - base) e)"

text \<open>The loop of BitsN flushes at least one byte, that of Done as many as are full.\<close>

function re_flush :: "range_encoder \<Rightarrow> int \<Rightarrow> int \<Rightarrow> range_encoder \<times> int \<times> int" where
  "re_flush e window used =
     (if used < 8 then (e, window, used)
      else re_flush (re_write_byte_at_end (window AND 255) e) (drop_bit 8 window) (used - 8))"
  by auto
termination by (relation "measure (\<lambda>(e, window, used). nat used)") auto

declare re_flush.simps [simp del]

definition re_bits :: "int \<Rightarrow> nat \<Rightarrow> range_encoder \<Rightarrow> range_encoder" where
  "re_bits fl n e =
     (let window = re_end_window e; used = re_nend_bits e;
          (e1, window1, used1) =
            (if 32 < used + int n
             then re_flush (re_write_byte_at_end (window AND 255) e) (drop_bit 8 window) (used - 8)
             else (e, window, used))
      in e1\<lparr>re_end_window := window1 OR u32_of (push_bit (nat used1) fl), re_nend_bits := used1 + int n,
            re_nbits_total := re_nbits_total e1 + int n\<rparr>)"

definition re_encode_uint :: "int \<Rightarrow> int \<Rightarrow> range_encoder \<Rightarrow> range_encoder option" where
  "re_encode_uint fl ft0 e =
     (let ft = u32_of (ft0 - 1); ftb = ilog ft in
      if 8 < ftb
      then let sh = nat (ftb - 8); hi = drop_bit sh fl
           in map_option (re_bits (fl AND (push_bit sh 1 - 1)) sh) (re_encode hi (hi + 1) (drop_bit sh ft + 1) e)
      else re_encode fl (u32_of (fl + 1)) (u32_of (ft + 1)) e)"

definition re_raw_symbol :: "int \<Rightarrow> nat \<Rightarrow> range_encoder \<Rightarrow> range_encoder option" where
  "re_raw_symbol v n e = re_encode v (u32_of (v + 1)) (u32_of (push_bit n 1)) e"

definition re_fine_sym :: "int \<Rightarrow> range_encoder \<Rightarrow> range_encoder option" where
  "re_fine_sym v e = re_encode (u32_of v) (u32_of (u32_of v + 1)) 64 e"

text \<open>Done: the shortest number of the final range, its bytes, then the raw bits.\<close>

fun done_bytes :: "nat \<Rightarrow> int \<Rightarrow> range_encoder \<Rightarrow> range_encoder" where
  "done_bytes 0 v e = e"
| "done_bytes (Suc l) v e =
     done_bytes (Suc l - 8) (u32_of (push_bit 8 v) AND (ec_code_top - 1)) (re_carry_out (drop_bit 23 v) e)"

definition done_end :: "int \<Rightarrow> int \<Rightarrow> nat \<times> int" where
  "done_end v r =
     (let l = 32 - nat (ilog r);
          msk = drop_bit l (ec_code_top - 1);
          x = u32_of (v + msk) AND NOT msk
      in if u32_of (v + r) \<le> x OR msk
         then let msk1 = drop_bit 1 msk in (l + 1, u32_of (v + msk1) AND NOT msk1) else (l, x))"

definition zero_gap :: "range_encoder \<Rightarrow> bytes" where
  "zero_gap e = take (re_offs e) (re_buf e)
     @ replicate (length (re_buf e) - re_end_offs e - re_offs e) 0 @ drop (length (re_buf e) - re_end_offs e) (re_buf e)"

definition re_done :: "range_encoder \<Rightarrow> range_encoder" where
  "re_done e =
     (let (l, x) = done_end (re_val e) (re_rng e);
          e1 = done_bytes l x e;
          e2 = (if 0 \<le> re_rem e1 \<or> 0 < re_ext e1 then re_carry_out 0 e1 else e1);
          (e3, window, used) = re_flush e2 (re_end_window e2) (re_nend_bits e2)
      in if re_err e3 \<noteq> 0 then e3
         else let e4 = e3\<lparr>re_buf := zero_gap e3\<rparr>; p = length (re_buf e4) - re_end_offs e4 - 1
              in if used \<le> 0 then e4
                 else if length (re_buf e4) - re_offs e4 \<le> re_end_offs e4 then e4\<lparr>re_err := -1\<rparr>
                 else e4\<lparr>re_buf := (re_buf e4)[p := re_buf e4 ! p OR word_of_int window]\<rparr>)"

definition re_bytes :: "range_encoder \<Rightarrow> bytes" where
  "re_bytes e = re_buf e"

definition re_consumed_len :: "range_encoder \<Rightarrow> int" where
  "re_consumed_len e = int (re_offs e + re_end_offs e)"
end
