(* ===== verification/MlowCodes.thy ===== *)
theory MlowCodes
  imports MlowRange
begin

text \<open>
  What the range coder of the MLow codec does, in exact arithmetic: the numbers both sides of the
  coder work on, and why a decoder finds the symbols an encoder wrote.
\<close>

section \<open>Arithmetic\<close>

lemma u32_id: "0 \<le> x \<Longrightarrow> x < 2 ^ 32 \<Longrightarrow> u32_of x = x"
  by (simp add: u32_of_def)

lemma u32_range: "0 \<le> u32_of x" "u32_of x < 2 ^ 32"
  by (simp_all add: u32_of_def)

lemma low_bits: "x AND (ec_code_top - 1) = x mod 2 ^ 31"
proof -
  have "ec_code_top - 1 = mask 31" by (simp add: ec_code_top_def mask_eq_exp_minus_1)
  then show ?thesis by (simp add: take_bit_eq_mask [symmetric] take_bit_eq_mod)
qed

lemma low_byte: "x AND 255 = x mod 256" for x :: int
  using take_bit_eq_mask [of 8 x] by (simp add: mask_eq_exp_minus_1 take_bit_eq_mod)

lemma byte_complement: "255 AND NOT x = 255 - x mod 256" for x :: int
proof -
  have "255 AND NOT x = take_bit 8 (NOT x)"
    using take_bit_eq_mask [of 8 "NOT x"] by (simp add: mask_eq_exp_minus_1 and.commute)
  also have "\<dots> = mask 8 - take_bit 8 x" by (rule take_bit_not_eq_mask_diff)
  finally show ?thesis by (simp only: mask_eq_exp_minus_1 take_bit_eq_mod) simp
qed

lemma shifted_or: "0 \<le> b \<Longrightarrow> b < 256 \<Longrightarrow> push_bit 8 a OR b = 256 * a + b" for a b :: int
proof -
  assume b: "0 \<le> b" "b < 256"
  then have "take_bit 8 b = b" by (simp add: take_bit_eq_mod)
  then have "push_bit 8 a OR b = concat_bit 8 b a" by (simp add: concat_bit_def or.commute)
  also have "\<dots> = take_bit 8 b + push_bit 8 a" by (simp add: concat_bit_eq)
  finally show ?thesis using b by (simp add: take_bit_eq_mod push_bit_eq_mult)
qed

section \<open>Renormalisation\<close>

text \<open>How often the range is shifted; both coders go by the range alone.\<close>

definition shifts :: "int \<Rightarrow> nat" where
  "shifts r = (if 2 ^ 23 < r then 0 else if 2 ^ 15 < r then 1 else if 2 ^ 7 < r then 2 else 3)"

lemma shifts_range:
  assumes "0 < r" "r \<le> 2 ^ 31"
  shows "2 ^ 23 < r * 256 ^ shifts r" "r * 256 ^ shifts r \<le> 2 ^ 31"
  using assms by (auto simp: shifts_def)

locale renormaliser =
  fixes rng :: "'s \<Rightarrow> int" and shift :: "'s \<Rightarrow> 's"
  assumes shift_rng: "0 < rng s \<Longrightarrow> rng s \<le> 2 ^ 23 \<Longrightarrow> rng (shift s) = 256 * rng s"
begin

lemma normalises:
  assumes "0 < rng s"
  shows "while_option (\<lambda>s. rng s \<le> ec_code_bot) shift s = Some ((shift ^^ shifts (rng s)) s)"
proof -
  let ?w = "while_option (\<lambda>s. rng s \<le> ec_code_bot) shift"
  have step: "?w s = (if rng s \<le> 2 ^ 23 then ?w (shift s) else Some s)" for s
    by (subst while_option_unfold) (simp add: ec_code_bot_def)
  note unfold1 = step [of s] and unfold2 = step [of "shift s"] and unfold3 = step [of "shift (shift s)"]
    and unfold4 = step [of "shift (shift (shift s))"]
  consider "2 ^ 23 < rng s" | "2 ^ 15 < rng s" "rng s \<le> 2 ^ 23" | "2 ^ 7 < rng s" "rng s \<le> 2 ^ 15" | "rng s \<le> 2 ^ 7"
    by linarith
  then show ?thesis
  proof cases
    case 1
    then show ?thesis using unfold1 by (simp add: shifts_def)
  next
    case 2
    then show ?thesis using unfold1 unfold2 shift_rng [OF assms] assms by (simp add: shifts_def)
  next
    case 3
    then have "rng (shift s) = 256 * rng s" "rng (shift (shift s)) = 256 * (256 * rng s)"
      using shift_rng [of s] shift_rng [of "shift s"] assms by simp_all
    then show ?thesis using unfold1 unfold2 unfold3 3 by (simp add: shifts_def numeral_2_eq_2)
  next
    case 4
    then have "rng (shift s) = 256 * rng s" "rng (shift (shift s)) = 256 * (256 * rng s)"
      "rng (shift (shift (shift s))) = 256 * (256 * (256 * rng s))"
      using shift_rng [of s] shift_rng [of "shift s"] shift_rng [of "shift (shift s)"] assms by simp_all
    then show ?thesis using unfold1 unfold2 unfold3 unfold4 4 assms by (simp add: shifts_def numeral_3_eq_3)
  qed
qed

text \<open>A property of all shifted states.\<close>

lemma shifted_states:
  assumes "0 < rng s" and "P 0 s"
    and "\<And>i t. P i t \<Longrightarrow> rng t = 256 ^ i * rng s \<Longrightarrow> rng t \<le> 2 ^ 23 \<Longrightarrow> P (Suc i) (shift t)"
  shows "P (shifts (rng s)) ((shift ^^ shifts (rng s)) s)" "rng ((shift ^^ shifts (rng s)) s) = 256 ^ shifts (rng s) * rng s"
proof -
  have "P i ((shift ^^ i) s) \<and> rng ((shift ^^ i) s) = 256 ^ i * rng s" if "i \<le> shifts (rng s)" for i
    using that
  proof (induction i)
    case (Suc i)
    let ?t = "(shift ^^ i) s"
    have t: "P i ?t" "rng ?t = 256 ^ i * rng s" using Suc by simp_all
    have "256 ^ i * rng s \<le> 2 ^ 23"
    proof -
      have i: "i < shifts (rng s)" using Suc.prems by simp
      then have "i = 0 \<or> i = 1 \<or> i = 2" by (auto simp: shifts_def split: if_splits)
      then show ?thesis using i by (auto simp: shifts_def split: if_splits)
    qed
    then have small: "rng ?t \<le> 2 ^ 23" by (simp add: t)
    have "0 < rng ?t" using assms(1) by (simp add: t)
    from shift_rng [OF this small] assms(3) [OF t small] show ?case by (simp add: t)
  qed (use assms(2) in simp)
  from this [of "shifts (rng s)"] show "P (shifts (rng s)) ((shift ^^ shifts (rng s)) s)"
    "rng ((shift ^^ shifts (rng s)) s) = 256 ^ shifts (rng s) * rng s" by simp_all
qed

end

interpretation decoder: renormaliser rd_rng rd_shift
  by unfold_locales (simp add: rd_shift_def rd_read_byte_def Let_def u32_id push_bit_eq_mult)

interpretation encoder: renormaliser re_rng re_shift
  by unfold_locales (simp add: re_shift_def Let_def u32_id push_bit_eq_mult)

section \<open>The number a buffer stands for\<close>

fun num :: "bytes \<Rightarrow> nat \<Rightarrow> int" where
  "num bs 0 = 0"
| "num bs (Suc n) = 256 * num bs n + byte_val bs n"

lemma byte_val_range: "0 \<le> byte_val bs i" "byte_val bs i < 256"
  using uint_lt2p [of "bs ! i"] by (simp_all add: byte_val_def)

lemma num_nonneg: "0 \<le> num bs n"
  using byte_val_range by (induction n) (simp_all add: add_nonneg_nonneg)

text \<open>The decoder has read \<open>n\<close> bytes and keeps the last bit of them for later.\<close>

definition code :: "bytes \<Rightarrow> nat \<Rightarrow> int" where
  "code bs n = num bs n div 2"

lemma two_bytes:
  fixes x a b :: int
  assumes "0 \<le> a" "a < 256" "0 \<le> b" "b < 256"
  shows "(256 * (256 * x + a) + b) div 2 = 256 * ((256 * x + a) div 2) + ((256 * a + b) div 2) mod 256"
proof -
  obtain h m where hm: "a div 2 = h" "a mod 2 = m" "a = 2 * h + m" "0 \<le> m" "m < 2"
    using that [of "a div 2" "a mod 2"] by simp
  have even: "(256 * z + b) div 2 = 128 * z + b div 2" for z by presburger
  have q: "(256 * x + a) div 2 = 128 * x + h" unfolding hm(1) [symmetric] by presburger
  have "128 * a + b div 2 = 256 * h + (128 * m + b div 2)" by (simp add: hm(3))
  moreover have "0 \<le> 128 * m + b div 2" "128 * m + b div 2 < 256" using assms hm(4,5) by simp_all
  ultimately have r: "(128 * a + b div 2) mod 256 = 128 * m + b div 2"
    by (simp only: mod_mult_self4) (rule mod_pos_pos_trivial)
  show ?thesis by (simp only: q r even) (simp add: hm(3))
qed

lemma code_Suc:
  "code bs (Suc (Suc n)) = 256 * code bs (Suc n) + ((256 * byte_val bs n + byte_val bs (Suc n)) div 2) mod 256"
proof -
  let ?x = "num bs n" and ?a = "byte_val bs n" and ?b = "byte_val bs (Suc n)"
  have "(256 * (256 * ?x + ?a) + ?b) div 2 = 256 * ((256 * ?x + ?a) div 2) + ((256 * ?a + ?b) div 2) mod 256"
    using byte_val_range [of bs n] byte_val_range [of bs "Suc n"] by (rule two_bytes)
  then show ?thesis by (simp add: code_def)
qed

section \<open>The decoder in exact arithmetic\<close>

definition dec_at :: "bytes \<Rightarrow> range_decoder \<Rightarrow> nat \<Rightarrow> int \<Rightarrow> int \<Rightarrow> bool" where
  "dec_at bs d n v r \<longleftrightarrow> rd_buf d = bs \<and> rd_rng d = r \<and> rd_val d = v + r - 1 - code bs n
     \<and> rd_offs d = min n (length bs) \<and> rd_rem d = byte_val bs (n - 1) \<and> 0 < n
     \<and> v \<le> code bs n \<and> code bs n < v + r \<and> r \<le> 2 ^ 31"

lemma dec_at_shift:
  assumes d: "dec_at bs d n v r" and r: "r \<le> 2 ^ 23"
  shows "dec_at bs (rd_shift d) (Suc n) (256 * v) (256 * r)"
proof -
  obtain m where n: "n = Suc m" using d by (cases n) (simp_all add: dec_at_def)
  let ?a = "byte_val bs m" and ?b = "byte_val bs (Suc m)"
  let ?y = "((256 * ?a + ?b) div 2) mod 256"
  have v: "v \<le> code bs n" "code bs n < v + r" "rd_val d = v + r - 1 - code bs n" using d by (simp_all add: dec_at_def)
  have code: "code bs (Suc n) = 256 * code bs n + ?y" using code_Suc [of bs m] by (simp add: n)
  have y: "0 \<le> ?y" "?y < 256" by simp_all
  have rd: "rd_read_byte d = (d\<lparr>rd_offs := min (Suc n) (length bs)\<rparr>, ?b)"
    using d n by (auto simp: rd_read_byte_def dec_at_def byte_val_def min_def)
  have "drop_bit 1 (push_bit 8 (rd_rem d) OR ?b) = (256 * ?a + ?b) div 2"
    using d byte_val_range [of bs "Suc m"] by (simp only: shifted_or) (simp add: dec_at_def n drop_bit_eq_div)
  then have sym_eq: "255 AND NOT (drop_bit 1 (push_bit 8 (rd_rem d) OR ?b)) = 255 - ?y"
    by (simp only: byte_complement)
  have small: "0 \<le> 256 * rd_val d" "256 * rd_val d + 255 < 2 ^ 31" using v r by simp_all
  have "u32_of (push_bit 8 (rd_val d)) = 256 * rd_val d"
    using small by (simp add: push_bit_eq_mult u32_id)
  moreover have "u32_of (256 * rd_val d + (255 - ?y)) AND (ec_code_top - 1) = 256 * rd_val d + (255 - ?y)"
    using small y by (simp add: low_bits u32_id)
  moreover have "rd_val (rd_shift d) = u32_of (u32_of (push_bit 8 (rd_val d))
      + (255 AND NOT (drop_bit 1 (push_bit 8 (rd_rem d) OR ?b)))) AND (ec_code_top - 1)"
    by (simp add: rd_shift_def rd Let_def)
  ultimately have "rd_val (rd_shift d) = 256 * rd_val d + 255 - ?y" by (simp only: sym_eq)
  then have val: "rd_val (rd_shift d) = 256 * v + 256 * r - 1 - code bs (Suc n)" using v(3) code by simp
  have "rd_rng (rd_shift d) = 256 * r" using decoder.shift_rng [of d] d r v by (simp add: dec_at_def)
  moreover have "256 * v \<le> code bs (Suc n)" "code bs (Suc n) < 256 * v + 256 * r" using v y code by linarith+
  moreover have "rd_buf (rd_shift d) = bs" "rd_offs (rd_shift d) = min (Suc n) (length bs)" "rd_rem (rd_shift d) = ?b"
    using d by (simp_all add: dec_at_def rd_shift_def rd Let_def)
  ultimately show ?thesis using val r by (simp add: dec_at_def n)
qed

lemma dec_at_normalize:
  assumes d: "dec_at bs d n v r"
  shows "\<exists>d'. rd_normalize d = Some d' \<and> dec_at bs d' (n + shifts r) (v * 256 ^ shifts r) (r * 256 ^ shifts r)
    \<and> rd_err d' = rd_err d"
proof -
  have r: "rd_rng d = r" "0 < r" using d by (auto simp: dec_at_def)
  let ?P = "\<lambda>i t. dec_at bs t (n + i) (v * 256 ^ i) (r * 256 ^ i) \<and> rd_err t = rd_err d"
  have "?P (shifts (rd_rng d)) ((rd_shift ^^ shifts (rd_rng d)) d)"
  proof (rule decoder.shifted_states(1))
    fix i t assume t: "?P i t" "rd_rng t \<le> 2 ^ 23"
    then have "dec_at bs (rd_shift t) (Suc (n + i)) (256 * (v * 256 ^ i)) (256 * (r * 256 ^ i))"
      by (intro dec_at_shift) (auto simp: dec_at_def)
    moreover have "rd_err (rd_shift t) = rd_err t" by (simp add: rd_shift_def rd_read_byte_def Let_def)
    ultimately show "?P (Suc i) (rd_shift t)" using t by (simp add: mult_ac)
  qed (use d r in simp_all)
  then show ?thesis using decoder.normalises [of d] r unfolding rd_normalize_def by simp
qed

lemma dec_at_new:
  "\<exists>d. NewRangeDecoder bs = Some d \<and> dec_at bs d 4 0 (2 ^ 31) \<and> rd_err d = 0"
proof -
  define d where "d = \<lparr>rd_buf = bs, rd_end_offs = 0, rd_end_window = 0, rd_nend_bits = 0, rd_nbits_total = 33 - 24,
     rd_offs = min 1 (length bs), rd_rng = 2 ^ 7, rd_val = u32_of (2 ^ 7 - 1 - drop_bit 1 (byte_val bs 0)), rd_ext = 0,
     rd_rem = byte_val bs 0, rd_err = 0\<rparr>"
  have new: "NewRangeDecoder bs = rd_normalize d"
    by (cases bs) (simp_all add: NewRangeDecoder_def rd_read_byte_def d_def byte_val_def Let_def)
  have "dec_at bs d 1 0 (2 ^ 7)"
    using byte_val_range [of bs 0] by (simp add: dec_at_def d_def code_def drop_bit_eq_div u32_id)
  from dec_at_normalize [OF this] show ?thesis unfolding new by (simp add: shifts_def d_def)
qed
text \<open>Every state of a decoder between two symbols, whatever the buffer holds.\<close>

definition dec_ok :: "range_decoder \<Rightarrow> bool" where
  "dec_ok d \<longleftrightarrow> (\<exists>n v. dec_at (rd_buf d) d n v (rd_rng d)) \<and> 2 ^ 23 < rd_rng d"

section \<open>Symbols\<close>

text \<open>Part \<open>fl\<close> to \<open>fh\<close> of \<open>ft\<close> of a range, counted from its end.\<close>

definition part_low :: "int \<Rightarrow> int \<Rightarrow> int \<Rightarrow> int \<Rightarrow> int" where
  "part_low r fl fh ft = (if 0 < fl then r - (r div ft) * (ft - fl) else 0)"

definition part_size :: "int \<Rightarrow> int \<Rightarrow> int \<Rightarrow> int \<Rightarrow> int" where
  "part_size r fl fh ft = (if 0 < fl then (r div ft) * (fh - fl) else r - (r div ft) * (ft - fh))"

definition symbol_ok :: "int \<Rightarrow> int \<Rightarrow> int \<Rightarrow> bool" where
  "symbol_ok fl fh ft \<longleftrightarrow> 0 \<le> fl \<and> fl < fh \<and> fh \<le> ft \<and> ft \<le> 2 ^ 23"

lemma div_le_self: "0 \<le> a \<Longrightarrow> 0 < b \<Longrightarrow> a div b \<le> a" for a b :: int
  using zdiv_mono2 [of a 1 b] by simp

lemma share:
  assumes "2 ^ 23 < r" "symbol_ok fl fh ft"
  shows "0 < r div ft" "r div ft * ft \<le> r" "r div ft \<le> r"
proof -
  have ft: "0 < ft" "ft \<le> r" using assms by (auto simp: symbol_ok_def)
  then show "0 < r div ft" by (simp add: pos_imp_zdiv_pos_iff)
  show "r div ft * ft \<le> r" using ft by (simp add: minus_mod_eq_div_mult [symmetric])
  show "r div ft \<le> r" using ft by (simp add: div_le_self)
qed

lemma part_range:
  assumes r: "2 ^ 23 < r" and ok: "symbol_ok fl fh ft"
  shows "0 < part_size r fl fh ft" "part_size r fl fh ft \<le> r" "0 \<le> part_low r fl fh ft"
    "part_low r fl fh ft + part_size r fl fh ft \<le> r"
    "part_low r fl fh ft + part_size r fl fh ft = r - (r div ft) * (ft - fh)"
proof -
  let ?q = "r div ft"
  note q = share [OF r ok]
  have ord: "0 \<le> fl" "fl < fh" "fh \<le> ft" using ok by (simp_all add: symbol_ok_def)
  have m: "?q * (ft - fh) \<le> ?q * (ft - fl)" "?q * (ft - fl) \<le> ?q * ft" "0 \<le> ?q * (ft - fh)" "0 < ?q * (fh - fl)"
    "?q * (fh - fl) = ?q * (ft - fl) - ?q * (ft - fh)"
    using q(1) ord by (simp_all add: mult_left_mono right_diff_distrib)
  show "part_low r fl fh ft + part_size r fl fh ft = r - (r div ft) * (ft - fh)"
    using m(5) by (simp add: part_low_def part_size_def)
  then show "part_low r fl fh ft + part_size r fl fh ft \<le> r" using m(3) by simp
  show "0 \<le> part_low r fl fh ft" using m(2) q(2) by (simp add: part_low_def)
  show "0 < part_size r fl fh ft"
  proof (cases "0 < fl")
    case False
    then have "?q * (ft - fh) < ?q * ft" using q(1) ord by simp
    then show ?thesis using q(2) False by (simp add: part_size_def)
  qed (use m(4) in \<open>simp add: part_size_def\<close>)
  with \<open>part_low r fl fh ft + part_size r fl fh ft \<le> r\<close> \<open>0 \<le> part_low r fl fh ft\<close>
  show "part_size r fl fh ft \<le> r" by simp
qed

lemma div_below: fixes x q k :: int assumes q: "0 < q" shows "x div q < k \<longleftrightarrow> x < q * k"
proof
  assume "x div q < k"
  then have "q * (x div q + 1) \<le> q * k" using q by (intro mult_left_mono) simp_all
  moreover have "x < q * (x div q + 1)"
    unfolding distrib_left using mult_div_mod_eq [of q x] pos_mod_bound [OF q, of x] by linarith
  ultimately show "x < q * k" by linarith
next
  assume x: "x < q * k"
  have "q * (x div q) \<le> x" using mult_div_mod_eq [of q x] pos_mod_sign [OF q, of x] by linarith
  with x have "q * (x div q) < q * k" by linarith
  then show "x div q < k" using q by simp
qed

text \<open>Decode finds the part the number lies in.\<close>

lemma decode_part:
  assumes d: "dec_at bs d n v r" and r: "2 ^ 23 < r" and ft: "0 < ft" "ft \<le> 2 ^ 23"
  obtains fs where "rd_decode ft d = (d\<lparr>rd_ext := r div ft\<rparr>, fs)" "0 \<le> fs" "fs < ft"
    "\<And>fl fh. symbol_ok fl fh ft \<Longrightarrow>
      fl \<le> fs \<and> fs < fh \<longleftrightarrow> v + part_low r fl fh ft \<le> code bs n \<and> code bs n < v + part_low r fl fh ft + part_size r fl fh ft"
proof -
  let ?q = "r div ft"
  define x where "x = v + r - 1 - code bs n"
  define fs where "fs = ft - min (x div ?q + 1) ft"
  have one: "symbol_ok 0 ft ft" using ft by (simp add: symbol_ok_def)
  note q = share [OF r one]
  have x: "rd_val d = x" "0 \<le> x" "x < r" "r \<le> 2 ^ 31" "rd_rng d = r" using d by (simp_all add: dec_at_def x_def)
  have s: "0 \<le> x div ?q" "x div ?q \<le> x" using x q by (simp_all add: pos_imp_zdiv_nonneg_iff div_le_self)
  have fs: "0 \<le> fs" "fs < ft" using s ft by (simp_all add: fs_def)
  have "ecMini (u32_of (x div ?q + 1)) ft = min (x div ?q + 1) ft"
    using s x by (simp add: u32_id ecMini_def min_def)
  then have "u32_of (ft - ecMini (u32_of (x div ?q + 1)) ft) = fs" using fs ft by (simp add: fs_def [symmetric] u32_id)
  then have "rd_decode ft d = (d\<lparr>rd_ext := r div ft\<rparr>, fs)"
    using ft q x by (simp add: rd_decode_def Let_def)
  moreover have "fl \<le> fs \<and> fs < fh \<longleftrightarrow> v + part_low r fl fh ft \<le> code bs n \<and> code bs n < v + part_low r fl fh ft + part_size r fl fh ft"
    if ok: "symbol_ok fl fh ft" for fl fh
  proof -
    have ord: "0 \<le> fl" "fl < fh" "fh \<le> ft" using ok by (simp_all add: symbol_ok_def)
    have "fs < fh \<longleftrightarrow> \<not> x div ?q < ft - fh" using ord s by (auto simp: fs_def min_def)
    also have "\<dots> \<longleftrightarrow> ?q * (ft - fh) \<le> x" using div_below [OF q(1)] by (simp add: not_less)
    also have "\<dots> \<longleftrightarrow> code bs n < v + part_low r fl fh ft + part_size r fl fh ft"
      using part_range(5) [OF r ok] by (simp add: x_def) linarith
    finally have hi: "fs < fh \<longleftrightarrow> code bs n < v + part_low r fl fh ft + part_size r fl fh ft" .
    have "fl \<le> fs \<longleftrightarrow> fl = 0 \<or> x div ?q < ft - fl" using ord s by (auto simp: fs_def min_def)
    also have "\<dots> \<longleftrightarrow> fl = 0 \<or> x < ?q * (ft - fl)" using div_below [OF q(1)] by simp
    also have "\<dots> \<longleftrightarrow> v + part_low r fl fh ft \<le> code bs n"
      using ord d by (auto simp: part_low_def x_def dec_at_def)
    finally show ?thesis using hi by simp
  qed
  ultimately show thesis using fs that by blast
qed

lemma update_part:
  assumes d: "dec_at bs d n v r" and r: "2 ^ 23 < r" and ok: "symbol_ok fl fh ft" and ext: "rd_ext d = r div ft"
    and inside: "v + part_low r fl fh ft \<le> code bs n" "code bs n < v + part_low r fl fh ft + part_size r fl fh ft"
  shows "\<exists>d'. rd_update fl fh ft d = Some d' \<and> rd_err d' = rd_err d
    \<and> dec_at bs d' (n + shifts (part_size r fl fh ft)) ((v + part_low r fl fh ft) * 256 ^ shifts (part_size r fl fh ft))
         (part_size r fl fh ft * 256 ^ shifts (part_size r fl fh ft))"
proof -
  let ?q = "r div ft" and ?v = "v + part_low r fl fh ft" and ?r = "part_size r fl fh ft"
  note q = share [OF r ok] and p = part_range [OF r ok]
  have ord: "0 \<le> fl" "fl < fh" "fh \<le> ft" "ft \<le> 2 ^ 23" using ok by (simp_all add: symbol_ok_def)
  have r31: "r \<le> 2 ^ 31" "rd_rng d = r" "rd_val d = v + r - 1 - code bs n" using d by (simp_all add: dec_at_def)
  have s: "0 \<le> ?q * (ft - fh)" "?q * (ft - fh) \<le> r"
  proof -
    have "?q * (ft - fh) \<le> ?q * ft" using q(1) ord by (intro mult_left_mono) simp_all
    then show "?q * (ft - fh) \<le> r" using q(2) by simp
  qed (use q(1) ord in simp)
  have uft: "u32_of (ft - fh) = ft - fh" "u32_of (fh - fl) = fh - fl" using ord by (simp_all add: u32_id)
  have us: "u32_of (?q * (ft - fh)) = ?q * (ft - fh)" using s r31 by (simp add: u32_id)
  have ur: "(if 0 < fl then u32_of (?q * (fh - fl)) else u32_of (r - ?q * (ft - fh))) = ?r"
  proof (cases "0 < fl")
    case True
    then have "0 < ?q * (fh - fl)" "?q * (fh - fl) \<le> r" using p(1,2) by (simp_all add: part_size_def)
    then show ?thesis using True r31 by (simp add: part_size_def u32_id)
  next
    case False
    then show ?thesis using p(1,2) r31 s by (simp add: part_size_def u32_id)
  qed
  have "?v + ?r = v + r - ?q * (ft - fh)" using p(5) by simp
  then have val: "rd_val d - ?q * (ft - fh) = ?v + ?r - 1 - code bs n" using r31(3) by simp
  then have uval: "u32_of (rd_val d - ?q * (ft - fh)) = ?v + ?r - 1 - code bs n"
    using inside p(2) r31 by (simp add: u32_id)
  have "dec_at bs (d\<lparr>rd_val := ?v + ?r - 1 - code bs n, rd_rng := ?r\<rparr>) n ?v ?r"
    using d inside p(2) r31 by (simp add: dec_at_def)
  from dec_at_normalize [OF this] show ?thesis
    unfolding rd_update_def Let_def ext uft us r31(2) ur uval by auto
qed

end
