(* ===== verification/MlowEncode.thy ===== *)
theory MlowEncode
  imports MlowCodes
begin

text \<open>
  The encoder of the range coder: the bytes it has written, with the carry that is still pending,
  are the leading digits of the low end of its range.
\<close>

section \<open>Digits\<close>

definition radix :: "int list \<Rightarrow> int" where
  "radix = foldl (\<lambda>x b. 256 * x + b) 0"

lemma radix_snoc [simp]: "radix (xs @ [b]) = 256 * radix xs + b"
  by (simp add: radix_def)

lemma radix_Nil [simp]: "radix [] = 0"
  by (simp add: radix_def)

lemma radix_append: "radix (xs @ ys) = radix xs * 256 ^ length ys + radix ys"
proof (induction ys rule: rev_induct)
  case (snoc y ys)
  have "radix (xs @ ys @ [y]) = 256 * radix (xs @ ys) + y" using radix_snoc [of "xs @ ys" y] by simp
  then show ?case using snoc by (simp add: algebra_simps)
qed simp

lemma radix_nines: "radix (replicate k 255) = 256 ^ k - 1"
proof (induction k)
  case (Suc k)
  have "radix (replicate (Suc k) 255) = 256 * radix (replicate k 255) + 255"
    using radix_snoc [of "replicate k 255" 255] by (simp add: replicate_append_same)
  then show ?case using Suc by simp
qed simp

lemma radix_zeros: "radix (replicate k 0) = 0"
proof (induction k)
  case (Suc k)
  have "radix (replicate (Suc k) 0) = 256 * radix (replicate k 0) + 0"
    using radix_snoc [of "replicate k 0" 0] by (simp add: replicate_append_same)
  then show ?case using Suc by simp
qed simp

text \<open>One more than a number that ends in 255s.\<close>

lemma radix_carry:
  "radix (xs @ [b + c] @ replicate k ((255 + c) AND 255) @ [e AND 255]) = 256 * radix (xs @ [b] @ replicate k 255) + e"
  if "c = drop_bit 8 e" "c = 0 \<or> c = 1" for c e :: int
proof -
  have e: "e = 256 * c + (e AND 255)" unfolding that(1) low_byte drop_bit_eq_div by simp
  have low: "radix (replicate k ((255 + c) AND 255)) = (if c = 0 then 256 ^ k - 1 else 0)"
    using that(2) radix_nines radix_zeros by auto
  have "radix (xs @ [b + c] @ replicate k ((255 + c) AND 255) @ [e AND 255])
    = 256 * radix ((xs @ [b + c]) @ replicate k ((255 + c) AND 255)) + (e AND 255)"
    using radix_snoc [of "(xs @ [b + c]) @ replicate k ((255 + c) AND 255)"] by simp
  also have "\<dots> = 256 * ((256 * radix xs + b + c) * 256 ^ k + (if c = 0 then 256 ^ k - 1 else 0)) + (e AND 255)"
    by (simp only: radix_append [of "xs @ [b + c]"] radix_snoc low length_replicate) simp
  also have "\<dots> = 256 * ((256 * radix xs + b) * 256 ^ k + (256 ^ k - 1)) + (256 * c + (e AND 255))"
    using that(2) by (auto simp: algebra_simps)
  also have "(256 * radix xs + b) * 256 ^ k + (256 ^ k - 1) = radix ((xs @ [b]) @ replicate k 255)"
    by (simp only: radix_append [of "xs @ [b]"] radix_snoc radix_nines length_replicate)
  finally show ?thesis using e by simp
qed

section \<open>Writing bytes\<close>

definition written :: "range_encoder \<Rightarrow> int list" where
  "written e = map uint (take (re_offs e) (re_buf e))"

definition room :: "range_encoder \<Rightarrow> bool" where
  "room e \<longleftrightarrow> re_offs e + re_end_offs e \<le> length (re_buf e)"

lemma write_byte:
  assumes "re_err (re_write_byte b e) = 0" "0 \<le> b" "b < 256" "room e"
  shows "re_err e = 0" "written (re_write_byte b e) = written e @ [b]" "room (re_write_byte b e)"
    "re_rng (re_write_byte b e) = re_rng e" "re_val (re_write_byte b e) = re_val e" "re_ext (re_write_byte b e) = re_ext e"
    "re_rem (re_write_byte b e) = re_rem e"
proof -
  have fits: "re_offs e + re_end_offs e < length (re_buf e)" "re_err e = 0"
    using assms(1) by (auto simp: re_write_byte_def split: if_splits)
  then show "re_err e = 0" by simp
  have "uint (word_of_int b :: u8) = b" using assms by (simp add: uint_word_of_int)
  then show "written (re_write_byte b e) = written e @ [b]"
    using fits by (simp add: written_def re_write_byte_def take_Suc_conv_app_nth)
  show "room (re_write_byte b e)" "re_rng (re_write_byte b e) = re_rng e" "re_val (re_write_byte b e) = re_val e"
    "re_ext (re_write_byte b e) = re_ext e" "re_rem (re_write_byte b e) = re_rem e"
    using fits by (simp_all add: room_def re_write_byte_def)
qed

lemma write_bytes:
  assumes "re_err ((re_write_byte b ^^ k) e) = 0" "0 \<le> b" "b < 256" "room e"
  shows "re_err e = 0 \<and> written ((re_write_byte b ^^ k) e) = written e @ replicate k b \<and> room ((re_write_byte b ^^ k) e)
    \<and> re_rng ((re_write_byte b ^^ k) e) = re_rng e \<and> re_val ((re_write_byte b ^^ k) e) = re_val e"
  using assms(1)
proof (induction k)
  case (Suc k)
  let ?e = "(re_write_byte b ^^ k) e"
  have room: "room ((re_write_byte b ^^ j) e)" for j
    using assms(4) by (induction j) (auto simp: room_def re_write_byte_def)
  have last: "re_err (re_write_byte b ?e) = 0" using Suc.prems by simp
  note w = write_byte [OF last assms(2,3) room]
  show ?case using Suc.IH [OF w(1)] w by (simp add: replicate_append_same)
qed (use assms(4) in simp)

text \<open>Room and the range do not depend on success.\<close>

lemma carry_room: "room e \<Longrightarrow> room (re_carry_out c e)"
proof -
  assume r: "room e"
  have w: "room x \<Longrightarrow> room (re_write_byte b x)" for b x by (auto simp: room_def re_write_byte_def)
  have ws: "room x \<Longrightarrow> room ((re_write_byte b ^^ k) x)" for b k x by (induction k) (simp_all add: w)
  have "room (x\<lparr>re_ext := a, re_rem := y\<rparr>) = room x" "room (x\<lparr>re_ext := a\<rparr>) = room x" for x a y by (simp_all add: room_def)
  then show ?thesis using r w ws by (simp add: re_carry_out_def Let_def)
qed

section \<open>Carries\<close>

definition digits :: "range_encoder \<Rightarrow> int list" where
  "digits e = written e @ (if 0 \<le> re_rem e then [re_rem e] else []) @ replicate (re_ext e) 255"

text \<open>A 255 that is pending, or no digit at all, can take no carry.\<close>

definition no_carry :: "range_encoder \<Rightarrow> bool" where
  "no_carry e \<longleftrightarrow> re_rem e = -1 \<or> re_rem e = 255"

lemma carry_out:
  assumes e: "re_err (re_carry_out c e) = 0" "room e" "-1 \<le> re_rem e" "re_rem e < 256"
    and first: "re_rem e = -1 \<Longrightarrow> written e = []"
    and c: "0 \<le> c" "c < 512" "no_carry e \<Longrightarrow> c < 256"
  shows "re_err e = 0" "radix (digits (re_carry_out c e)) = 256 * radix (digits e) + c"
    "length (digits (re_carry_out c e)) = Suc (length (digits e))"
    "room (re_carry_out c e)" "re_rng (re_carry_out c e) = re_rng e" "re_val (re_carry_out c e) = re_val e"
    "-1 \<le> re_rem (re_carry_out c e)" "re_rem (re_carry_out c e) < 256"
    "re_rem (re_carry_out c e) = -1 \<Longrightarrow> written (re_carry_out c e) = []"
    "no_carry (re_carry_out c e) \<Longrightarrow> c = 511 \<or> c = 255 \<and> no_carry e"
proof -
  let ?e = "re_carry_out c e"
  have "re_err e = 0 \<and> radix (digits ?e) = 256 * radix (digits e) + c \<and> length (digits ?e) = Suc (length (digits e))
    \<and> room ?e \<and> re_rng ?e = re_rng e \<and> re_val ?e = re_val e \<and> -1 \<le> re_rem ?e \<and> re_rem ?e < 256
    \<and> (re_rem ?e = -1 \<longrightarrow> written ?e = []) \<and> (no_carry ?e \<longrightarrow> c = 511 \<or> c = 255 \<and> no_carry e)"
  proof (cases "c = 255")
    case True
    have E: "re_carry_out 255 e = e\<lparr>re_ext := re_ext e + 1\<rparr>" by (simp add: re_carry_out_def)
    have "digits (re_carry_out 255 e) = digits e @ [255]" by (simp add: E digits_def written_def replicate_append_same)
    then show ?thesis using e first by (simp add: True E room_def no_carry_def written_def)
  next
    case False
    define k where "k = drop_bit 8 c"
    have k: "k = 0 \<or> k = 1" using c by (auto simp: k_def drop_bit_eq_div)
    define e1 where "e1 = (if 0 \<le> re_rem e then re_write_byte (re_rem e + k) e else e)"
    define e2 where "e2 = (re_write_byte ((255 + k) AND 255) ^^ re_ext e1) e1"
    have E: "?e = e2\<lparr>re_ext := 0, re_rem := c AND 255\<rparr>"
      using False by (simp add: re_carry_out_def Let_def k_def e1_def e2_def)
    have err2: "re_err e2 = 0" using e(1) by (simp add: E)
    have sym: "0 \<le> (255 + k) AND 255" "(255 + k) AND 255 < 256" by (simp_all add: low_byte)
    have room1: "room e1" using e(2) by (auto simp: e1_def room_def re_write_byte_def)
    note w2 = write_bytes [OF err2 [unfolded e2_def] sym room1, folded e2_def]
    have rem: "re_rem e + k < 256" if "0 \<le> re_rem e"
    proof (cases "re_rem e = 255")
      case True
      then have "c < 256" using c(3) by (simp add: no_carry_def)
      then have "k = 0" using c(1) by (simp add: k_def drop_bit_eq_div)
      then show ?thesis using e(4) by simp
    qed (use e(4) k in auto)
    have w1: "re_err e = 0 \<and> written e1 = written e @ (if 0 \<le> re_rem e then [re_rem e + k] else [])
      \<and> re_rng e1 = re_rng e \<and> re_val e1 = re_val e \<and> re_ext e1 = re_ext e"
    proof (cases "0 \<le> re_rem e")
      case True
      then have e1: "e1 = re_write_byte (re_rem e + k) e" by (simp add: e1_def)
      have "re_err (re_write_byte (re_rem e + k) e) = 0" using w2 by (simp add: e1)
      from write_byte [OF this _ rem [OF True] e(2)] True k show ?thesis by (auto simp: e1)
    qed (use w2 in \<open>simp add: e1_def\<close>)
    have digs: "digits ?e = written e @ (if 0 \<le> re_rem e then [re_rem e + k] else [])
        @ replicate (re_ext e) ((255 + k) AND 255) @ [c AND 255]"
      using w1 w2 by (simp add: E digits_def written_def low_byte)
    have worth: "radix (digits ?e) = 256 * radix (digits e) + c"
    proof (cases "0 \<le> re_rem e")
      case True
      then show ?thesis
        using radix_carry [OF k_def k, of "written e" "re_rem e" "re_ext e"] by (simp add: digs) (simp add: digits_def)
    next
      case False
      then have "re_rem e = -1" using e(3) by simp
      then have "written e = []" "c < 256" using first c(3) by (auto simp: no_carry_def)
      then have "k = 0" "c AND 255 = c" using c(1) by (simp_all add: k_def drop_bit_eq_div low_byte)
      then show ?thesis
        using False \<open>written e = []\<close> radix_snoc [of "replicate (re_ext e) 255" c] by (simp add: digs) (simp add: digits_def)
    qed
    have "length (digits ?e) = Suc (length (digits e))" by (simp add: digs) (simp add: digits_def)
    moreover have "no_carry ?e \<longrightarrow> c = 511"
    proof
      assume "no_carry ?e"
      then have "c mod 256 = 255" using pos_mod_sign [of 256 c] by (simp add: no_carry_def E low_byte) linarith
      then show "c = 511" using False c by presburger
    qed
    moreover have "-1 \<le> c AND 255" "c AND 255 \<noteq> -1" "c AND 255 < 256"
    proof -
      have "c AND 255 = c mod 256" "0 \<le> c mod 256" "c mod 256 < 256" by (simp_all add: low_byte)
      then show "-1 \<le> c AND 255" "c AND 255 \<noteq> -1" "c AND 255 < 256" by linarith+
    qed
    ultimately show ?thesis using w1 w2 worth by (simp add: E room_def)
  qed
  then show "re_err e = 0" "radix (digits ?e) = 256 * radix (digits e) + c" "length (digits ?e) = Suc (length (digits e))"
    "room ?e" "re_rng ?e = re_rng e" "re_val ?e = re_val e" "-1 \<le> re_rem ?e" "re_rem ?e < 256"
    "re_rem ?e = -1 \<Longrightarrow> written ?e = []" "no_carry ?e \<Longrightarrow> c = 511 \<or> c = 255 \<and> no_carry e" by simp_all
qed

lemma carry_err: "re_err (re_carry_out c e) = 0 \<Longrightarrow> re_err e = 0"
proof -
  have w: "re_err (re_write_byte b x) = 0 \<Longrightarrow> re_err x = 0" for b x
    by (auto simp: re_write_byte_def split: if_splits)
  have ws: "re_err ((re_write_byte b ^^ k) x) = 0 \<Longrightarrow> re_err x = 0" for b k x
    by (induction k) (auto dest: w)
  assume "re_err (re_carry_out c e) = 0"
  then show ?thesis by (auto simp: re_carry_out_def Let_def split: if_splits dest: w ws)
qed

section \<open>The encoder in exact arithmetic\<close>

definition enc_exact :: "range_encoder \<Rightarrow> nat \<Rightarrow> int \<Rightarrow> bool" where
  "enc_exact e k v \<longleftrightarrow> room e \<and> -1 \<le> re_rem e \<and> re_rem e < 256 \<and> (re_rem e = -1 \<longrightarrow> written e = [])
     \<and> 0 \<le> re_val e \<and> re_val e + re_rng e < 2 ^ 32 \<and> (no_carry e \<longrightarrow> re_val e + re_rng e \<le> 2 ^ 31)
     \<and> length (digits e) = k \<and> v = radix (digits e) * 2 ^ 31 + re_val e"

definition enc_at :: "range_encoder \<Rightarrow> nat \<Rightarrow> int \<Rightarrow> int \<Rightarrow> bool" where
  "enc_at e k v r \<longleftrightarrow> re_rng e = r \<and> 0 < r \<and> r \<le> 2 ^ 31 \<and> (re_err e = 0 \<longrightarrow> enc_exact e k v)"

lemma enc_at_new: "enc_at (NewRangeEncoder n) 0 0 (2 ^ 31)"
  by (simp add: enc_at_def enc_exact_def NewRangeEncoder_def ec_code_top_def room_def written_def digits_def no_carry_def)

lemma val_shift:
  fixes v :: int
  assumes "0 \<le> v" "v < 2 ^ 32"
  shows "u32_of (push_bit 8 v) AND (ec_code_top - 1) = 256 * v - (v div 2 ^ 23) * 2 ^ 31"
    "256 * v - (v div 2 ^ 23) * 2 ^ 31 = (256 * v) mod 2 ^ 31"
proof -
  have "256 * v = 256 * (2 ^ 23 * (v div 2 ^ 23) + v mod 2 ^ 23)" by (simp only: mult_div_mod_eq)
  also have "\<dots> = 2 ^ 31 * (v div 2 ^ 23) + 256 * (v mod 2 ^ 23)" by (simp only: distrib_left) simp
  finally have "256 * v = 2 ^ 31 * (v div 2 ^ 23) + 256 * (v mod 2 ^ 23)" .
  moreover have "0 \<le> 256 * (v mod 2 ^ 23)" "256 * (v mod 2 ^ 23) < 2 ^ 31"
    using pos_mod_sign [of "2 ^ 23" v] pos_mod_bound [of "2 ^ 23" v] by simp_all
  ultimately show *: "256 * v - (v div 2 ^ 23) * 2 ^ 31 = (256 * v) mod 2 ^ 31"
    by (metis add_diff_cancel_left' mod_mult_self4 mod_pos_pos_trivial mult.commute)
  have "(256 * v) mod 2 ^ 32 mod 2 ^ 31 = (256 * v) mod 2 ^ 31" by (rule mod_mod_cancel) simp
  then show "u32_of (push_bit 8 v) AND (ec_code_top - 1) = 256 * v - (v div 2 ^ 23) * 2 ^ 31"
    unfolding * by (simp add: low_bits u32_of_def push_bit_eq_mult mult.commute)
qed

lemma enc_at_shift:
  assumes e: "enc_at e k v r" and r: "r \<le> 2 ^ 23"
  shows "enc_at (re_shift e) (Suc k) (256 * v) (256 * r)"
proof -
  let ?c = "drop_bit 23 (re_val e)"
  let ?e1 = "re_carry_out ?c e"
  have rng: "re_rng (re_shift e) = 256 * r" "0 < 256 * r" "256 * r \<le> 2 ^ 31"
    using encoder.shift_rng [of e] e r by (simp_all add: enc_at_def)
  have "enc_exact (re_shift e) (Suc k) (256 * v)" if err: "re_err (re_shift e) = 0"
  proof -
    have err1: "re_err ?e1 = 0" using err by (simp add: re_shift_def Let_def)
    then have x: "enc_exact e k v" "re_rng e = r" using e carry_err by (auto simp: enc_at_def)
    then have st: "room e" "-1 \<le> re_rem e" "re_rem e < 256" "re_rem e = -1 \<Longrightarrow> written e = []" "0 \<le> re_val e"
      "re_val e + r < 2 ^ 32" "no_carry e \<Longrightarrow> re_val e + r \<le> 2 ^ 31" "length (digits e) = k"
      "v = radix (digits e) * 2 ^ 31 + re_val e" by (auto simp: enc_exact_def)
    have r0: "0 < r" using e by (simp add: enc_at_def)
    have v32: "re_val e < 2 ^ 32" using st(6) r0 by linarith
    have c: "?c = re_val e div 2 ^ 23" by (simp add: drop_bit_eq_div)
    have c_range: "0 \<le> ?c" "?c < 512" "no_carry e \<Longrightarrow> ?c < 256"
      using st(5) v32 st(7) r0 by (auto simp: c)
    note co = carry_out [OF err1 st(1-4) c_range]
    define e' where "e' = re_shift e"
    have e': "re_val e' = 256 * re_val e - ?c * 2 ^ 31" "re_rng e' = 256 * r" "re_rem e' = re_rem ?e1"
      "written e' = written ?e1" "digits e' = digits ?e1" "room e' = room ?e1" "no_carry e' = no_carry ?e1"
      using val_shift(1) [OF st(5) v32] rng(1)
      by (simp_all add: e'_def re_shift_def Let_def c written_def digits_def room_def no_carry_def)
    have low: "0 \<le> re_val e'" "re_val e' < 2 ^ 31"
      using val_shift(2) [OF st(5) v32] by (simp_all add: e'(1) c)
    have "re_val e' + 256 * r \<le> 2 ^ 31" if "no_carry e'"
    proof -
      have "?c = 511 \<or> ?c = 255 \<and> no_carry e" using co(10) that by (simp add: e')
      then show ?thesis using st(6,7) by (auto simp: e')
    qed
    moreover have "256 * v = radix (digits e') * 2 ^ 31 + re_val e'"
      using co(2) by (simp add: e' st(9))
    ultimately show ?thesis
      using co low rng st(8) by (simp add: enc_exact_def e' flip: e'_def)
  qed
  then show ?thesis using rng by (simp add: enc_at_def)
qed

lemma enc_at_normalize:
  assumes e: "enc_at e k v r"
  shows "\<exists>e'. re_normalize e = Some e' \<and> enc_at e' (k + shifts r) (v * 256 ^ shifts r) (r * 256 ^ shifts r)"
proof -
  have r: "re_rng e = r" "0 < r" using e by (auto simp: enc_at_def)
  let ?P = "\<lambda>i t. enc_at t (k + i) (v * 256 ^ i) (r * 256 ^ i)"
  have "?P (shifts (re_rng e)) ((re_shift ^^ shifts (re_rng e)) e)"
  proof (rule encoder.shifted_states(1))
    fix i t assume t: "?P i t" "re_rng t \<le> 2 ^ 23"
    then have "enc_at (re_shift t) (Suc (k + i)) (256 * (v * 256 ^ i)) (256 * (r * 256 ^ i))"
      by (intro enc_at_shift) (auto simp: enc_at_def)
    then show "?P (Suc i) (re_shift t)" by (simp add: mult_ac)
  qed (use e r in simp_all)
  then show ?thesis using encoder.normalises [of e] r unfolding re_normalize_def by simp
qed

lemma encode_run:
  assumes r: "2 ^ 23 < r" "r \<le> 2 ^ 31" and ok: "symbol_ok fl fh ft" and e: "re_rng e = r"
  shows "re_encode fl fh ft e = re_normalize (e\<lparr>re_val := (if 0 < fl then u32_of (re_val e + part_low r fl fh ft) else re_val e),
    re_rng := part_size r fl fh ft\<rparr>)"
proof -
  let ?q = "r div ft"
  note q = share [OF r(1) ok]
  have ord: "0 \<le> fl" "fl < fh" "fh \<le> ft" "ft \<le> 2 ^ 23" using ok by (simp_all add: symbol_ok_def)
  have le: "0 \<le> ?q * x" "?q * x \<le> r" if "0 \<le> x" "x \<le> ft" for x
  proof -
    have "?q * x \<le> ?q * ft" using q(1) that by (intro mult_left_mono) simp_all
    then show "?q * x \<le> r" using q(2) by simp
  qed (use q(1) that in simp)
  have u: "u32_of (?q * u32_of x) = ?q * x" if "0 \<le> x" "x \<le> ft" for x
    using le [OF that] that ord r by (simp add: u32_id)
  have um: "u32_of (r - ?q * x) = r - ?q * x" if "0 \<le> x" "x \<le> ft" for x
    using le [OF that] r by (simp add: u32_id)
  show ?thesis using ord by (simp add: re_encode_def Let_def e u um part_low_def part_size_def)
qed

lemma encode_part:
  assumes e: "enc_at e k v r" and r: "2 ^ 23 < r" and ok: "symbol_ok fl fh ft"
  shows "\<exists>e'. re_encode fl fh ft e = Some e'
    \<and> enc_at e' (k + shifts (part_size r fl fh ft)) ((v + part_low r fl fh ft) * 256 ^ shifts (part_size r fl fh ft))
         (part_size r fl fh ft * 256 ^ shifts (part_size r fl fh ft))"
proof -
  let ?v = "v + part_low r fl fh ft" and ?r = "part_size r fl fh ft"
  note p = part_range [OF r ok]
  have r31: "r \<le> 2 ^ 31" "re_rng e = r" using e by (simp_all add: enc_at_def)
  define e1 where "e1 = e\<lparr>re_val := (if 0 < fl then u32_of (re_val e + part_low r fl fh ft) else re_val e), re_rng := ?r\<rparr>"
  have run: "re_encode fl fh ft e = re_normalize e1" unfolding e1_def by (rule encode_run [OF r r31(1) ok r31(2)])
  have same: "re_err e1 = re_err e" "room e1 = room e" "re_rem e1 = re_rem e" "written e1 = written e"
    "digits e1 = digits e" "no_carry e1 = no_carry e" "re_rng e1 = ?r"
    by (simp_all add: e1_def room_def written_def digits_def no_carry_def)
  have "enc_exact e1 k ?v" if "re_err e = 0"
  proof -
    have x: "enc_exact e k v" using e that by (simp add: enc_at_def)
    then have "0 \<le> re_val e" "re_val e + r < 2 ^ 32" by (simp_all add: enc_exact_def r31)
    then have "u32_of (re_val e + part_low r fl fh ft) = re_val e + part_low r fl fh ft"
      using p(1,3,4) by (intro u32_id) linarith+
    then have "re_val e1 = re_val e + part_low r fl fh ft" by (simp add: e1_def) (simp add: part_low_def)
    then show ?thesis using x p(1,3,4) by (auto simp: enc_exact_def same r31(2))
  qed
  then have "enc_at e1 k ?v ?r" using p(1,2) r31 by (simp add: enc_at_def same)
  from enc_at_normalize [OF this] show ?thesis unfolding run .
qed

end
