(* ===== verification/MlowRoundtrip.thy ===== *)
theory MlowRoundtrip
  imports MlowEncode
begin

text \<open>
  Whatever is encoded with the range coder of the MLow codec is decoded again, and a decoder goes
  through any bytes without hanging or panicking.
\<close>

section \<open>The last bits of the range\<close>

lemma bit_len_bounds:
  assumes "0 < n"
  shows "2 ^ (bit_len n - 1) \<le> n" "n < 2 ^ bit_len n" "0 < bit_len n"
proof -
  have "2 ^ (bit_len n - 1) \<le> n \<and> n < 2 ^ bit_len n \<and> 0 < bit_len n"
    using assms
  proof (induction n rule: bit_len.induct)
    case (1 n)
    show ?case
    proof (cases "n div 2 = 0")
      case True
      then have "n = 1" using 1 by simp
      moreover have "bit_len (Suc 0) = 1" by (simp add: bit_len.simps [of "Suc 0"] bit_len.simps [of 0])
      ultimately show ?thesis by simp
    next
      case False
      then have ih: "2 ^ (bit_len (n div 2) - 1) \<le> n div 2" "n div 2 < 2 ^ bit_len (n div 2)" "0 < bit_len (n div 2)"
        using 1 by simp_all
      have len: "bit_len n = Suc (bit_len (n div 2))" using 1 by (simp add: bit_len.simps [of n])
      have "2 * 2 ^ (bit_len (n div 2) - 1) = (2 :: nat) ^ bit_len (n div 2)" using ih(3) by (simp add: power_eq_if)
      moreover obtain h where h: "n div 2 = h" "2 * h \<le> n" "n < 2 * h + 2" using that [of "n div 2"] by simp
      ultimately have "2 ^ bit_len h \<le> n" "n < 2 * 2 ^ bit_len h" using ih(1,2) unfolding h(1) by linarith+
      then show ?thesis using len by (simp add: h(1))
    qed
  qed
  then show "2 ^ (bit_len n - 1) \<le> n" "n < 2 ^ bit_len n" "0 < bit_len n" by simp_all
qed

lemma ilog_bounds:
  assumes "2 ^ 23 < r" "r \<le> 2 ^ 31"
  obtains j where "ilog r = int j + 1" "2 ^ j \<le> r" "r < 2 ^ (j + 1)" "23 \<le> j" "j \<le> 31"
proof -
  let ?n = "nat r" and ?j = "bit_len (nat r) - 1"
  have pos: "0 < ?n" using assms by simp
  note b = bit_len_bounds [OF pos]
  have n: "int ?n = r" using assms by simp
  have "int (2 ^ ?j) \<le> int ?n" "int ?n < int (2 ^ bit_len ?n)" using b(1,2) by (simp_all only: of_nat_le_iff of_nat_less_iff)
  then have r: "2 ^ ?j \<le> r" "r < 2 ^ (?j + 1)" using b(3) n by simp_all
  have "\<not> ?j + 1 \<le> 23"
  proof
    assume "?j + 1 \<le> 23"
    then have "(2 :: int) ^ (?j + 1) \<le> 2 ^ 23" by (intro power_increasing) simp_all
    then show False using r assms by simp
  qed
  moreover have "\<not> 32 \<le> ?j"
  proof
    assume "32 \<le> ?j"
    then have "(2 :: int) ^ 32 \<le> 2 ^ ?j" by (intro power_increasing) simp_all
    then show False using r assms by simp
  qed
  moreover have "ilog r = int ?j + 1" using b(3) by (simp add: ilog_def)
  ultimately show thesis using that [of ?j] r by simp
qed

lemma round_down: "x AND NOT (2 ^ j - 1) = x div 2 ^ j * 2 ^ j" for x :: int
proof -
  have "x AND NOT (mask j) = push_bit j (drop_bit j x)"
    by (rule bit_eqI) (auto simp: bit_simps)
  then show ?thesis by (simp add: mask_eq_exp_minus_1 push_bit_eq_mult drop_bit_eq_div)
qed

lemma fill_low: "(x * 2 ^ j) OR (2 ^ j - 1) = x * 2 ^ j + (2 ^ j - 1)" for x :: int
proof -
  have "push_bit j x AND mask j = 0" by (rule bit_eqI) (auto simp: bit_simps)
  from disjunctive_add_eq_or [OF this] show ?thesis by (simp add: mask_eq_exp_minus_1 push_bit_eq_mult)
qed

lemma round_up:
  fixes v :: int
  defines "x \<equiv> \<lambda>j. (v + (2 ^ j - 1)) div 2 ^ j * 2 ^ j"
  shows "v \<le> x j" "x j \<le> v + (2 ^ j - 1)"
proof -
  have "v + (2 ^ j - 1) = x j + (v + (2 ^ j - 1)) mod 2 ^ j"
    unfolding x_def by (rule div_mult_mod_eq [symmetric])
  moreover have "0 \<le> (v + (2 ^ j - 1)) mod 2 ^ j" "(v + (2 ^ j - 1)) mod 2 ^ j \<le> 2 ^ j - 1"
    using pos_mod_bound [of "2 ^ j" "v + (2 ^ j - 1)"] by simp_all
  ultimately show "v \<le> x j" "x j \<le> v + (2 ^ j - 1)" by linarith+
qed

lemma done_end:
  assumes r: "2 ^ 23 < r" "r \<le> 2 ^ 31" and v: "0 \<le> v" "v + r < 2 ^ 32"
    and res: "done_end v r = (l, x)"
  shows "v \<le> x" "x + 2 ^ (31 - l) \<le> v + r" "2 ^ (31 - l) dvd x" "l \<le> 9" "l = 0 \<Longrightarrow> x = 0"
proof -
  obtain j where j: "ilog r = int j + 1" "2 ^ j \<le> r" "r < 2 ^ (j + 1)" "23 \<le> j" "j \<le> 31"
    using ilog_bounds [OF r] by blast
  have msk: "drop_bit i (ec_code_top - 1) = 2 ^ (31 - i) - 1" for i
  proof -
    have "ec_code_top - 1 = mask 31" by (simp add: ec_code_top_def mask_eq_exp_minus_1)
    then show ?thesis by (simp only: drop_bit_mask_eq) (simp add: mask_eq_exp_minus_1)
  qed
  define up where "up = (\<lambda>j. (v + (2 ^ j - 1)) div 2 ^ j * 2 ^ j)"
  have ru: "v \<le> up i" "up i \<le> v + (2 ^ i - 1)" for i unfolding up_def by (rule round_up)+
  have l0: "32 - nat (ilog r) = 31 - j" using j by simp
  have ex: "31 - (31 - j) = j" using j(5) by simp
  have pj: "(2 :: int) ^ j = 2 * 2 ^ (j - 1)" using j(4) by (simp add: power_eq_if)
  have u: "u32_of (v + (2 ^ i - 1)) AND NOT (2 ^ i - 1) = up i" if "i \<le> j" for i
  proof -
    have "(2 :: int) ^ i \<le> 2 ^ j" using that by (intro power_increasing) simp_all
    moreover have "(1 :: int) \<le> 2 ^ i" by simp
    ultimately have "0 \<le> v + (2 ^ i - 1)" "v + (2 ^ i - 1) < 2 ^ 32" using v j(2) by linarith+
    then have "u32_of (v + (2 ^ i - 1)) = v + (2 ^ i - 1)" by (rule u32_id)
    then show ?thesis by (simp add: round_down up_def)
  qed
  have fill: "up i OR (2 ^ i - 1) = up i + (2 ^ i - 1)" for i by (simp add: up_def fill_low)
  have sum: "u32_of (v + r) = v + r" using v r by (simp add: u32_id)
  have half: "drop_bit 1 (2 ^ j - 1) = (2 :: int) ^ (j - 1) - 1"
    using drop_bit_mask_eq [of 1 j, where 'a = int] by (simp add: mask_eq_exp_minus_1)
  have run: "done_end v r = (if v + r \<le> up j + (2 ^ j - 1) then (31 - j + 1, up (j - 1)) else (31 - j, up j))"
    unfolding done_end_def Let_def l0 msk ex u [OF order.refl] fill sum half
    using u [of "j - 1"] by simp
  show "v \<le> x" "x + 2 ^ (31 - l) \<le> v + r" "2 ^ (31 - l) dvd x" "l \<le> 9" "l = 0 \<Longrightarrow> x = 0"
  proof -
    have "v \<le> x \<and> x + 2 ^ (31 - l) \<le> v + r \<and> 2 ^ (31 - l) dvd x \<and> l \<le> 9 \<and> (l = 0 \<longrightarrow> x = 0)"
    proof (cases "v + r \<le> up j + (2 ^ j - 1)")
      case True
      then have lx: "l = 31 - j + 1" "x = up (j - 1)" using res run by simp_all
      have "31 - l = j - 1" using lx j(4,5) by simp
      moreover have "up (j - 1) + 2 ^ (j - 1) \<le> v + r" using ru(2) [of "j - 1"] j(2) pj by linarith
      moreover have "l \<le> 9" "l \<noteq> 0" using lx(1) j(4) by arith+
      moreover have "2 ^ (j - 1) dvd up (j - 1)" by (simp add: up_def)
      ultimately show ?thesis using ru(1) [of "j - 1"] lx(2) by simp
    next
      case False
      then have lx: "l = 31 - j" "x = up j" using res run by simp_all
      have "x = 0" if "l = 0"
      proof -
        have "j = 31" using that lx j(5) by simp
        then have rj: "r = 2 ^ 31" using j(2) r(2) by simp
        have "up 31 + 2 ^ 31 \<le> v + 2 ^ 31" using False \<open>j = 31\<close> rj by simp
        then have "up 31 = v" using ru(1) [of 31] by simp
        moreover have "v < 2 ^ 31" using v(2) rj by simp
        moreover have "2 ^ 31 dvd up 31" by (simp add: up_def)
        ultimately have "v = 0" using v(1) zdvd_imp_le [of "2 ^ 31" v] by fastforce
        then show "x = 0" using lx \<open>up 31 = v\<close> \<open>j = 31\<close> by simp
      qed
      moreover have "l \<le> 9" using lx(1) j(4) by arith
      moreover have "2 ^ j dvd up j" by (simp add: up_def)
      ultimately show ?thesis using ru(1) [of j] lx False ex by auto
    qed
    then show "v \<le> x" "x + 2 ^ (31 - l) \<le> v + r" "2 ^ (31 - l) dvd x" "l \<le> 9" "l = 0 \<Longrightarrow> x = 0" by simp_all
  qed
qed

section \<open>Done\<close>

lemma done_bytes_err: "re_err (done_bytes l y e) = 0 \<Longrightarrow> re_err e = 0"
  by (induction l y e rule: done_bytes.induct) (auto dest: carry_err)

text \<open>A flushed encoder: its digits are all there is.\<close>

lemma done_bytes_digits:
  assumes "re_err (done_bytes l y e) = 0" "room e" "-1 \<le> re_rem e" "re_rem e < 256"
    "re_rem e = -1 \<Longrightarrow> written e = []" "0 \<le> y" "y < 2 ^ 32" "no_carry e \<Longrightarrow> y < 2 ^ 31"
    "2 ^ (31 - l) dvd y" "l \<le> 31" "l = 0 \<Longrightarrow> y = 0"
  shows "\<exists>m. l \<le> 8 * m \<and> 8 * m < l + 8 \<and> length (digits (done_bytes l y e)) = length (digits e) + m
    \<and> radix (digits (done_bytes l y e)) * 2 ^ 31 = 256 ^ m * (radix (digits e) * 2 ^ 31 + y)
    \<and> room (done_bytes l y e) \<and> -1 \<le> re_rem (done_bytes l y e) \<and> re_rem (done_bytes l y e) < 256
    \<and> (re_rem (done_bytes l y e) = -1 \<longrightarrow> written (done_bytes l y e) = [])"
  using assms
proof (induction l y e rule: done_bytes.induct)
  case (1 y e)
  then show ?case by (intro exI [of _ 0]) simp
next
  case (2 l y e)
  define c where "c = drop_bit 23 y"
  define y' where "y' = u32_of (push_bit 8 y) AND (ec_code_top - 1)"
  define e' where "e' = re_carry_out c e"
  define l' where "l' = Suc l - 8"
  define f where "f = done_bytes l' y' e'"
  have all: "done_bytes (Suc l) y e = f" by (simp add: f_def l'_def y'_def e'_def c_def)
  note IH = 2(1) [folded c_def y'_def e'_def l'_def, folded f_def]
  have err: "re_err f = 0" "re_err e' = 0" using 2(2) unfolding all by (simp_all add: f_def done_bytes_err)
  have c: "c = y div 2 ^ 23" by (simp add: c_def drop_bit_eq_div)
  have c_range: "0 \<le> c" "c < 512" "no_carry e \<Longrightarrow> c < 256"
  proof -
    have "y div 2 ^ 23 \<le> (2 ^ 32 - 1) div 2 ^ 23" using 2(8) by (intro zdiv_mono1) simp_all
    then show "0 \<le> c" "c < 512" using 2(7) by (simp_all add: c pos_imp_zdiv_nonneg_iff)
    assume "no_carry e"
    then have "y div 2 ^ 23 \<le> (2 ^ 31 - 1) div 2 ^ 23" using 2(9) by (intro zdiv_mono1) simp_all
    then show "c < 256" by (simp add: c)
  qed
  note co = carry_out [OF err(2) [unfolded e'_def] 2(3-6) c_range, folded e'_def]
  have y: "y' = 256 * y - c * 2 ^ 31" "y' = (256 * y) mod 2 ^ 31"
    using val_shift [OF 2(7,8)] by (simp_all add: c y'_def)
  have y_range: "0 \<le> y'" "y' < 2 ^ 31" "y' < 2 ^ 32" using pos_mod_bound [of "2 ^ 31" "256 * y"] by (simp_all add: y(2))
  have y_dvd: "2 ^ (31 - l') dvd y'"
  proof -
    obtain k where k: "31 - Suc l = k" "39 - Suc l = 8 + k" using that [of "31 - Suc l"] 2(11) by arith
    have "(2 :: int) ^ (8 + k) = 256 * 2 ^ k" by (simp only: power_add) simp
    then have "2 ^ (39 - Suc l) dvd 256 * y" using 2(10) unfolding k by simp
    moreover have "(2 :: int) ^ (31 - l') dvd 2 ^ (39 - Suc l)" by (rule le_imp_power_dvd) (simp add: l'_def)
    moreover have "(2 :: int) ^ (31 - l') dvd 2 ^ 31" by (rule le_imp_power_dvd) simp
    ultimately show ?thesis unfolding y(2) by (meson dvd_mod dvd_trans)
  qed
  have zero: "y' = 0" if "l' = 0"
  proof (rule ccontr)
    assume "y' \<noteq> 0"
    then have "2 ^ 31 \<le> y'" using y_dvd y_range(1) that by (intro zdvd_imp_le) simp_all
    then show False using y_range(2) by simp
  qed
  have "l' \<le> 31" using 2(11) by (simp add: l'_def)
  from IH [OF err(1) co(4,7,8,9) y_range(1,3,2) y_dvd this zero]
  obtain m where m: "l' \<le> 8 * m" "8 * m < l' + 8" "length (digits f) = length (digits e') + m"
    "radix (digits f) * 2 ^ 31 = 256 ^ m * (radix (digits e') * 2 ^ 31 + y')"
    "room f \<and> -1 \<le> re_rem f \<and> re_rem f < 256 \<and> (re_rem f = -1 \<longrightarrow> written f = [])" by blast
  have sum: "radix (digits e') * 2 ^ 31 + y' = 256 * (radix (digits e) * 2 ^ 31 + y)"
    using co(2) y(1) by simp
  have "Suc l \<le> 8 * Suc m" "8 * Suc m < Suc l + 8"
  proof -
    have "m = 0" if "Suc l \<le> 8" using m(2) that by (simp add: l'_def)
    then show "Suc l \<le> 8 * Suc m" "8 * Suc m < Suc l + 8" using m(1,2) unfolding l'_def by arith+
  qed
  moreover have "radix (digits f) * 2 ^ 31 = 256 ^ Suc m * (radix (digits e) * 2 ^ 31 + y)"
    unfolding m(4) sum by simp
  moreover have "length (digits f) = length (digits e) + Suc m" using m(3) co(3) by simp
  ultimately show ?case using m(5) unfolding all by blast
qed

text \<open>Bytes at the end, and the gap before them, leave what is written alone.\<close>

lemma write_at_end:
  assumes "room e"
  shows "written (re_write_byte_at_end b e) = written e" "room (re_write_byte_at_end b e)"
    "re_offs (re_write_byte_at_end b e) = re_offs e" "re_err (re_write_byte_at_end b e) = 0 \<Longrightarrow> re_err e = 0"
    "length (re_buf (re_write_byte_at_end b e)) = length (re_buf e)"
  using assms by (auto simp: re_write_byte_at_end_def written_def room_def take_update_cancel split: if_splits)

lemma flush_keeps:
  assumes "room e" "re_flush e w u = (e', w', u')"
  shows "written e' = written e" "room e'" "re_offs e' = re_offs e" "re_err e' = 0 \<Longrightarrow> re_err e = 0"
    "length (re_buf e') = length (re_buf e)"
proof -
  have "written e' = written e \<and> room e' \<and> re_offs e' = re_offs e \<and> (re_err e' = 0 \<longrightarrow> re_err e = 0)
    \<and> length (re_buf e') = length (re_buf e)"
    using assms
  proof (induction e w u rule: re_flush.induct)
    case (1 e w u)
    show ?case
    proof (cases "u < 8")
      case True
      then show ?thesis using 1(2,3) by (simp add: re_flush.simps [of e w u])
    next
      case False
      let ?e = "re_write_byte_at_end (w AND 255) e"
      note at_end = write_at_end [OF 1(2), of "w AND 255"]
      have "re_flush ?e (drop_bit 8 w) (u - 8) = (e', w', u')"
        using 1(3) False by (simp add: re_flush.simps [of e w u])
      from 1(1) [OF False at_end(2) this] at_end show ?thesis by metis
    qed
  qed
  then show "written e' = written e" "room e'" "re_offs e' = re_offs e" "re_err e' = 0 \<Longrightarrow> re_err e = 0"
    "length (re_buf e') = length (re_buf e)" by simp_all
qed

lemma zero_gap_keeps:
  assumes "room e"
  shows "take (re_offs e) (zero_gap e) = take (re_offs e) (re_buf e)" "length (zero_gap e) = length (re_buf e)"
  using assms by (simp_all add: zero_gap_def room_def)

lemma num_radix: "n \<le> length bs \<Longrightarrow> num bs n = radix (map uint (take n bs))"
  by (induction n) (simp_all add: take_Suc_conv_app_nth byte_val_def)

lemma num_more: "\<exists>t. num bs (n + i) = num bs n * 256 ^ i + t \<and> 0 \<le> t \<and> t < 256 ^ i"
proof (induction i)
  case (Suc i)
  then obtain t where t: "num bs (n + i) = num bs n * 256 ^ i + t" "0 \<le> t" "t < 256 ^ i" by blast
  have "num bs (n + Suc i) = num bs n * 256 ^ Suc i + (256 * t + byte_val bs (n + i))" by (simp add: t(1))
  moreover have "0 \<le> 256 * t + byte_val bs (n + i)" "256 * t + byte_val bs (n + i) < 256 ^ Suc i"
    using t(2,3) byte_val_range [of bs "n + i"] by simp_all
  ultimately show ?case by blast
qed simp

text \<open>What Done leaves at the front of the buffer.\<close>

lemma done_written:
  assumes x: "enc_exact e k v" and r: "2 ^ 23 < re_rng e" "re_rng e \<le> 2 ^ 31"
    and err: "re_err (re_done e) = 0"
  shows "\<exists>m l y. written (re_done e) = map uint (take (k + m) (re_buf (re_done e))) \<and> k + m \<le> length (re_buf (re_done e))
    \<and> l \<le> 8 * m \<and> m \<le> 2 \<and> radix (written (re_done e)) * 2 ^ 31 = 256 ^ m * y
    \<and> v \<le> y \<and> y + 2 ^ (31 - l) \<le> v + re_rng e \<and> re_err e = 0"
proof -
  obtain l y where ly: "done_end (re_val e) (re_rng e) = (l, y)" by (cases "done_end (re_val e) (re_rng e)")
  define e1 where "e1 = done_bytes l y e"
  define e2 where "e2 = (if 0 \<le> re_rem e1 \<or> 0 < re_ext e1 then re_carry_out 0 e1 else e1)"
  obtain e3 window used where e3: "re_flush e2 (re_end_window e2) (re_nend_bits e2) = (e3, window, used)"
    by (cases "re_flush e2 (re_end_window e2) (re_nend_bits e2)")
  define e4 where "e4 = e3\<lparr>re_buf := zero_gap e3\<rparr>"
  define pos where "pos = length (re_buf e4) - re_end_offs e4 - 1"
  have run: "re_done e = (if re_err e3 \<noteq> 0 then e3 else if used \<le> 0 then e4
      else if length (re_buf e4) - re_offs e4 \<le> re_end_offs e4 then e4\<lparr>re_err := -1\<rparr>
      else e4\<lparr>re_buf := (re_buf e4)[pos := re_buf e4 ! pos OR word_of_int window]\<rparr>)"
    unfolding re_done_def Let_def ly prod.case e1_def [symmetric] e2_def [symmetric] e3 e4_def [symmetric] pos_def
    by (rule refl)
  have st: "room e" "-1 \<le> re_rem e" "re_rem e < 256" "re_rem e = -1 \<Longrightarrow> written e = []" "0 \<le> re_val e"
    "re_val e + re_rng e < 2 ^ 32" "no_carry e \<Longrightarrow> re_val e + re_rng e \<le> 2 ^ 31" "length (digits e) = k"
    "v = radix (digits e) * 2 ^ 31 + re_val e" using x by (auto simp: enc_exact_def)
  note de = done_end [OF r st(5) st(6) ly]
  have err3: "re_err e3 = 0" using err unfolding run by (auto split: if_splits)
  have y: "0 \<le> y" "y < 2 ^ 32" "no_carry e \<Longrightarrow> y < 2 ^ 31"
  proof -
    have "0 < (2 :: int) ^ (31 - l)" by simp
    then have "y < re_val e + re_rng e" using de(2) by linarith
    then show "0 \<le> y" "y < 2 ^ 32" "no_carry e \<Longrightarrow> y < 2 ^ 31" using de(1) st(5,6,7) by linarith+
  qed
  have carry_back: "re_err e2 = 0 \<Longrightarrow> re_err e1 = 0" using carry_err by (auto simp: e2_def split: if_splits)
  have room12: "room e1 \<Longrightarrow> room e2" using carry_room by (simp add: e2_def)
  have room_done: "room (done_bytes l y e)" if "room e" for l y e
    using that by (induction l y e rule: done_bytes.induct) (simp_all add: carry_room)
  have room1: "room e1" using room_done [OF st(1)] by (simp add: e1_def)
  note room2 = room12 [OF room1]
  note fl = flush_keeps [OF room2 e3]
  have err2: "re_err e2 = 0" by (rule fl(4) [OF err3])
  have err1: "re_err (done_bytes l y e) = 0" using carry_back [OF err2] by (simp add: e1_def)
  have "l \<le> 31" using de(4) by simp
  from done_bytes_digits [OF err1 st(1-4) y de(3) this de(5)]
  obtain m where m: "l \<le> 8 * m" "8 * m < l + 8" "length (digits e1) = k + m"
    "radix (digits e1) * 2 ^ 31 = 256 ^ m * (radix (digits e) * 2 ^ 31 + y)"
    "-1 \<le> re_rem e1" "re_rem e1 < 256" "re_rem e1 = -1 \<Longrightarrow> written e1 = []"
    unfolding e1_def [symmetric] st(8) by blast
  have w2: "length (written e2) = k + m \<and> radix (written e2) = radix (digits e1)"
  proof (cases "0 \<le> re_rem e1 \<or> 0 < re_ext e1")
    case True
    then have e2: "e2 = re_carry_out 0 e1" by (simp add: e2_def)
    note co = carry_out [OF err2 [unfolded e2] room1 m(5,6,7), folded e2]
    have "re_rem e2 = 0" "re_ext e2 = 0" by (simp_all add: e2 re_carry_out_def Let_def)
    then have "digits e2 = written e2 @ [0]" by (simp add: digits_def)
    then show ?thesis using co(2,3) m(3) by simp
  next
    case False
    then have "re_rem e1 = -1" "re_ext e1 = 0" "e2 = e1" using m(5) by (auto simp: e2_def)
    then show ?thesis using m(3,7) by (simp add: digits_def)
  qed
  have z: "take (re_offs e3) (zero_gap e3) = take (re_offs e3) (re_buf e3)" "length (zero_gap e3) = length (re_buf e3)"
    using zero_gap_keeps [OF fl(2)] by simp_all
  have final: "written (re_done e) = written e3 \<and> re_offs (re_done e) = re_offs e3 \<and> length (re_buf (re_done e)) = length (re_buf e3)"
  proof -
    have "re_offs e3 \<le> pos" if "\<not> length (re_buf e4) - re_offs e4 \<le> re_end_offs e4"
      using that by (simp add: pos_def e4_def)
    then show ?thesis using err z unfolding run by (auto simp: e4_def written_def split: if_splits)
  qed
  have offs: "re_offs e3 = k + m" "re_offs e3 \<le> length (re_buf e3)"
    using w2 fl(2) by (simp_all add: written_def room_def fl(1) [unfolded written_def, symmetric])
  have "written (re_done e) = map uint (take (k + m) (re_buf (re_done e)))" "k + m \<le> length (re_buf (re_done e))"
    using final offs by (simp_all add: written_def)
  moreover have "radix (written (re_done e)) * 2 ^ 31 = 256 ^ m * (radix (digits e) * 2 ^ 31 + y)"
    using final fl(1) w2 m(4) by simp
  moreover have "m \<le> 2" using m(2) de(4) by simp
  moreover have "v \<le> radix (digits e) * 2 ^ 31 + y" "radix (digits e) * 2 ^ 31 + y + 2 ^ (31 - l) \<le> v + re_rng e"
    using de(1,2) st(9) by linarith+
  moreover have "re_err e = 0" using done_bytes_err [OF err1] .
  ultimately show ?thesis using m(1) by blast
qed

text \<open>The bytes that are out decide, whatever follows them.\<close>

lemma done_inside_of:
  assumes e: "enc_at e k v r" and r: "2 ^ 23 < r"
    and err: "re_err (re_done e) = 0" and err0: "re_err e = 0"
    and bs: "take (re_offs (re_done e)) bs = take (re_offs (re_done e)) (re_buf (re_done e))"
  shows "v \<le> code bs (k + 4)" "code bs (k + 4) < v + r"
proof -
  have x: "enc_exact e k v" "re_rng e = r" "r \<le> 2 ^ 31" using e err0 by (simp_all add: enc_at_def)
  let ?w = "radix (written (re_done e))"
  obtain m l y where w0: "written (re_done e) = map uint (take (k + m) (re_buf (re_done e)))" "k + m \<le> length (re_buf (re_done e))"
    and w: "l \<le> 8 * m" "m \<le> 2" "?w * 2 ^ 31 = 256 ^ m * y" "v \<le> y" "y + 2 ^ (31 - l) \<le> v + r"
    using done_written [OF x(1) _ _ err] r x by auto
  have len: "length (take (re_offs (re_done e)) (re_buf (re_done e))) = k + m"
    using arg_cong [OF w0(1), of length] w0(2) by (simp add: written_def)
  then have le: "k + m \<le> re_offs (re_done e)" by simp
  then have "take (k + m) bs = take (k + m) (re_buf (re_done e))"
    using arg_cong [OF bs, of "take (k + m)"] by (simp add: min_absorb1)
  moreover have "k + m \<le> length bs" using arg_cong [OF bs, of length] len by simp
  ultimately have w1: "written (re_done e) = map uint (take (k + m) bs)" "k + m \<le> length bs" using w0(1) by simp_all
  note w = w1 w
  have num: "num bs (k + m) = ?w" using num_radix [OF w(2)] w(1) by simp
  obtain t where t: "num bs (k + m + (4 - m)) = ?w * 256 ^ (4 - m) + t" "0 \<le> t" "t < 256 ^ (4 - m)"
    using num_more [of bs "k + m" "4 - m"] unfolding num by blast
  have k4: "k + m + (4 - m) = k + 4" using w(4) by simp
  have "code bs (k + 4) = (?w * 256 ^ (4 - m) + t) div 2" using t(1) unfolding k4 by (simp add: code_def)
  moreover have pow: "(2 :: int) ^ (31 - 8 * m) \<le> 2 ^ (31 - l)" using w(3) by (intro power_increasing) simp_all
  moreover have half: "(?w * 256 ^ (4 - m) + t) div 2 = y + t div 2 \<and> t div 2 < 2 ^ (31 - 8 * m)"
  proof -
    have half: "(2 * y + t) div 2 = y + t div 2" by simp
    have pw: "?w * 256 ^ (4 - m) = 2 * y \<and> (256 :: int) ^ (4 - m) = 2 * 2 ^ (31 - 8 * m)"
    proof -
      consider "m = 0" | "m = 1" | "m = 2" using w(4) by linarith
      then show ?thesis using w(5) by cases simp_all
    qed
    have "t < 2 * 2 ^ (31 - 8 * m)" using t(3) unfolding conjunct2 [OF pw] .
    then show ?thesis unfolding conjunct1 [OF pw] half by simp
  qed
  ultimately have "code bs (k + 4) = y + t div 2" "t div 2 < 2 ^ (31 - 8 * m)" by simp_all
  moreover have "0 \<le> t div 2" using t(2) by simp
  ultimately show "v \<le> code bs (k + 4)" "code bs (k + 4) < v + r" using w(6,7) pow by linarith+
qed

lemmas done_inside = done_inside_of [OF _ _ _ _ refl]

end
