(* ===== verification/MlowSymbols.thy ===== *)
theory MlowSymbols
  imports MlowRoundtrip
begin

text \<open>
  EncodeCDF and DecodeCDF, and sequences of them: what is encoded is decoded again, and a decoder
  gets through any bytes.
\<close>

section \<open>Symbols there and back\<close>

text \<open>The fields of a frame: a symbol of a table, or raw bits off the range.\<close>

datatype coder_field = Table "int list" | Raw nat

fun encode_item :: "int \<Rightarrow> coder_field \<Rightarrow> range_encoder \<Rightarrow> range_encoder option" where
  "encode_item s (Table cdf) e = re_encode_cdf s cdf e"
| "encode_item s (Raw n) e = re_raw_symbol s n e"

fun decode_item :: "coder_field \<Rightarrow> range_decoder \<Rightarrow> (range_decoder \<times> int) option" where
  "decode_item (Table cdf) d = rd_decode_cdf cdf d"
| "decode_item (Raw n) d = rd_raw_symbol n d"

fun encode_items :: "(int \<times> coder_field) list \<Rightarrow> range_encoder \<Rightarrow> range_encoder option" where
  "encode_items [] e = Some e"
| "encode_items ((s, f) # sc) e = (case encode_item s f e of None \<Rightarrow> None | Some e1 \<Rightarrow> encode_items sc e1)"

fun decode_items :: "coder_field list \<Rightarrow> range_decoder \<Rightarrow> (range_decoder \<times> int list) option" where
  "decode_items [] d = Some (d, [])"
| "decode_items (f # fs) d =
     (case decode_item f d of
        None \<Rightarrow> None
      | Some (d1, s) \<Rightarrow> map_option (\<lambda>(d2, ss). (d2, s # ss)) (decode_items fs d1))"

text \<open>A table of cumulative frequencies, as uint16.\<close>

definition cdf_table :: "int list \<Rightarrow> bool" where
  "cdf_table cdf \<longleftrightarrow> sorted cdf \<and> (\<forall>c \<in> set cdf. 0 \<le> c \<and> c < 2 ^ 16)"

definition has_symbol :: "int list \<Rightarrow> int \<Rightarrow> bool" where
  "has_symbol cdf s \<longleftrightarrow> 0 \<le> s \<and> s + 1 < int (length cdf) \<and> cdf ! nat s < cdf ! (nat s + 1)"

lemma table_entry: "cdf_table cdf \<Longrightarrow> i < length cdf \<Longrightarrow> 0 \<le> cdf ! i \<and> cdf ! i < 2 ^ 16"
  by (simp add: cdf_table_def)

lemma table_mono: "cdf_table cdf \<Longrightarrow> i \<le> j \<Longrightarrow> j < length cdf \<Longrightarrow> cdf ! i \<le> cdf ! j"
  by (simp add: cdf_table_def sorted_nth_mono)

lemma cdf_find_symbol:
  assumes "cdf_table cdf" "i + 1 < length cdf" "cdf ! i \<le> target" "target < cdf ! (i + 1)" "k \<le> i"
  shows "cdf_find cdf target k = i"
  using assms(5)
proof (induction "i - k" arbitrary: k)
  case 0
  then show ?case using assms(4) by (simp add: cdf_find.simps [of cdf target k])
next
  case (Suc m)
  then have k: "k < length cdf - 1" "k + 1 \<le> i" using assms(2) by linarith+
  then have "cdf ! (k + 1) \<le> cdf ! i" using assms(1,2) by (intro table_mono) simp_all
  then have "cdf_find cdf target k = cdf_find cdf target (k + 1)"
    using assms(3) k by (simp add: cdf_find.simps [of cdf target k])
  also have "\<dots> = i" using Suc by simp
  finally show ?case .
qed

text \<open>The loop of DecodeCDF finds an entry of any table, sorted or not.\<close>

lemma cdf_find_entry:
  assumes "cdf ! k \<le> target" "k < length cdf" "target < cdf ! (length cdf - 1)"
  shows "cdf_find cdf target k + 1 < length cdf \<and> cdf ! cdf_find cdf target k \<le> target
    \<and> target < cdf ! (cdf_find cdf target k + 1)"
  using assms
proof (induction cdf target k rule: cdf_find.induct)
  case (1 cdf target k)
  show ?case
  proof (cases "k < length cdf - 1 \<and> cdf ! (k + 1) \<le> target")
    case True
    then have "k + 1 < length cdf" by linarith
    moreover have "cdf_find cdf target k = cdf_find cdf target (k + 1)"
      using True by (simp add: cdf_find.simps [of cdf target k])
    ultimately have "k + 1 < length cdf" "cdf_find cdf target k = cdf_find cdf target (k + 1)" by simp_all
    then show ?thesis using 1(1) [OF True] 1(4) True by simp
  next
    case False
    then have "cdf_find cdf target k = k" using cdf_find.simps [of cdf target k] by (simp only: if_False)
    moreover have "k \<noteq> length cdf - 1" using 1(2,4) by auto
    ultimately show ?thesis using False 1(2,3) by auto
  qed
qed

section \<open>One symbol\<close>

definition cdf_low :: "int list \<Rightarrow> int \<Rightarrow> int" where "cdf_low cdf s = cdf ! nat s - cdf ! 0"
definition cdf_high :: "int list \<Rightarrow> int \<Rightarrow> int" where "cdf_high cdf s = cdf ! (nat s + 1) - cdf ! 0"
definition cdf_total :: "int list \<Rightarrow> int" where "cdf_total cdf = cdf ! (length cdf - 1) - cdf ! 0"

lemma symbol_part:
  assumes t: "cdf_table cdf" and s: "has_symbol cdf s"
  shows "symbol_ok (cdf_low cdf s) (cdf_high cdf s) (cdf_total cdf)" "2 \<le> length cdf" "0 < cdf_total cdf"
    "u32_of (cdf_low cdf s) = cdf_low cdf s" "u32_of (cdf_high cdf s) = cdf_high cdf s"
proof -
  have i: "nat s + 1 < length cdf" "cdf ! nat s < cdf ! (nat s + 1)" using s by (auto simp: has_symbol_def)
  have le: "cdf ! 0 \<le> cdf ! nat s" "cdf ! (nat s + 1) \<le> cdf ! (length cdf - 1)" using t i(1) by (auto intro: table_mono)
  have ne: "0 < length cdf" "length cdf - 1 < length cdf" using i(1) by linarith+
  have range: "0 \<le> cdf ! 0" "cdf ! (length cdf - 1) < 2 ^ 16"
    using table_entry [OF t, of 0] table_entry [OF t, of "length cdf - 1"] ne by simp_all
  show "symbol_ok (cdf_low cdf s) (cdf_high cdf s) (cdf_total cdf)" "0 < cdf_total cdf"
    using i(2) le range by (simp_all add: symbol_ok_def cdf_low_def cdf_high_def cdf_total_def)
  show "2 \<le> length cdf" using i(1) by simp
  show "u32_of (cdf_low cdf s) = cdf_low cdf s" "u32_of (cdf_high cdf s) = cdf_high cdf s"
    using i(2) le range by (auto simp: cdf_low_def cdf_high_def intro!: u32_id)
qed

lemma encode_symbol:
  assumes "cdf_table cdf" "has_symbol cdf s"
  shows "re_encode_cdf s cdf e = re_encode (cdf_low cdf s) (cdf_high cdf s) (cdf_total cdf) e"
  using symbol_part [OF assms] assms(2)
  by (simp add: re_encode_cdf_def Let_def cdf_low_def [symmetric] cdf_high_def [symmetric, simplified]
      cdf_total_def has_symbol_def)

text \<open>DecodeCDF at any table that has an entry.\<close>

lemma decode_symbol:
  assumes d: "dec_at bs d n v r" and r: "2 ^ 23 < r" and t: "cdf_table cdf" and n: "2 \<le> length cdf" "0 < cdf_total cdf"
  obtains s d' p where "rd_decode_cdf cdf d = Some (d', s)" "has_symbol cdf s" "rd_err d' = rd_err d"
    "p = part_size r (cdf_low cdf s) (cdf_high cdf s) (cdf_total cdf)"
    "dec_at bs d' (n + shifts p) ((v + part_low r (cdf_low cdf s) (cdf_high cdf s) (cdf_total cdf)) * 256 ^ shifts p)
       (p * 256 ^ shifts p)"
    "\<forall>s'. has_symbol cdf s' \<longrightarrow> v + part_low r (cdf_low cdf s') (cdf_high cdf s') (cdf_total cdf) \<le> code bs n \<longrightarrow>
      code bs n < v + part_low r (cdf_low cdf s') (cdf_high cdf s') (cdf_total cdf)
         + part_size r (cdf_low cdf s') (cdf_high cdf s') (cdf_total cdf) \<longrightarrow> s' = s"
proof -
  let ?base = "cdf ! 0" and ?ft = "cdf_total cdf"
  have ne: "0 < length cdf" "length cdf - 1 < length cdf" using n(1) by linarith+
  have ends: "0 \<le> ?base" "cdf ! (length cdf - 1) < 2 ^ 16"
    using table_entry [OF t, of 0] table_entry [OF t, of "length cdf - 1"] ne by simp_all
  then have "?ft \<le> 2 ^ 23" by (simp add: cdf_total_def)
  from decode_part [OF d r n(2) this]
  obtain fs where fs: "rd_decode ?ft d = (d\<lparr>rd_ext := r div ?ft\<rparr>, fs)" "0 \<le> fs" "fs < ?ft"
    "\<And>fl fh. symbol_ok fl fh ?ft \<Longrightarrow> (fl \<le> fs \<and> fs < fh \<longleftrightarrow> v + part_low r fl fh ?ft \<le> code bs n
       \<and> code bs n < v + part_low r fl fh ?ft + part_size r fl fh ?ft)" by blast
  have target: "u32_of (?base + fs) = ?base + fs" using ends fs(2,3) by (intro u32_id) (simp_all add: cdf_total_def)
  define i where "i = cdf_find cdf (?base + fs) 0"
  have "?base + fs < cdf ! (length cdf - 1)" using fs(3) by (simp add: cdf_total_def)
  then have i: "i + 1 < length cdf" "cdf ! i \<le> ?base + fs" "?base + fs < cdf ! (i + 1)"
    using cdf_find_entry [of cdf 0 "?base + fs"] ne fs(2) unfolding i_def by auto
  define s where "s = int i"
  have s: "has_symbol cdf s" using i by (simp add: has_symbol_def s_def)
  note sp = symbol_part [OF t s]
  have part: "cdf_low cdf s \<le> fs \<and> fs < cdf_high cdf s" using i by (simp add: cdf_low_def cdf_high_def s_def)
  then have inside: "v + part_low r (cdf_low cdf s) (cdf_high cdf s) ?ft \<le> code bs n"
    "code bs n < v + part_low r (cdf_low cdf s) (cdf_high cdf s) ?ft + part_size r (cdf_low cdf s) (cdf_high cdf s) ?ft"
    using fs(4) [OF sp(1)] by simp_all
  let ?d = "d\<lparr>rd_ext := r div ?ft\<rparr>"
  have d1: "dec_at bs ?d n v r" "rd_ext ?d = r div ?ft" using d by (simp_all add: dec_at_def)
  define p where "p = part_size r (cdf_low cdf s) (cdf_high cdf s) ?ft"
  obtain d' where d': "rd_update (cdf_low cdf s) (cdf_high cdf s) ?ft ?d = Some d'" "rd_err d' = rd_err d"
    "dec_at bs d' (n + shifts p) ((v + part_low r (cdf_low cdf s) (cdf_high cdf s) ?ft) * 256 ^ shifts p) (p * 256 ^ shifts p)"
    using update_part [OF d1(1) r sp(1) d1(2) inside] unfolding p_def by auto
  have c1: "\<not> (length cdf < 2 \<or> cdf ! (length cdf - 1) \<le> cdf ! 0)" using n by (simp add: cdf_total_def)
  have c2: "\<not> length cdf \<le> i + 1" using i(1) by simp
  have lh: "cdf ! i - ?base = cdf_low cdf s" "cdf ! (i + 1) - ?base = cdf_high cdf s"
    by (simp_all add: cdf_low_def cdf_high_def s_def)
  have run: "rd_decode_cdf cdf d = Some (d', s)"
    unfolding rd_decode_cdf_def Let_def if_not_P [OF c1] cdf_total_def [of cdf, symmetric] fs(1) prod.case target
      i_def [symmetric] if_not_P [OF c2] lh sp(4,5) d'(1)
    by (simp add: s_def)
  have "s' = s" if s': "has_symbol cdf s'"
    "v + part_low r (cdf_low cdf s') (cdf_high cdf s') ?ft \<le> code bs n"
    "code bs n < v + part_low r (cdf_low cdf s') (cdf_high cdf s') ?ft + part_size r (cdf_low cdf s') (cdf_high cdf s') ?ft" for s'
  proof -
    have "cdf_low cdf s' \<le> fs \<and> fs < cdf_high cdf s'" using fs(4) [OF symbol_part(1) [OF t s'(1)]] s'(2,3) by simp
    then have "cdf_find cdf (?base + fs) 0 = nat s'"
      using s'(1) by (intro cdf_find_symbol [OF t]) (auto simp: cdf_low_def cdf_high_def has_symbol_def)
    then show ?thesis using s'(1) by (simp add: s_def i_def has_symbol_def)
  qed
  then show thesis using that [OF run s d'(2) p_def d'(3)] by blast
qed

section \<open>Any field\<close>

definition raw_bits_ok :: "nat \<Rightarrow> bool" where "raw_bits_ok n \<longleftrightarrow> n \<le> 23"

fun field_ok :: "coder_field \<Rightarrow> bool" where
  "field_ok (Table cdf) \<longleftrightarrow> cdf_table cdf \<and> 2 \<le> length cdf \<and> 0 < cdf_total cdf"
| "field_ok (Raw n) \<longleftrightarrow> raw_bits_ok n"

fun in_field :: "coder_field \<Rightarrow> int \<Rightarrow> bool" where
  "in_field (Table cdf) s \<longleftrightarrow> has_symbol cdf s"
| "in_field (Raw n) s \<longleftrightarrow> 0 \<le> s \<and> s < 2 ^ n"

fun field_low :: "coder_field \<Rightarrow> int \<Rightarrow> int" where
  "field_low (Table cdf) s = cdf_low cdf s"
| "field_low (Raw n) s = s"

fun field_high :: "coder_field \<Rightarrow> int \<Rightarrow> int" where
  "field_high (Table cdf) s = cdf_high cdf s"
| "field_high (Raw n) s = s + 1"

fun field_total :: "coder_field \<Rightarrow> int" where
  "field_total (Table cdf) = cdf_total cdf"
| "field_total (Raw n) = 2 ^ n"

lemma raw_total: "raw_bits_ok n \<Longrightarrow> (0 :: int) < 2 ^ n" "raw_bits_ok n \<Longrightarrow> (2 :: int) ^ n \<le> 2 ^ 23"
  "raw_bits_ok n \<Longrightarrow> u32_of (push_bit n 1) = 2 ^ n"
proof -
  assume n: "raw_bits_ok n"
  show le: "(2 :: int) ^ n \<le> 2 ^ 23" using n by (intro power_increasing) (simp_all add: raw_bits_ok_def)
  then show "u32_of (push_bit n 1) = 2 ^ n" by (simp add: u32_id push_bit_eq_mult)
qed simp

lemma field_part:
  assumes "field_ok f" "in_field f s"
  shows "symbol_ok (field_low f s) (field_high f s) (field_total f)"
  using assms symbol_part(1) raw_total by (cases f) (auto simp: symbol_ok_def)

lemma encode_field_run:
  assumes "field_ok f" "in_field f s"
  shows "encode_item s f e = re_encode (field_low f s) (field_high f s) (field_total f) e"
proof (cases f)
  case (Table cdf)
  then show ?thesis using assms encode_symbol by simp
next
  case (Raw n)
  then have "s + 1 \<le> 2 ^ 23" "0 \<le> s" using assms raw_total(2) [of n] by auto
  then show ?thesis using assms Raw raw_total(3) [of n] by (simp add: re_raw_symbol_def u32_id)
qed

lemma decode_bin:
  assumes "raw_bits_ok n"
  shows "rd_decode_bin n d = rd_decode (2 ^ n) d"
  unfolding rd_decode_bin_def rd_decode_def drop_bit_eq_div raw_total(3) [OF assms] Let_def by simp

lemma decode_any:
  assumes d: "dec_at bs d n v r" and r: "2 ^ 23 < r" and f: "field_ok f"
  obtains s d' p where "decode_item f d = Some (d', s)" "in_field f s" "rd_err d' = rd_err d"
    "p = part_size r (field_low f s) (field_high f s) (field_total f)"
    "dec_at bs d' (n + shifts p) ((v + part_low r (field_low f s) (field_high f s) (field_total f)) * 256 ^ shifts p)
       (p * 256 ^ shifts p)"
    "\<forall>s'. in_field f s' \<longrightarrow> v + part_low r (field_low f s') (field_high f s') (field_total f) \<le> code bs n \<longrightarrow>
      code bs n < v + part_low r (field_low f s') (field_high f s') (field_total f)
         + part_size r (field_low f s') (field_high f s') (field_total f) \<longrightarrow> s' = s"
proof (cases f)
  case (Table cdf)
  then have t: "cdf_table cdf" "2 \<le> length cdf" "0 < cdf_total cdf" using f by simp_all
  obtain s d' p where o: "rd_decode_cdf cdf d = Some (d', s)" "has_symbol cdf s" "rd_err d' = rd_err d"
    "p = part_size r (cdf_low cdf s) (cdf_high cdf s) (cdf_total cdf)"
    "dec_at bs d' (n + shifts p) ((v + part_low r (cdf_low cdf s) (cdf_high cdf s) (cdf_total cdf)) * 256 ^ shifts p)
       (p * 256 ^ shifts p)"
    "\<forall>s'. has_symbol cdf s' \<longrightarrow> v + part_low r (cdf_low cdf s') (cdf_high cdf s') (cdf_total cdf) \<le> code bs n \<longrightarrow>
      code bs n < v + part_low r (cdf_low cdf s') (cdf_high cdf s') (cdf_total cdf)
         + part_size r (cdf_low cdf s') (cdf_high cdf s') (cdf_total cdf) \<longrightarrow> s' = s"
    by (rule decode_symbol [OF d r t])
  show thesis
  proof (rule that)
    show "decode_item f d = Some (d', s)" "in_field f s" "rd_err d' = rd_err d"
      "p = part_size r (field_low f s) (field_high f s) (field_total f)"
      "dec_at bs d' (n + shifts p) ((v + part_low r (field_low f s) (field_high f s) (field_total f)) * 256 ^ shifts p)
         (p * 256 ^ shifts p)" using o(1-5) by (simp_all add: Table)
    show "\<forall>s'. in_field f s' \<longrightarrow> v + part_low r (field_low f s') (field_high f s') (field_total f) \<le> code bs n \<longrightarrow>
      code bs n < v + part_low r (field_low f s') (field_high f s') (field_total f)
         + part_size r (field_low f s') (field_high f s') (field_total f) \<longrightarrow> s' = s"
      using o(6) by (simp add: Table)
  qed
next
  case (Raw k)
  then have k: "raw_bits_ok k" using f by simp
  note total = raw_total(1,2) [OF k] raw_total(3)
  from decode_part [OF d r total(1,2)]
  obtain s where s: "rd_decode (2 ^ k) d = (d\<lparr>rd_ext := r div 2 ^ k\<rparr>, s)" "0 \<le> s" "s < 2 ^ k"
    "\<And>fl fh. symbol_ok fl fh (2 ^ k) \<Longrightarrow> (fl \<le> s \<and> s < fh \<longleftrightarrow> v + part_low r fl fh (2 ^ k) \<le> code bs n
       \<and> code bs n < v + part_low r fl fh (2 ^ k) + part_size r fl fh (2 ^ k))" by blast
  have ok: "symbol_ok s (s + 1) (2 ^ k)" using s(2,3) total(2) by (simp add: symbol_ok_def)
  let ?d = "d\<lparr>rd_ext := r div 2 ^ k\<rparr>"
  have d1: "dec_at bs ?d n v r" "rd_ext ?d = r div 2 ^ k" using d by (simp_all add: dec_at_def)
  define p where "p = part_size r s (s + 1) (2 ^ k)"
  obtain d' where d': "rd_update s (s + 1) (2 ^ k) ?d = Some d'" "rd_err d' = rd_err d"
    "dec_at bs d' (n + shifts p) ((v + part_low r s (s + 1) (2 ^ k)) * 256 ^ shifts p) (p * 256 ^ shifts p)"
    using update_part [OF d1(1) r ok d1(2)] s(4) [OF ok] unfolding p_def by auto
  have s1: "u32_of (s + 1) = s + 1" using s(2,3) total(2) by (simp add: u32_id)
  have run: "decode_item f d = Some (d', s)"
    unfolding Raw decode_item.simps rd_raw_symbol_def decode_bin [OF k] s(1) Let_def prod.case s1 total(3) [OF k] d'(1) by simp
  have same: "\<forall>s'. in_field f s' \<longrightarrow> v + part_low r (field_low f s') (field_high f s') (field_total f) \<le> code bs n \<longrightarrow>
      code bs n < v + part_low r (field_low f s') (field_high f s') (field_total f)
         + part_size r (field_low f s') (field_high f s') (field_total f) \<longrightarrow> s' = s"
  proof (intro allI impI)
    fix s'
    assume a: "in_field f s'" "v + part_low r (field_low f s') (field_high f s') (field_total f) \<le> code bs n"
      "code bs n < v + part_low r (field_low f s') (field_high f s') (field_total f)
         + part_size r (field_low f s') (field_high f s') (field_total f)"
    have "s' \<le> s \<and> s < s' + 1" using s(4) [of s' "s' + 1"] field_part [OF f a(1)] a(2,3) by (simp add: Raw)
    then show "s' = s" by simp
  qed
  have inf: "in_field f s" using s(2,3) by (simp add: Raw)
  have pf: "p = part_size r (field_low f s) (field_high f s) (field_total f)" by (simp add: Raw p_def)
  have at: "dec_at bs d' (n + shifts p) ((v + part_low r (field_low f s) (field_high f s) (field_total f)) * 256 ^ shifts p)
         (p * 256 ^ shifts p)" using d'(3) by (simp add: Raw)
  show thesis by (rule that [OF run inf d'(2) pf at same])
qed

section \<open>Sequences\<close>

lemma code_more: "0 < n \<Longrightarrow> \<exists>t. code bs (n + i) = code bs n * 256 ^ i + t \<and> 0 \<le> t \<and> t < 256 ^ i"
proof (induction i)
  case (Suc i)
  then obtain t where t: "code bs (n + i) = code bs n * 256 ^ i + t" "0 \<le> t" "t < 256 ^ i" by blast
  obtain m where m: "n + i = Suc m" using Suc.prems by (cases "n + i") simp_all
  let ?y = "((256 * byte_val bs m + byte_val bs (Suc m)) div 2) mod 256"
  have "code bs (n + Suc i) = 256 * code bs (n + i) + ?y" using code_Suc [of bs m] m by simp
  then have "code bs (n + Suc i) = code bs n * 256 ^ Suc i + (256 * t + ?y)" by (simp add: t(1))
  moreover have "0 \<le> ?y" "?y < 256" by simp_all
  then have "0 \<le> 256 * t + ?y" "256 * t + ?y < 256 ^ Suc i" using t(2,3) unfolding power_Suc by linarith+
  ultimately show ?case by blast
qed simp

lemma code_back:
  assumes "0 < n" and "v * 256 ^ i \<le> code bs (n + i)" "code bs (n + i) < v * 256 ^ i + r * 256 ^ i"
  shows "v \<le> code bs n" "code bs n < v + r"
proof -
  obtain t where t: "code bs (n + i) = code bs n * 256 ^ i + t" "0 \<le> t" "t < 256 ^ i"
    using code_more [OF assms(1)] by blast
  have "v * 256 ^ i < (code bs n + 1) * 256 ^ i" using assms(2) t unfolding distrib_right by linarith
  then show "v \<le> code bs n" by simp
  have "code bs n * 256 ^ i < (v + r) * 256 ^ i" using assms(3) t unfolding distrib_right by linarith
  then show "code bs n < v + r" by simp
qed

lemma encode_decode:
  assumes "enc_at e k v r" "2 ^ 23 < r" "\<forall>(s, f) \<in> set sc. field_ok f \<and> in_field f s"
  shows "\<exists>e' k' v' r'. encode_items sc e = Some e' \<and> enc_at e' k' v' r' \<and> 2 ^ 23 < r'
    \<and> (\<forall>bs. v' \<le> code bs (k' + 4) \<longrightarrow> code bs (k' + 4) < v' + r' \<longrightarrow> v \<le> code bs (k + 4) \<and> code bs (k + 4) < v + r
        \<and> (\<forall>d. dec_at bs d (k + 4) v r \<longrightarrow> (\<exists>d'. decode_items (map snd sc) d = Some (d', map fst sc)
             \<and> dec_at bs d' (k' + 4) v' r' \<and> rd_err d' = rd_err d)))"
  using assms
proof (induction sc arbitrary: e k v r)
  case Nil
  then show ?case by (intro exI [of _ e] exI [of _ k] exI [of _ v] exI [of _ r]) simp
next
  case (Cons p sc)
  obtain s f where p: "p = (s, f)" by (cases p)
  have t: "field_ok f" "in_field f s" using Cons.prems(3) p by auto
  note sp = field_part [OF t]
  define q where "q = part_size r (field_low f s) (field_high f s) (field_total f)"
  define v1 where "v1 = v + part_low r (field_low f s) (field_high f s) (field_total f)"
  define n where "n = shifts q"
  note pr = part_range [OF Cons.prems(2) sp, folded q_def]
  have r31: "r \<le> 2 ^ 31" using Cons.prems(1) by (simp add: enc_at_def)
  have q: "2 ^ 23 < q * 256 ^ n" using shifts_range(1) [of q] pr(1,2) r31 by (simp add: n_def)
  obtain e1 where e1: "encode_item s f e = Some e1" "enc_at e1 (k + n) (v1 * 256 ^ n) (q * 256 ^ n)"
    using encode_part [OF Cons.prems(1,2) sp] unfolding encode_field_run [OF t] q_def v1_def n_def by blast
  have "\<forall>(s, f) \<in> set sc. field_ok f \<and> in_field f s" using Cons.prems(3) by simp
  from Cons.IH [OF e1(2) q this]
  obtain e' k' v' r' where ih: "encode_items sc e1 = Some e'" "enc_at e' k' v' r'" "2 ^ 23 < r'"
    "\<And>bs. v' \<le> code bs (k' + 4) \<Longrightarrow> code bs (k' + 4) < v' + r' \<Longrightarrow>
      v1 * 256 ^ n \<le> code bs (k + n + 4) \<and> code bs (k + n + 4) < v1 * 256 ^ n + q * 256 ^ n
        \<and> (\<forall>d. dec_at bs d (k + n + 4) (v1 * 256 ^ n) (q * 256 ^ n) \<longrightarrow> (\<exists>d'. decode_items (map snd sc) d = Some (d', map fst sc)
             \<and> dec_at bs d' (k' + 4) v' r' \<and> rd_err d' = rd_err d))" by blast
  have kn: "k + n + 4 = k + 4 + n" by simp
  have "v \<le> code bs (k + 4) \<and> code bs (k + 4) < v + r
        \<and> (\<forall>d. dec_at bs d (k + 4) v r \<longrightarrow> (\<exists>d'. decode_items (map snd (p # sc)) d = Some (d', map fst (p # sc))
             \<and> dec_at bs d' (k' + 4) v' r' \<and> rd_err d' = rd_err d))"
    if bs: "v' \<le> code bs (k' + 4)" "code bs (k' + 4) < v' + r'" for bs
  proof -
    note rest = ih(4) [OF bs]
    have inside: "v1 \<le> code bs (k + 4)" "code bs (k + 4) < v1 + q"
      using code_back [of "k + 4" v1 n bs q] rest unfolding kn by simp_all
    then have "v \<le> code bs (k + 4)" "code bs (k + 4) < v + r" using pr(3,4) by (simp_all add: v1_def q_def)
    moreover have "\<exists>d'. decode_items (map snd (p # sc)) d = Some (d', map fst (p # sc))
        \<and> dec_at bs d' (k' + 4) v' r' \<and> rd_err d' = rd_err d" if d: "dec_at bs d (k + 4) v r" for d
    proof -
      obtain s1 d1 q1 where d1: "decode_item f d = Some (d1, s1)" "rd_err d1 = rd_err d"
        "q1 = part_size r (field_low f s1) (field_high f s1) (field_total f)"
        "dec_at bs d1 (k + 4 + shifts q1) ((v + part_low r (field_low f s1) (field_high f s1) (field_total f)) * 256 ^ shifts q1)
           (q1 * 256 ^ shifts q1)" "s = s1"
        using decode_any [OF d Cons.prems(2) t(1)] inside t(2) unfolding v1_def q_def by metis
      have "dec_at bs d1 (k + n + 4) (v1 * 256 ^ n) (q * 256 ^ n)"
        using d1(4) unfolding d1(5) [symmetric] d1(3) v1_def n_def q_def by (simp only: add_ac)
      then obtain d' where "decode_items (map snd sc) d1 = Some (d', map fst sc)" "dec_at bs d' (k' + 4) v' r'"
        "rd_err d' = rd_err d1" using rest by blast
      then show ?thesis using d1(1,2,5) by (simp add: p)
    qed
    ultimately show ?thesis by blast
  qed
  moreover have "encode_items (p # sc) e = Some e'" using e1(1) ih(1) by (simp add: p)
  ultimately show ?case using ih(2,3) by blast
qed

section \<open>Room\<close>

text \<open>How many bytes are out or pending; that many fit.\<close>

definition pending :: "range_encoder \<Rightarrow> nat" where
  "pending e = re_offs e + (if 0 \<le> re_rem e then 1 else 0) + re_ext e"

definition fits :: "nat \<Rightarrow> nat \<Rightarrow> range_encoder \<Rightarrow> bool" where
  "fits n k e \<longleftrightarrow> re_err e = 0 \<and> re_end_offs e = 0 \<and> re_nend_bits e = 0 \<and> length (re_buf e) = n \<and> pending e \<le> k"

lemma fits_mono: "fits n k e \<Longrightarrow> k \<le> k' \<Longrightarrow> fits n k' e"
  by (simp add: fits_def)

lemma fits_writes:
  "re_err e = 0 \<Longrightarrow> re_end_offs e = 0 \<Longrightarrow> re_offs e + j \<le> length (re_buf e) \<Longrightarrow>
    re_err ((re_write_byte b ^^ j) e) = 0 \<and> re_end_offs ((re_write_byte b ^^ j) e) = 0
    \<and> length (re_buf ((re_write_byte b ^^ j) e)) = length (re_buf e) \<and> re_offs ((re_write_byte b ^^ j) e) = re_offs e + j
    \<and> re_ext ((re_write_byte b ^^ j) e) = re_ext e \<and> re_nend_bits ((re_write_byte b ^^ j) e) = re_nend_bits e"
  by (induction j) (auto simp: re_write_byte_def)

lemma fits_carry:
  assumes e: "fits n k e" and k: "k \<le> n"
  shows "fits n (Suc k) (re_carry_out c e)"
proof (cases "c = 255")
  case True
  then show ?thesis using e by (simp add: re_carry_out_def fits_def pending_def)
next
  case False
  define e1 where "e1 = (if 0 \<le> re_rem e then re_write_byte (re_rem e + drop_bit 8 c) e else e)"
  have e1: "re_err e1 = 0" "re_end_offs e1 = 0" "length (re_buf e1) = n" "re_ext e1 = re_ext e" "re_nend_bits e1 = 0"
    "re_offs e1 = re_offs e + (if 0 \<le> re_rem e then 1 else 0)"
    using e k fits_writes [of e 1] by (auto simp: e1_def fits_def pending_def)
  have "re_offs e1 + re_ext e1 \<le> length (re_buf e1)" using e k by (simp add: e1(3,4,6) fits_def pending_def)
  note w = fits_writes [OF e1(1,2) this]
  have "0 \<le> c AND 255" by (simp add: low_byte)
  then show ?thesis using False w e e1 by (simp add: re_carry_out_def Let_def e1_def [symmetric] fits_def pending_def)
qed

lemma fits_shift: "fits n k e \<Longrightarrow> k \<le> n \<Longrightarrow> fits n (Suc k) (re_shift e)"
  using fits_carry [of n k e "drop_bit 23 (re_val e)"] by (simp add: re_shift_def Let_def fits_def pending_def)

lemma fits_normalize:
  assumes "fits n k e" "k + 2 \<le> n" "0 < re_rng e" "re_normalize e = Some e'"
  shows "fits n (k + 3) e'"
proof -
  have "fits n (k + i) ((re_shift ^^ i) e)" if "i \<le> 3" for i
    using that
  proof (induction i)
    case (Suc i)
    then show ?case using fits_shift [of n "k + i" "(re_shift ^^ i) e"] assms(2) by simp
  qed (use assms(1) in simp)
  moreover have "shifts (re_rng e) \<le> 3" by (simp add: shifts_def)
  moreover have "e' = (re_shift ^^ shifts (re_rng e)) e"
    using encoder.normalises [OF assms(3)] assms(4) by (simp add: re_normalize_def)
  ultimately show ?thesis using fits_mono by (metis add_left_mono)
qed

lemma fits_encode:
  assumes "fits n k e" "k + 2 \<le> n" "re_rng e = r" "2 ^ 23 < r" "r \<le> 2 ^ 31" "symbol_ok fl fh ft" "re_encode fl fh ft e = Some e'"
  shows "fits n (k + 3) e'"
  using fits_normalize [OF _ assms(2) _ assms(7) [unfolded encode_run [OF assms(4-6,3)]]] part_range(1) [OF assms(4,6)] assms(1)
  by (simp add: fits_def pending_def)

lemma fits_fields:
  assumes "enc_at e j v r" "2 ^ 23 < r" "\<forall>(s, f) \<in> set sc. field_ok f \<and> in_field f s" "encode_items sc e = Some e'"
    "fits n k e" "k + 3 * length sc \<le> n"
  shows "fits n (k + 3 * length sc) e'"
  using assms
proof (induction sc arbitrary: e j v r k)
  case (Cons p sc)
  obtain s f where p: "p = (s, f)" by (cases p)
  have t: "field_ok f" "in_field f s" using Cons.prems(3) p by auto
  note sp = field_part [OF t]
  define q where "q = part_size r (field_low f s) (field_high f s) (field_total f)"
  have r: "re_rng e = r" "r \<le> 2 ^ 31" using Cons.prems(1) by (simp_all add: enc_at_def)
  obtain e1 where e1: "encode_item s f e = Some e1" "encode_items sc e1 = Some e'"
    using Cons.prems(4) by (auto simp: p split: option.splits)
  obtain j1 v1 where at: "enc_at e1 j1 v1 (q * 256 ^ shifts q)"
    using encode_part [OF Cons.prems(1,2) sp] e1(1) unfolding encode_field_run [OF t] q_def by auto
  have q: "2 ^ 23 < q * 256 ^ shifts q"
    using shifts_range(1) [of q] part_range(1,2) [OF Cons.prems(2) sp, folded q_def] r(2) by simp
  have "fits n (k + 3) e1"
    using fits_encode [OF Cons.prems(5) _ r(1) Cons.prems(2) r(2) sp] e1(1) Cons.prems(6)
    unfolding encode_field_run [OF t] by simp
  from Cons.IH [OF at q _ e1(2) this] Cons.prems(3,6) show ?case by (simp add: add_ac)
qed simp

lemma fits_done:
  assumes "fits n k e" "k + 2 \<le> n" "2 ^ 23 < re_rng e" "re_rng e \<le> 2 ^ 31" "enc_exact e j v"
  shows "re_err (re_done e) = 0"
proof -
  obtain l y where ly: "done_end (re_val e) (re_rng e) = (l, y)" by (cases "done_end (re_val e) (re_rng e)")
  have v: "0 \<le> re_val e" "re_val e + re_rng e < 2 ^ 32" using assms(5) by (simp_all add: enc_exact_def)
  have l: "l \<le> 9" using done_end(4) [OF assms(3,4) v ly] .
  have bytes: "fits n (k + (l + 7) div 8) (done_bytes l y e)" if "fits n k e" "k + (l + 7) div 8 \<le> n" for l y e k
    using that
  proof (induction l y e arbitrary: k rule: done_bytes.induct)
    case (2 l y e)
    let ?e = "re_carry_out (drop_bit 23 y) e"
    have step: "fits n (Suc k) ?e" using 2(2,3) by (intro fits_carry) simp_all
    have "Suc k + (Suc l - 8 + 7) div 8 \<le> k + (Suc l + 7) div 8" by (cases "8 \<le> l") auto
    with 2(1) [OF step] 2(3) show ?case using fits_mono by (simp del: One_nat_def)
  qed simp
  have "(l + 7) div 8 \<le> 2" using l by simp
  then have e1: "fits n (k + 2) (done_bytes l y e)" using bytes [OF assms(1), of l y] assms(2) fits_mono by simp
  define e2 where "e2 = (if 0 \<le> re_rem (done_bytes l y e) \<or> 0 < re_ext (done_bytes l y e)
      then re_carry_out 0 (done_bytes l y e) else done_bytes l y e)"
  have "fits n (Suc (k + 2)) e2"
    using fits_carry [OF e1 assms(2), of 0] fits_mono [OF e1, of "Suc (k + 2)"] by (simp add: e2_def)
  then have "re_err e2 = 0" "re_nend_bits e2 = 0" by (simp_all add: fits_def)
  moreover have "re_flush e2 (re_end_window e2) 0 = (e2, re_end_window e2, 0)" by (simp add: re_flush.simps [of e2])
  ultimately show ?thesis
    unfolding re_done_def Let_def ly prod.case e2_def [symmetric] by simp
qed

lemma done_err: "re_err (re_done e) = 0 \<Longrightarrow> re_err e = 0"
proof -
  have end_err: "re_err (re_write_byte_at_end b x) = 0 \<Longrightarrow> re_err x = 0" for b x
    by (auto simp: re_write_byte_at_end_def split: if_splits)
  have flush: "re_err (fst (re_flush x w u)) = 0 \<Longrightarrow> re_err x = 0" for x w u
  proof (induction x w u rule: re_flush.induct)
    case (1 x w u)
    then show ?case using end_err by (auto simp: re_flush.simps [of x w u] split: if_splits)
  qed
  obtain l y where ly: "done_end (re_val e) (re_rng e) = (l, y)" by (cases "done_end (re_val e) (re_rng e)")
  define e2 where "e2 = (if 0 \<le> re_rem (done_bytes l y e) \<or> 0 < re_ext (done_bytes l y e)
      then re_carry_out 0 (done_bytes l y e) else done_bytes l y e)"
  obtain e3 window used where e3: "re_flush e2 (re_end_window e2) (re_nend_bits e2) = (e3, window, used)"
    by (cases "re_flush e2 (re_end_window e2) (re_nend_bits e2)")
  assume "re_err (re_done e) = 0"
  then have "re_err e3 = 0" unfolding re_done_def Let_def ly prod.case e2_def [symmetric] e3 by (auto split: if_splits)
  then have "re_err e2 = 0" using flush [of e2] e3 by (metis fst_conv)
  then have "re_err (done_bytes l y e) = 0" using carry_err by (auto simp: e2_def split: if_splits)
  then show ?thesis by (rule done_bytes_err)
qed

section \<open>Properties\<close>

text \<open>C2: The entropy coder of the codec loses nothing: whatever symbols of whatever tables and raw bits
  are encoded, if the encoder reports no error at the end, a decoder of its bytes gives back exactly
  them and reports none; three bytes for each and two more are always enough.\<close>

theorem entropy_coding_roundtrip:
  assumes "\<forall>(s, f) \<in> set sc. field_ok f \<and> in_field f s"
  shows "\<exists>e. encode_items sc (NewRangeEncoder n) = Some e
    \<and> (re_err (re_done e) = 0 \<longrightarrow> (\<exists>d d'. NewRangeDecoder (re_bytes (re_done e)) = Some d
         \<and> decode_items (map snd sc) d = Some (d', map fst sc) \<and> rd_err d' = 0))
    \<and> (3 * length sc + 2 \<le> n \<longrightarrow> re_err (re_done e) = 0)"
proof -
  have start: "enc_at (NewRangeEncoder n) 0 0 (2 ^ 31)" by (rule enc_at_new)
  obtain e k v r where e: "encode_items sc (NewRangeEncoder n) = Some e" "enc_at e k v r" "2 ^ 23 < r"
    "\<And>bs. v \<le> code bs (k + 4) \<Longrightarrow> code bs (k + 4) < v + r \<Longrightarrow>
      (\<forall>d. dec_at bs d 4 0 (2 ^ 31) \<longrightarrow> (\<exists>d'. decode_items (map snd sc) d = Some (d', map fst sc)
           \<and> dec_at bs d' (k + 4) v r \<and> rd_err d' = rd_err d))"
    using encode_decode [OF start _ assms] by auto
  have err: "re_err e = 0" if "re_err (re_done e) = 0"
    using that done_err by blast
  have "\<exists>d d'. NewRangeDecoder (re_bytes (re_done e)) = Some d \<and> decode_items (map snd sc) d = Some (d', map fst sc) \<and> rd_err d' = 0"
    if ok: "re_err (re_done e) = 0"
  proof -
    note inside = done_inside [OF e(2,3) ok err [OF ok]]
    obtain d where "NewRangeDecoder (re_bytes (re_done e)) = Some d" "dec_at (re_bytes (re_done e)) d 4 0 (2 ^ 31)" "rd_err d = 0"
      using dec_at_new by blast
    then show ?thesis using e(4) [OF inside] unfolding re_bytes_def by metis
  qed
  moreover have "re_err (re_done e) = 0" if "3 * length sc + 2 \<le> n"
  proof -
    have "fits n 0 (NewRangeEncoder n)" by (simp add: fits_def pending_def NewRangeEncoder_def)
    from fits_fields [OF start _ assms e(1) this] that have fit: "fits n (3 * length sc) e" by simp
    then have "enc_exact e k v" "re_rng e = r" "r \<le> 2 ^ 31" using e(2) by (simp_all add: enc_at_def fits_def)
    then show ?thesis using fits_done [OF fit that] e(3) by simp
  qed
  ultimately show ?thesis using e(1) by blast
qed

text \<open>An empty field, a full table, one with a base, and raw bits.\<close>

definition demo_fields :: "(int \<times> coder_field) list" where
  "demo_fields = [(2, Table [0, 10, 50, 80, 100]), (0, Table [100, 110, 150]), (5, Raw 3), (255, Raw 8), (3, Table [0, 10, 50, 80, 100])]"

theorem entropy_coding_roundtrip_witness:
  "\<exists>e d d'. encode_items demo_fields (NewRangeEncoder 17) = Some e \<and> NewRangeDecoder (re_bytes (re_done e)) = Some d
     \<and> decode_items (map snd demo_fields) d = Some (d', [2, 0, 5, 255, 3]) \<and> rd_err d' = 0"
proof -
  have ok: "\<forall>(s, f) \<in> set demo_fields. field_ok f \<and> in_field f s"
    by (simp add: demo_fields_def cdf_table_def has_symbol_def cdf_total_def raw_bits_ok_def)
  have "3 * length demo_fields + 2 \<le> 17" "map fst demo_fields = [2, 0, 5, 255, 3]" by (simp_all add: demo_fields_def)
  with entropy_coding_roundtrip [OF ok, of 17] show ?thesis by metis
qed

text \<open>Any bytes can be decoded.\<close>

fun field_sane :: "coder_field \<Rightarrow> bool" where
  "field_sane (Table cdf) \<longleftrightarrow> cdf_table cdf"
| "field_sane (Raw n) \<longleftrightarrow> raw_bits_ok n"

lemma decode_sane:
  assumes d: "dec_at bs d n v r" and r: "2 ^ 23 < r" and f: "field_sane f"
  shows "\<exists>s d' n' v' r'. decode_item f d = Some (d', s) \<and> dec_at bs d' n' v' r' \<and> 2 ^ 23 < r'
    \<and> (field_ok f \<longrightarrow> in_field f s \<and> rd_err d' = rd_err d) \<and> (\<not> field_ok f \<longrightarrow> rd_err d' = 1)"
proof (cases "field_ok f")
  case True
  obtain s d' p where o: "decode_item f d = Some (d', s)" "in_field f s" "rd_err d' = rd_err d"
    "p = part_size r (field_low f s) (field_high f s) (field_total f)"
    "dec_at bs d' (n + shifts p) ((v + part_low r (field_low f s) (field_high f s) (field_total f)) * 256 ^ shifts p)
       (p * 256 ^ shifts p)" by (rule decode_any [OF d r True])
  have "0 < p" "p \<le> r" using part_range(1,2) [OF r field_part [OF True o(2)]] by (simp_all add: o(4))
  moreover have "r \<le> 2 ^ 31" using d by (simp add: dec_at_def)
  ultimately have "2 ^ 23 < p * 256 ^ shifts p" by (intro shifts_range(1)) simp_all
  then show ?thesis using o(1,2,3,5) True by blast
next
  case False
  then obtain cdf where cdf: "f = Table cdf" "length cdf < 2 \<or> cdf_total cdf \<le> 0" using f by (cases f) auto
  then have "decode_item f d = Some (d\<lparr>rd_err := 1\<rparr>, 0)" by (auto simp: rd_decode_cdf_def Let_def cdf_total_def)
  moreover have "dec_at bs (d\<lparr>rd_err := 1\<rparr>) n v r" using d by (simp add: dec_at_def)
  ultimately show ?thesis using False r by (intro exI conjI) auto
qed

lemma decode_all_sane:
  assumes "dec_at bs d n v r" "2 ^ 23 < r" "\<forall>f \<in> set fs. field_sane f"
  shows "\<exists>d' ss. decode_items fs d = Some (d', ss) \<and> list_all2 (\<lambda>f s. field_ok f \<longrightarrow> in_field f s) fs ss
    \<and> (rd_err d' = 0 \<longleftrightarrow> rd_err d = 0 \<and> (\<forall>f \<in> set fs. field_ok f))"
  using assms
proof (induction fs arbitrary: d n v r)
  case (Cons f fs)
  obtain s d1 n1 v1 r1 where d1: "decode_item f d = Some (d1, s)" "dec_at bs d1 n1 v1 r1" "2 ^ 23 < r1"
    "field_ok f \<Longrightarrow> in_field f s \<and> rd_err d1 = rd_err d" "\<not> field_ok f \<Longrightarrow> rd_err d1 = 1"
    using decode_sane [OF Cons.prems(1,2)] Cons.prems(3) by (metis list.set_intros(1))
  have "\<forall>f \<in> set fs. field_sane f" using Cons.prems(3) by simp
  from Cons.IH [OF d1(2,3) this] obtain d' ss where ih: "decode_items fs d1 = Some (d', ss)"
    "list_all2 (\<lambda>f s. field_ok f \<longrightarrow> in_field f s) fs ss" "rd_err d' = 0 \<longleftrightarrow> rd_err d1 = 0 \<and> (\<forall>f \<in> set fs. field_ok f)" by blast
  have "rd_err d1 = 0 \<longleftrightarrow> rd_err d = 0 \<and> field_ok f" using d1(4,5) by (cases "field_ok f") auto
  then show ?case using d1(1,4) ih by auto
qed simp

text \<open>C15: A decoder gets through any bytes, however short or malformed: for every sequence of tables
  (sorted, of uint16) and raw fields each of its loops ends and no index is out of range, each
  symbol is one of its table, and the error is set exactly if some table has no symbol to give.\<close>

theorem entropy_decoder_total:
  assumes "\<forall>f \<in> set fs. field_sane f"
  shows "\<exists>d d' ss. NewRangeDecoder bs = Some d \<and> decode_items fs d = Some (d', ss)
    \<and> list_all2 (\<lambda>f s. field_ok f \<longrightarrow> in_field f s) fs ss \<and> (rd_err d' = 0 \<longleftrightarrow> (\<forall>f \<in> set fs. field_ok f))"
proof -
  obtain d where d: "NewRangeDecoder bs = Some d" "dec_at bs d 4 0 (2 ^ 31)" "rd_err d = 0" using dec_at_new by blast
  with decode_all_sane [OF d(2) _ assms] show ?thesis by auto
qed

theorem entropy_decoder_total_witness:
  "\<exists>d d' ss. NewRangeDecoder [255, 7] = Some d \<and> decode_items [Table [0, 3, 3, 9], Table [4], Raw 5] d = Some (d', ss)
     \<and> length ss = 3 \<and> rd_err d' \<noteq> 0"
proof -
  have "\<forall>f \<in> set [Table [0, 3, 3, 9], Table [4], Raw 5]. field_sane f" by (simp add: cdf_table_def raw_bits_ok_def)
  from entropy_decoder_total [OF this, of "[255, 7]"] show ?thesis
    by (auto dest: list_all2_lengthD)
qed

end
